(* ===== verification/Prelude.thy ===== *)
theory Prelude
  imports Main "HOL-Library.AList" "HOL-Library.Multiset"
begin

text \<open>
  What every component of the development shares: Go's 64-bit integers with their wrap-around
  written out, Go maps (partial functions where the code only looks keys up, association lists
  where it ranges over the map), counters, the insertion-sort loop that three functions of the
  source contain, decimal formatting, and the locales \<open>event_fold\<close> and \<open>monotone_fold\<close>, which lift
  one-step facts to runs.
\<close>

named_theorems go_int \<open>int64 arithmetic: ranges and wrap-around\<close>

section \<open>Go's int64 and uint64\<close>

text \<open>
  An int64 value is an \<open>int\<close> in range; every arithmetic operation of the code whose overflow
  matters goes through \<open>wrap64\<close>, two's-complement reduction.
\<close>

type_synonym i64 = int
type_synonym u64 = nat

definition int64 :: "int \<Rightarrow> bool" where
  "int64 x \<longleftrightarrow> - 9223372036854775808 \<le> x \<and> x \<le> 9223372036854775807"

definition wrap64 :: "int \<Rightarrow> i64" where
  "wrap64 x = (x + 9223372036854775808) mod 18446744073709551616 - 9223372036854775808"

definition uadd64 :: "u64 \<Rightarrow> u64 \<Rightarrow> u64" where
  "uadd64 a b = (a + b) mod 18446744073709551616"

lemma int64_wrap64 [simp, go_int]: "int64 (wrap64 x)"
proof -
  have "0 \<le> (x + 9223372036854775808) mod 18446744073709551616"
    "(x + 9223372036854775808) mod 18446744073709551616 < (18446744073709551616::int)"
    by simp_all
  then show ?thesis unfolding int64_def wrap64_def by linarith
qed

lemma wrap64_id [go_int]: "int64 x \<Longrightarrow> wrap64 x = x"
  unfolding int64_def wrap64_def by simp

lemma wrap64_idem [simp]: "wrap64 (wrap64 x) = wrap64 x"
  by (rule wrap64_id) simp

lemma wrap64_eq_iff: "wrap64 x = wrap64 y \<longleftrightarrow> x mod 18446744073709551616 = y mod 18446744073709551616"
proof
  assume "wrap64 x = wrap64 y"
  then have "(x + 9223372036854775808) mod 18446744073709551616
      = (y + 9223372036854775808) mod 18446744073709551616"
    by (simp add: wrap64_def)
  then have "(x + 9223372036854775808 - 9223372036854775808) mod 18446744073709551616
      = (y + 9223372036854775808 - 9223372036854775808) mod (18446744073709551616::int)"
    by (rule mod_diff_cong) simp
  then show "x mod 18446744073709551616 = y mod 18446744073709551616" by simp
next
  assume "x mod 18446744073709551616 = y mod 18446744073709551616"
  then have "(x + 9223372036854775808) mod 18446744073709551616
      = (y + 9223372036854775808) mod 18446744073709551616"
    by (rule mod_add_cong) simp
  then show "wrap64 x = wrap64 y" by (simp add: wrap64_def)
qed

lemma wrap64_mod: "wrap64 x mod 18446744073709551616 = x mod 18446744073709551616"
  using wrap64_eq_iff wrap64_idem by blast

lemma wrap64_add_l [simp]: "wrap64 (wrap64 x + y) = wrap64 (x + y)"
  by (simp add: wrap64_eq_iff) (metis mod_add_left_eq wrap64_mod)

lemma wrap64_add_r [simp]: "wrap64 (x + wrap64 y) = wrap64 (x + y)"
  by (metis add.commute wrap64_add_l)

lemma wrap64_diff_l [simp]: "wrap64 (wrap64 x - y) = wrap64 (x - y)"
  by (simp add: wrap64_eq_iff) (metis mod_diff_left_eq wrap64_mod)

lemma wrap64_diff_r [simp]: "wrap64 (x - wrap64 y) = wrap64 (x - y)"
  by (simp add: wrap64_eq_iff) (metis mod_diff_right_eq wrap64_mod)

lemma wrap64_nonneg_add [go_int]:
  "0 \<le> x \<Longrightarrow> 0 \<le> y \<Longrightarrow> x + y \<le> 9223372036854775807 \<Longrightarrow> wrap64 (x + y) = x + y"
  by (rule wrap64_id) (simp add: int64_def)

lemma wrap64_0 [simp]: "wrap64 0 = 0"
  by (simp add: wrap64_def)

text \<open>Two int64 values that agree modulo \<open>2^64\<close> are equal.\<close>

lemma wrap64_inj_on_int64: "int64 x \<Longrightarrow> int64 y \<Longrightarrow> wrap64 x = wrap64 y \<Longrightarrow> x = y"
  by (simp add: wrap64_id)

text \<open>Go's integer division truncates toward zero.\<close>

definition goquot :: "i64 \<Rightarrow> i64 \<Rightarrow> i64" where
  "goquot a b = sgn a * sgn b * (\<bar>a\<bar> div \<bar>b\<bar>)"

lemma goquot_pos [simp, go_int]: "0 \<le> a \<Longrightarrow> 0 < b \<Longrightarrow> goquot a b = a div b"
  by (cases "a = 0") (auto simp: goquot_def)

section \<open>Go maps\<close>

text \<open>
  \<open>getd d m k\<close> is Go's \<open>m[k]\<close>: the zero value \<open>d\<close> where the key is absent. \<open>incr\<close> is \<open>m[k]++\<close>.
  A set of type \<open>map[string]struct{}\<close> is a \<open>set\<close>. Maps the code ranges over are association lists,
  read with \<open>map_of\<close> and written with \<open>AList.update\<close> and \<open>AList.delete\<close>.
\<close>

definition getd :: "'v \<Rightarrow> ('k \<rightharpoonup> 'v) \<Rightarrow> 'k \<Rightarrow> 'v" where
  "getd d m k = (case m k of None \<Rightarrow> d | Some v \<Rightarrow> v)"

definition incr :: "('k \<rightharpoonup> int) \<Rightarrow> 'k \<Rightarrow> ('k \<rightharpoonup> int)" where
  "incr m k = m(k \<mapsto> getd 0 m k + 1)"

lemma getd_empty [simp]: "getd d Map.empty k = d"
  by (simp add: getd_def)

lemma getd_upd [simp]: "getd d (m(k \<mapsto> v)) j = (if j = k then v else getd d m j)"
  by (simp add: getd_def)

lemma getd_upd_opt [simp]: "getd d (m(k := None)) j = (if j = k then d else getd d m j)"
  by (simp add: getd_def)

lemma getd_Some [simp]: "m k = Some v \<Longrightarrow> getd d m k = v"
  by (simp add: getd_def)

lemma getd_incr [simp]: "getd 0 (incr m k) j = (if j = k then getd 0 m j + 1 else getd 0 m j)"
  by (simp add: incr_def)

lemma incr_apply [simp]: "incr m k j = (if j = k then Some (getd 0 m k + 1) else m j)"
  by (simp add: incr_def)

declare update_conv' [simp] delete_conv' [simp]

lemma keys_update: "fst ` set (AList.update k v xs) = insert k (fst ` set xs)"
  by (induction xs) auto

lemma keys_delete: "fst ` set (AList.delete k xs) = fst ` set xs - {k}"
  by (induction xs) auto

definition map_ok :: "('k \<times> 'v) list \<Rightarrow> bool" where
  "map_ok m \<longleftrightarrow> distinct (map fst m)"

lemma map_ok_Nil [simp]: "map_ok []"
  by (simp add: map_ok_def)

lemma map_ok_update [simp]: "map_ok m \<Longrightarrow> map_ok (AList.update k v m)"
  by (simp add: map_ok_def distinct_update)

lemma map_ok_delete [simp]: "map_ok m \<Longrightarrow> map_ok (AList.delete k m)"
  by (simp add: map_ok_def distinct_delete)

lemma map_ok_filter [simp]: "map_ok m \<Longrightarrow> map_ok (filter P m)"
  by (simp add: map_ok_def distinct_map_filter)

lemma map_of_filter_ok: "map_ok m \<Longrightarrow>
  map_of (filter P m) k = (case map_of m k of None \<Rightarrow> None | Some v \<Rightarrow> if P (k, v) then Some v else None)"
proof (induction m)
  case Nil
  then show ?case by simp
next
  case (Cons x m)
  have dist: "distinct (map fst m)" and notin: "fst x \<notin> set (map fst m)"
    using Cons.prems by (auto simp: map_ok_def)
  then have none: "map_of m (fst x) = None" by (metis map_of_eq_None_iff list.set_map)
  show ?case
    using Cons.IH dist none by (cases x) (auto simp: map_ok_def split: option.splits)
qed

text \<open>An update that writes the value already there changes nothing.\<close>

lemma update_same: "map_of m k = Some v \<Longrightarrow> AList.update k v m = m"
  by (induction m) (auto split: if_splits)

lemma sum_list_update:
  fixes f :: "'v \<Rightarrow> int"
  shows "map_ok m \<Longrightarrow> sum_list (map (f \<circ> snd) (AList.update k v m))
    = sum_list (map (f \<circ> snd) m) - (case map_of m k of None \<Rightarrow> 0 | Some w \<Rightarrow> f w) + f v"
  by (induction m) (auto simp: map_ok_def split: option.splits dest: map_of_SomeD)

section \<open>The insertion-sort loop\<close>

text \<open>
  \<open>for i := 1; i < len(xs); i++ { for j := i; j > 0 && less(xs[j], xs[j-1]); j-- { swap } }\<close>
  occurs in \<open>applyAssignAuctionClose\<close>, \<open>coOccurrenceMap.topK\<close> and \<open>medianInt\<close>. The loop is kept
  as it is written and shown equal to the library's stable sort.
\<close>

fun sift :: "('a \<Rightarrow> 'a \<Rightarrow> bool) \<Rightarrow> nat \<Rightarrow> 'a list \<Rightarrow> 'a list" where
  "sift lt 0 xs = xs"
| "sift lt (Suc j) xs =
     (if lt (xs ! Suc j) (xs ! j) then sift lt j (xs[Suc j := xs ! j, j := xs ! Suc j]) else xs)"

lemma length_sift [simp]: "length (sift lt j xs) = length xs"
  by (induction lt j xs rule: sift.induct) auto

function isort_loop :: "('a \<Rightarrow> 'a \<Rightarrow> bool) \<Rightarrow> nat \<Rightarrow> 'a list \<Rightarrow> 'a list" where
  "isort_loop lt i xs = (if i < length xs then isort_loop lt (Suc i) (sift lt i xs) else xs)"
  by pat_completeness auto

termination
  by (relation "measure (\<lambda>(lt, i, xs). length xs - i)") auto

declare isort_loop.simps [simp del]

definition insertion_sort :: "('a \<Rightarrow> 'a \<Rightarrow> bool) \<Rightarrow> 'a list \<Rightarrow> 'a list" where
  "insertion_sort lt xs = isort_loop lt 1 xs"

text \<open>The inner loop moves one element left past the larger ones before it.\<close>

fun ins_front :: "('a \<Rightarrow> 'a \<Rightarrow> bool) \<Rightarrow> 'a \<Rightarrow> 'a list \<Rightarrow> 'a list" where
  "ins_front lt x [] = [x]"
| "ins_front lt x (y # ys) = (if lt x y then y # ins_front lt x ys else x # y # ys)"

lemma sift_append:
  "sift lt (length ys) (rev ys @ x # zs) = rev (ins_front lt x ys) @ zs"
proof (induction ys arbitrary: zs)
  case Nil
  then show ?case by simp
next
  case (Cons y ys)
  have nth: "(rev ys @ y # x # zs) ! Suc (length ys) = x" "(rev ys @ y # x # zs) ! length ys = y"
    by (simp_all add: nth_append)
  have upd: "(rev ys @ y # x # zs)[Suc (length ys) := y, length ys := x] = rev ys @ x # y # zs"
    by (simp add: list_update_append)
  show ?case using Cons.IH[of "y # zs"] by (simp add: nth upd)
qed

lemma mset_ins_front [simp]: "mset (ins_front lt x ys) = add_mset x (mset ys)"
  by (induction ys) auto

lemma set_ins_front [simp]: "set (ins_front lt x ys) = insert x (set ys)"
  by (induction ys) auto

lemma length_ins_front [simp]: "length (ins_front lt x ys) = Suc (length ys)"
  by (induction ys) auto

lemma sorted_ins_front:
  fixes f :: "'a \<Rightarrow> 'b::linorder"
  assumes "\<And>a b. lt a b \<longleftrightarrow> f a < f b" "sorted_wrt (\<lambda>a b. f b \<le> f a) ys"
  shows "sorted_wrt (\<lambda>a b. f b \<le> f a) (ins_front lt x ys)"
  using assms(2) by (induction ys) (fastforce simp: assms(1))+

lemma filter_ins_front:
  fixes f :: "'a \<Rightarrow> 'b::linorder"
  assumes "\<And>a b. lt a b \<longleftrightarrow> f a < f b" "sorted_wrt (\<lambda>a b. f b \<le> f a) ys"
  shows "filter (\<lambda>y. f y = k) (ins_front lt x ys)
    = (if f x = k then x # filter (\<lambda>y. f y = k) ys else filter (\<lambda>y. f y = k) ys)"
  using assms(2)
proof (induction ys)
  case Nil
  then show ?case by simp
next
  case (Cons y ys)
  have "f x < f y \<Longrightarrow> f y \<noteq> k \<or> f x \<noteq> k" by auto
  with Cons show ?case by (auto simp: assms(1))
qed

definition sorted_upto :: "('a \<Rightarrow> 'b::linorder) \<Rightarrow> nat \<Rightarrow> 'a list \<Rightarrow> bool" where
  "sorted_upto f i xs \<longleftrightarrow> sorted_wrt (\<lambda>a b. f b \<le> f a) (rev (take i xs))"

lemma sift_step:
  fixes f :: "'a \<Rightarrow> 'b::linorder"
  assumes lt: "\<And>a b. lt a b \<longleftrightarrow> f a < f b" and i: "i < length xs" and s: "sorted_upto f i xs"
  shows "sorted_upto f (Suc i) (sift lt i xs)" "mset (sift lt i xs) = mset xs"
    "filter (\<lambda>y. f y = k) (sift lt i xs) = filter (\<lambda>y. f y = k) xs"
proof -
  define ys where "ys = rev (take i xs)"
  define zs where "zs = drop (Suc i) xs"
  have xs: "xs = rev ys @ xs ! i # zs"
    unfolding ys_def zs_def rev_rev_ident by (rule id_take_nth_drop[OF i])
  have len: "length ys = i" using i by (simp add: ys_def)
  have sift: "sift lt i xs = rev (ins_front lt (xs ! i) ys) @ zs"
    using sift_append[of lt ys "xs ! i" zs] unfolding xs[symmetric] len .
  have srt: "sorted_wrt (\<lambda>a b. f b \<le> f a) ys" using s by (simp add: sorted_upto_def ys_def)
  show "sorted_upto f (Suc i) (sift lt i xs)"
    using sorted_ins_front[OF lt srt, of "xs ! i"] len by (simp add: sorted_upto_def sift)
  have "mset xs = mset (rev ys @ xs ! i # zs)" by (rule arg_cong[OF xs])
  then show "mset (sift lt i xs) = mset xs" by (simp add: sift)
  have r: "filter (\<lambda>y. f y = k) (rev as) = rev (filter (\<lambda>y. f y = k) as)" for as
    by (rule rev_filter[symmetric])
  have "filter (\<lambda>y. f y = k) (rev (ins_front lt x ys) @ zs) = filter (\<lambda>y. f y = k) (rev ys @ x # zs)" for x
    by (simp add: r filter_ins_front[OF lt srt])
  then show "filter (\<lambda>y. f y = k) (sift lt i xs) = filter (\<lambda>y. f y = k) xs"
    unfolding sift by (rule trans) (rule arg_cong[OF xs[symmetric]])
qed

lemma isort_loop_props:
  fixes f :: "'a \<Rightarrow> 'b::linorder"
  assumes lt: "\<And>a b. lt a b \<longleftrightarrow> f a < f b" and "sorted_upto f i xs"
  shows "sorted (map f (isort_loop lt i xs)) \<and> mset (isort_loop lt i xs) = mset xs
    \<and> filter (\<lambda>y. f y = k) (isort_loop lt i xs) = filter (\<lambda>y. f y = k) xs"
  using assms(2)
proof (induction "length xs - i" arbitrary: i xs)
  case 0
  then have len: "length xs \<le> i" by simp
  then have "isort_loop lt i xs = xs" by (subst isort_loop.simps) simp
  moreover have "sorted (map f xs)"
    using "0.prems" len by (simp add: sorted_upto_def sorted_wrt_rev sorted_map)
  ultimately show ?case by simp
next
  case (Suc n)
  then have i: "i < length xs" by simp
  have eq: "isort_loop lt i xs = isort_loop lt (Suc i) (sift lt i xs)"
    using i by (subst isort_loop.simps) simp
  have "n = length (sift lt i xs) - Suc i" using Suc.hyps(2) by simp
  from Suc.hyps(1)[OF this sift_step(1)[OF lt i Suc.prems]]
  show ?case using sift_step(2,3)[OF lt i Suc.prems] by (simp add: eq)
qed

theorem insertion_sort_eq_sort_key:
  fixes f :: "'a \<Rightarrow> 'b::linorder"
  assumes "\<And>a b. lt a b \<longleftrightarrow> f a < f b"
  shows "insertion_sort lt xs = sort_key f xs"
proof -
  have init: "sorted_upto f 1 xs" by (cases xs) (simp_all add: sorted_upto_def)
  note p = isort_loop_props[OF assms init]
  show ?thesis unfolding insertion_sort_def
    by (rule properties_for_sort_key[symmetric]) (use p in \<open>auto simp: eq_commute\<close>)
qed

section \<open>Decimal formatting\<close>

text \<open>The \<open>%d\<close> verb of \<open>fmt.Sprintf\<close> on an unsigned integer.\<close>

fun show_nat :: "nat \<Rightarrow> string" where
  "show_nat n = (if n < 10 then [char_of (48 + n)] else show_nat (n div 10) @ [char_of (48 + n mod 10)])"

declare show_nat.simps [simp del]

definition val_dec :: "string \<Rightarrow> nat" where
  "val_dec s = foldl (\<lambda>a c. 10 * a + (of_char c - 48)) 0 s"

lemma of_char_digit: "d < 10 \<Longrightarrow> (of_char (char_of (48 + d :: nat)) :: nat) = 48 + d"
  by (simp add: of_char_of)

lemma val_dec_show_nat [simp]: "val_dec (show_nat n) = n"
proof (induction n rule: show_nat.induct)
  case (1 n)
  show ?case
  proof (cases "n < 10")
    case True
    then show ?thesis by (subst show_nat.simps) (simp add: val_dec_def of_char_digit)
  next
    case False
    then have "val_dec (show_nat (n div 10)) = n div 10" using 1 by simp
    then show ?thesis using False
      by (subst show_nat.simps) (simp add: val_dec_def of_char_digit)
  qed
qed

lemma show_nat_inj: "show_nat a = show_nat b \<Longrightarrow> a = b"
  by (metis val_dec_show_nat)

lemma digit_neq_minus: "d < 10 \<Longrightarrow> char_of (48 + d :: nat) \<noteq> CHR ''-''"
proof
  assume "d < 10" "char_of (48 + d) = CHR ''-''"
  then have "of_char (char_of (48 + d)) = (of_char (CHR ''-'') :: nat)" by simp
  with \<open>d < 10\<close> show False by (simp add: of_char_digit)
qed

lemma show_nat_no_minus: "CHR ''-'' \<notin> set (show_nat n)"
proof (induction n rule: show_nat.induct)
  case (1 n)
  show ?case
  proof (cases "n < 10")
    case True
    then show ?thesis by (subst show_nat.simps) (metis digit_neq_minus empty_iff empty_set set_ConsD)
  next
    case False
    have "n mod 10 < 10" by simp
    from digit_neq_minus[OF this] False 1 show ?thesis by (subst show_nat.simps) auto
  qed
qed

lemma show_nat_nonempty [simp]: "show_nat n \<noteq> []"
  by (subst show_nat.simps) simp

text \<open>\<open>%d\<close> on a signed integer.\<close>

definition show_i64 :: "i64 \<Rightarrow> string" where
  "show_i64 n = (if n < 0 then CHR ''-'' # show_nat (nat (- n)) else show_nat (nat n))"

section \<open>Folding a log of events\<close>

text \<open>
  The exchange is event-sourced: a component is a step function folded over a log. \<open>event_fold\<close>
  lifts a one-step invariant to every log, \<open>monotone_fold\<close> a one-step monotone relation (a set that
  never shrinks, a status that never leaves a terminal value).
\<close>

locale event_fold =
  fixes step :: "'s \<Rightarrow> 'e \<Rightarrow> 's"
    and inv :: "'s \<Rightarrow> bool"
  assumes inv_step: "inv s \<Longrightarrow> inv (step s e)"
begin

lemma inv_run: "inv s \<Longrightarrow> inv (foldl step s es)"
  by (induction es arbitrary: s) (auto intro: inv_step)

end

locale monotone_fold = event_fold +
  fixes rel :: "'s \<Rightarrow> 's \<Rightarrow> bool"
  assumes rel_refl: "rel s s"
    and rel_trans: "rel s t \<Longrightarrow> rel t u \<Longrightarrow> rel s u"
    and rel_step: "inv s \<Longrightarrow> rel s (step s e)"
begin

lemma rel_run: "inv s \<Longrightarrow> rel s (foldl step s es)"
proof (induction es arbitrary: s)
  case Nil
  then show ?case by (simp add: rel_refl)
next
  case (Cons e es)
  from Cons.prems have "rel s (step s e)" by (rule rel_step)
  moreover from Cons.prems have "rel (step s e) (foldl step (step s e) es)"
    by (intro Cons.IH inv_step)
  ultimately show ?case by (auto intro: rel_trans)
qed

end

end
