(* ===== verification/Go_Json.thy ===== *)
theory Go_Json
  imports Prelude
begin

text \<open>
  \<open>encoding/json\<close> as the code uses it: \<open>json.Unmarshal(payload, &p)\<close> into a struct with tagged
  fields. A payload is the JSON value its bytes denote, or \<open>None\<close> where the bytes are not one JSON
  value (Unmarshal checks the whole input before it decodes anything). A decoder returns the
  struct together with \<open>err == nil\<close>: a field whose JSON type does not fit is left alone, decoding
  goes on with the other fields, and the error is reported at the end; \<open>null\<close> leaves a field
  alone without an error; a key is matched to a field exactly, else case-insensitively; a
  repeated key is decoded again over the earlier result.
\<close>

section \<open>Values\<close>

text \<open>
  \<open>JInt\<close> is a number literal without fraction and exponent; \<open>JNum\<close> is any other number literal,
  which no integer field accepts.
\<close>

datatype json =
    JNull
  | JBool bool
  | JInt int
  | JNum string
  | JStr string
  | JArr "json list"
  | JObj "(string \<times> json) list"

type_synonym payload = "json option"

section \<open>Field decoders\<close>

fun dec_string :: "json \<Rightarrow> string \<Rightarrow> string \<times> bool" where
  "dec_string (JStr s) old = (s, True)"
| "dec_string JNull old = (old, True)"
| "dec_string _ old = (old, False)"

text \<open>\<open>int64\<close> and, on the 64-bit targets the program is built for, \<open>int\<close>.\<close>

fun dec_i64 :: "json \<Rightarrow> i64 \<Rightarrow> i64 \<times> bool" where
  "dec_i64 (JInt i) old = (if int64 i then (i, True) else (old, False))"
| "dec_i64 JNull old = (old, True)"
| "dec_i64 _ old = (old, False)"

fun dec_bool :: "json \<Rightarrow> bool \<Rightarrow> bool \<times> bool" where
  "dec_bool (JBool b) old = (b, True)"
| "dec_bool JNull old = (old, True)"
| "dec_bool _ old = (old, False)"

text \<open>
  A \<open>*int64\<close> field: \<open>null\<close> makes it nil; any other value allocates the target first, so a value of
  the wrong type leaves a pointer to 0.
\<close>

fun dec_i64_ptr :: "json \<Rightarrow> i64 option \<Rightarrow> i64 option \<times> bool" where
  "dec_i64_ptr JNull old = (None, True)"
| "dec_i64_ptr j old = (case dec_i64 j (case old of None \<Rightarrow> 0 | Some v \<Rightarrow> v) of (v, ok) \<Rightarrow> (Some v, ok))"

text \<open>A slice: every element is decoded into a zero value, one bad element does not stop the rest.\<close>

fun dec_elems :: "(json \<Rightarrow> 'a \<Rightarrow> 'a \<times> bool) \<Rightarrow> 'a \<Rightarrow> json list \<Rightarrow> 'a list \<times> bool" where
  "dec_elems dec z [] = ([], True)"
| "dec_elems dec z (j # js) =
     (case dec j z of (v, ok) \<Rightarrow> case dec_elems dec z js of (vs, oks) \<Rightarrow> (v # vs, ok \<and> oks))"

fun dec_slice :: "(json \<Rightarrow> 'a \<Rightarrow> 'a \<times> bool) \<Rightarrow> 'a \<Rightarrow> json \<Rightarrow> 'a list \<Rightarrow> 'a list \<times> bool" where
  "dec_slice dec z (JArr js) old = dec_elems dec z js"
| "dec_slice dec z JNull old = ([], True)"
| "dec_slice dec z _ old = (old, False)"

section \<open>Struct decoding\<close>

text \<open>
  Case folding of a key, on UTF-8 bytes: ASCII letters, and the two other code points that fold to
  one, U+017F (long s) and U+212A (Kelvin sign).
\<close>

definition lower_char :: "char \<Rightarrow> char" where
  "lower_char c = (let n = (of_char c :: nat) in if 65 \<le> n \<and> n \<le> 90 then char_of (n + 32) else c)"

fun fold_key :: "string \<Rightarrow> string" where
  "fold_key [] = []"
| "fold_key (c # cs) =
     (if c = CHR 0xC5 \<and> cs \<noteq> [] \<and> hd cs = CHR 0xBF then CHR ''s'' # fold_key (tl cs)
      else if c = CHR 0xE2 \<and> length cs \<ge> 2 \<and> hd cs = CHR 0x84 \<and> hd (tl cs) = CHR 0xAA
        then CHR ''k'' # fold_key (tl (tl cs))
      else lower_char c # fold_key cs)"

type_synonym 'r fields = "(string \<times> (json \<Rightarrow> 'r \<Rightarrow> 'r \<times> bool)) list"

definition find_field :: "'r fields \<Rightarrow> string \<Rightarrow> (json \<Rightarrow> 'r \<Rightarrow> 'r \<times> bool) option" where
  "find_field fs key =
     (case map_of fs key of
        Some d \<Rightarrow> Some d
      | None \<Rightarrow> map_option snd (find (\<lambda>f. fold_key (fst f) = fold_key key) fs))"

fun dec_members :: "'r fields \<Rightarrow> (string \<times> json) list \<Rightarrow> 'r \<Rightarrow> 'r \<times> bool" where
  "dec_members fs [] r = (r, True)"
| "dec_members fs ((key, j) # kvs) r =
     (case (case find_field fs key of None \<Rightarrow> (r, True) | Some d \<Rightarrow> d j r) of
        (r', ok) \<Rightarrow> case dec_members fs kvs r' of (r'', oks) \<Rightarrow> (r'', ok \<and> oks))"

fun dec_struct :: "'r fields \<Rightarrow> json \<Rightarrow> 'r \<Rightarrow> 'r \<times> bool" where
  "dec_struct fs (JObj kvs) r = dec_members fs kvs r"
| "dec_struct fs JNull r = (r, True)"
| "dec_struct fs _ r = (r, False)"

text \<open>A field decoder lifted to the struct that holds the field.\<close>

definition on_field :: "(json \<Rightarrow> 'f \<Rightarrow> 'f \<times> bool) \<Rightarrow> ('r \<Rightarrow> 'f) \<Rightarrow> (('f \<Rightarrow> 'f) \<Rightarrow> 'r \<Rightarrow> 'r)
    \<Rightarrow> json \<Rightarrow> 'r \<Rightarrow> 'r \<times> bool" where
  "on_field dec get upd j r = (case dec j (get r) of (v, ok) \<Rightarrow> (upd (\<lambda>_. v) r, ok))"

text \<open>\<open>unmarshal fs payload zero\<close> is the struct after \<open>json.Unmarshal\<close> and whether the error is nil.\<close>

definition unmarshal :: "'r fields \<Rightarrow> payload \<Rightarrow> 'r \<Rightarrow> 'r \<times> bool" where
  "unmarshal fs p zero = (case p of None \<Rightarrow> (zero, False) | Some j \<Rightarrow> dec_struct fs j zero)"

section \<open>Facts the components use\<close>

lemma unmarshal_None [simp]: "unmarshal fs None z = (z, False)"
  by (simp add: unmarshal_def)

lemma dec_i64_range: "int64 old \<Longrightarrow> dec_i64 j old = (v, ok) \<Longrightarrow> int64 v"
  by (cases j) (auto split: if_splits)

lemma dec_i64_ptr_range:
  "(\<forall>v. old = Some v \<longrightarrow> int64 v) \<Longrightarrow> dec_i64_ptr j old = (Some w, ok) \<Longrightarrow> int64 w"
proof (cases j)
  case (JInt i)
  assume "\<forall>v. old = Some v \<longrightarrow> int64 v" "dec_i64_ptr j old = (Some w, ok)"
  with JInt show ?thesis by (auto split: if_splits option.splits simp: int64_def)
qed (auto split: option.splits simp: int64_def)

text \<open>An invariant of the struct that every field decoder keeps holds after decoding.\<close>

lemma find_field_mem: "find_field fs key = Some d \<Longrightarrow> \<exists>k. (k, d) \<in> set fs"
  by (auto simp: find_field_def find_Some_iff split: option.splits dest!: map_of_SomeD) (metis nth_mem surj_pair)

lemma dec_members_inv:
  assumes fs: "\<And>key d j r r' ok. (key, d) \<in> set fs \<Longrightarrow> P r \<Longrightarrow> d j r = (r', ok) \<Longrightarrow> P r'"
  shows "P r \<Longrightarrow> dec_members fs kvs r = (r', ok) \<Longrightarrow> P r'"
proof (induction kvs arbitrary: r ok)
  case Nil
  then show ?case by simp
next
  case (Cons kv kvs)
  obtain key j where kv: "kv = (key, j)" by (metis surj_pair)
  obtain r1 ok1 where d1: "(case find_field fs key of None \<Rightarrow> (r, True) | Some d \<Rightarrow> d j r) = (r1, ok1)"
    by (metis surj_pair)
  have "P r1"
  proof (cases "find_field fs key")
    case None
    with d1 Cons.prems show ?thesis by simp
  next
    case (Some d)
    then obtain k where "(k, d) \<in> set fs" using find_field_mem by metis
    with fs Cons.prems d1 Some show ?thesis by simp
  qed
  moreover obtain ok2 where "dec_members fs kvs r1 = (r', ok2)"
    using Cons.prems d1 kv by (auto split: prod.splits)
  ultimately show ?case by (rule Cons.IH)
qed

theorem unmarshal_inv:
  assumes "\<And>key d j r r' ok. (key, d) \<in> set fs \<Longrightarrow> P r \<Longrightarrow> d j r = (r', ok) \<Longrightarrow> P r'"
    and "P z" and "unmarshal fs p z = (r, ok)"
  shows "P r"
proof (cases p)
  case None
  with assms show ?thesis by simp
next
  case (Some j)
  with assms(3) have "dec_struct fs j z = (r, ok)" by (simp add: unmarshal_def)
  with assms(2) show ?thesis
    by (cases j) (auto intro: dec_members_inv[where P = P, OF assms(1)])
qed

end
