(* ===== verification/Go_Text.thy ===== *)
theory Go_Text
  imports Go_Json "HOL-Library.Word"
begin

text \<open>
  The parts of Go's standard library the exchange applies to text and bytes. A Go string is its
  UTF-8 bytes, a \<open>char list\<close>; \<open>[]byte\<close> is the same type. Case mapping and white space are those of
  package \<open>strings\<close>, restricted to what can be compared with an ASCII string; \<open>base64\<close> is
  \<open>base64.StdEncoding\<close>; \<open>sha256\<close> is FIPS 180-4 with its 32-bit words, and \<open>hmac_sha256\<close> is RFC 2104
  over it.
\<close>

section \<open>Case and white space\<close>

text \<open>
  \<open>strings.ToLower\<close>: ASCII letters, and the two other code points whose lower case is ASCII, U+0130
  and U+212A. The code compares the result with ASCII strings and splits it at every byte outside
  ASCII, so the lower case of the other code points makes no difference and is not modelled.
\<close>

fun toLower :: "string \<Rightarrow> string" where
  "toLower [] = []"
| "toLower (c # cs) =
     (if c = CHR 0xC4 \<and> cs \<noteq> [] \<and> hd cs = CHR 0xB0 then CHR ''i'' # toLower (tl cs)
      else if c = CHR 0xE2 \<and> length cs \<ge> 2 \<and> hd cs = CHR 0x84 \<and> hd (tl cs) = CHR 0xAA
        then CHR ''k'' # toLower (tl (tl cs))
      else lower_char c # toLower cs)"

text \<open>The code points \<open>unicode.IsSpace\<close> accepts, in UTF-8.\<close>

definition spaces :: "string list" where
  "spaces = map (\<lambda>n. [char_of n]) [9, 10, 11, 12, 13, 32::nat]
     @ [[CHR 0xC2, CHR 0x85], [CHR 0xC2, CHR 0xA0], [CHR 0xE1, CHR 0x9A, CHR 0x80]]
     @ map (\<lambda>n. [CHR 0xE2, CHR 0x80, char_of n]) ([128..<139] @ [168, 169, 175 :: nat])
     @ [[CHR 0xE2, CHR 0x81, CHR 0x9F], [CHR 0xE3, CHR 0x80, CHR 0x80]]"

definition leading :: "string list \<Rightarrow> string \<Rightarrow> nat" where
  "leading ps s = (case find (\<lambda>p. take (length p) s = p) ps of None \<Rightarrow> 0 | Some p \<Rightarrow> length p)"

function trim_left :: "string list \<Rightarrow> string \<Rightarrow> string" where
  "trim_left ps s = (if leading ps s = 0 \<or> s = [] then s else trim_left ps (drop (leading ps s) s))"
  by pat_completeness auto

termination
  by (relation "measure (\<lambda>(ps, s). length s)") auto

declare trim_left.simps [simp del]

definition trimSpace :: "string \<Rightarrow> string" where
  "trimSpace s = rev (trim_left (map rev spaces) (rev (trim_left spaces s)))"

text \<open>\<open>strings.FieldsFunc\<close> with a separator predicate on bytes.\<close>

fun fieldsFrom :: "(char \<Rightarrow> bool) \<Rightarrow> string \<Rightarrow> string \<Rightarrow> string list" where
  "fieldsFrom sep cur [] = (if cur = [] then [] else [cur])"
| "fieldsFrom sep cur (c # cs) =
     (if sep c then (if cur = [] then fieldsFrom sep [] cs else cur # fieldsFrom sep [] cs)
      else fieldsFrom sep (cur @ [c]) cs)"

definition fieldsFunc :: "(char \<Rightarrow> bool) \<Rightarrow> string \<Rightarrow> string list" where
  "fieldsFunc sep s = fieldsFrom sep [] s"

lemma fieldsFrom_sound:
  "list_all (\<lambda>c. \<not> sep c) cur \<Longrightarrow> w \<in> set (fieldsFrom sep cur s) \<Longrightarrow> w \<noteq> [] \<and> list_all (\<lambda>c. \<not> sep c) w"
  by (induction sep cur s rule: fieldsFrom.induct) (auto split: if_splits)

lemma concat_fieldsFrom: "list_all (\<lambda>c. \<not> sep c) cur \<Longrightarrow>
    concat (fieldsFrom sep cur s) = cur @ filter (\<lambda>c. \<not> sep c) s"
  by (induction sep cur s rule: fieldsFrom.induct) auto

section \<open>Joining and splitting\<close>

text \<open>\<open>strings.Join\<close>, and \<open>strings.Split\<close> at a one-byte separator.\<close>

fun join :: "string \<Rightarrow> string list \<Rightarrow> string" where
  "join sep [] = ''''"
| "join sep [x] = x"
| "join sep (x # xs) = x @ sep @ join sep xs"

fun splitOn :: "char \<Rightarrow> string \<Rightarrow> string list" where
  "splitOn sep [] = [[]]"
| "splitOn sep (c # cs) = (if c = sep then [] # splitOn sep cs
     else (case splitOn sep cs of [] \<Rightarrow> [[c]] | w # ws \<Rightarrow> (c # w) # ws))"

lemma splitOn_nonempty [simp]: "splitOn sep s \<noteq> []"
  by (induction s) (auto split: list.splits)

lemma splitOn_word: "sep \<notin> set w \<Longrightarrow> splitOn sep w = [w]"
  by (induction w) auto

lemma splitOn_append: "sep \<notin> set w \<Longrightarrow> splitOn sep (w @ sep # s) = w # splitOn sep s"
  by (induction w) auto

lemma split_join: "xs \<noteq> [] \<Longrightarrow> \<forall>x \<in> set xs. sep \<notin> set x \<Longrightarrow> splitOn sep (join [sep] xs) = xs"
  by (induction "[sep]" xs rule: join.induct) (auto simp: splitOn_word splitOn_append)

section \<open>Base64\<close>

definition b64_char :: "nat \<Rightarrow> char" where
  "b64_char n = char_of (if n < 26 then n + 65 else if n < 52 then n + 71 else if n < 62 then n - 4
     else if n = 62 then 43 else 47 :: nat)"

definition b64_val :: "char \<Rightarrow> nat option" where
  "b64_val c = (let n = (of_char c :: nat) in
     if 65 \<le> n \<and> n \<le> 90 then Some (n - 65)
     else if 97 \<le> n \<and> n \<le> 122 then Some (n - 71)
     else if 48 \<le> n \<and> n \<le> 57 then Some (n + 4)
     else if n = 43 then Some 62 else if n = 47 then Some 63 else None)"

abbreviation byte :: "char \<Rightarrow> nat" where "byte c \<equiv> of_char c"

fun b64_encode :: "string \<Rightarrow> string" where
  "b64_encode [] = []"
| "b64_encode [x] = [b64_char (byte x div 4), b64_char (byte x mod 4 * 16), CHR ''='', CHR ''='']"
| "b64_encode [x, y] = [b64_char (byte x div 4), b64_char (byte x mod 4 * 16 + byte y div 16),
     b64_char (byte y mod 16 * 4), CHR ''='']"
| "b64_encode (x # y # z # r) = [b64_char (byte x div 4), b64_char (byte x mod 4 * 16 + byte y div 16),
     b64_char (byte y mod 16 * 4 + byte z div 64), b64_char (byte z mod 64)] @ b64_encode r"

definition b64_bind :: "char \<Rightarrow> (nat \<Rightarrow> string option) \<Rightarrow> string option" where
  "b64_bind c f = (case b64_val c of None \<Rightarrow> None | Some v \<Rightarrow> f v)"

text \<open>Groups of four; padding only in the last one; the unused low bits are not checked.\<close>

fun b64_groups :: "string \<Rightarrow> string option" where
  "b64_groups [] = Some []"
| "b64_groups (a # b # c # d # r) =
     b64_bind a (\<lambda>va. b64_bind b (\<lambda>vb.
       if c = CHR ''='' then
         (if d = CHR ''='' \<and> r = [] then Some [char_of (va * 4 + vb div 16)] else None)
       else b64_bind c (\<lambda>vc.
         if d = CHR ''='' then
           (if r = [] then Some [char_of (va * 4 + vb div 16), char_of (vb mod 16 * 16 + vc div 4)] else None)
         else b64_bind d (\<lambda>vd.
           map_option (\<lambda>bs. [char_of (va * 4 + vb div 16), char_of (vb mod 16 * 16 + vc div 4),
              char_of (vc mod 4 * 64 + vd)] @ bs) (b64_groups r)))))"
| "b64_groups _ = None"

text \<open>Carriage returns and line feeds are skipped wherever they stand.\<close>

definition b64_decode :: "string \<Rightarrow> string option" where
  "b64_decode s = b64_groups (filter (\<lambda>c. c \<noteq> CHR 0x0A \<and> c \<noteq> CHR 0x0D) s)"

lemma b64_char:
  assumes "n < 64"
  shows "b64_val (b64_char n) = Some n" "b64_char n \<noteq> CHR ''=''" "b64_char n \<noteq> CHR 0x0A" "b64_char n \<noteq> CHR 0x0D"
proof -
  define m where "m = (if n < 26 then n + 65 else if n < 52 then n + 71 else if n < 62 then n - 4
     else if n = 62 then 43 else 47 :: nat)"
  have m: "m < 256" "m \<noteq> 61" "m \<noteq> 10" "m \<noteq> 13" using assms by (auto simp: m_def)
  have c: "b64_char n = char_of m" by (simp add: b64_char_def m_def)
  have o: "of_char (b64_char n) = m" using m by (simp add: c of_char_of)
  show "b64_val (b64_char n) = Some n" using assms unfolding b64_val_def o Let_def by (auto simp: m_def)
  have "(of_char (CHR ''='') :: nat) = 61" "(of_char (CHR 0x0A) :: nat) = 10" "(of_char (CHR 0x0D) :: nat) = 13"
    by simp_all
  then show "b64_char n \<noteq> CHR ''=''" "b64_char n \<noteq> CHR 0x0A" "b64_char n \<noteq> CHR 0x0D" using o m by metis+
qed

lemma b64_arith:
  fixes x y z :: nat
  assumes "x < 256" "y < 256" "z < 256"
  shows "x div 4 < 64" "x mod 4 * 16 + y div 16 < 64" "y mod 16 * 4 + z div 64 < 64" "z mod 64 < 64"
    "x mod 4 * 16 < 64" "y mod 16 * 4 < 64"
    "x div 4 * 4 + (x mod 4 * 16 + y div 16) div 16 = x"
    "x div 4 * 4 + (x mod 4 * 16) div 16 = x"
    "(x mod 4 * 16 + y div 16) mod 16 * 16 + (y mod 16 * 4 + z div 64) div 4 = y"
    "(x mod 4 * 16 + y div 16) mod 16 * 16 + (y mod 16 * 4) div 4 = y"
    "(y mod 16 * 4 + z div 64) mod 4 * 64 + z mod 64 = z"
proof -
  have d: "x div 4 < 64" "y div 16 < 16" "z div 64 < 4" "x mod 4 < 4" "y mod 16 < 16" using assms by simp_all
  then show "x div 4 < 64" "x mod 4 * 16 + y div 16 < 64" "y mod 16 * 4 + z div 64 < 64" "z mod 64 < 64"
    "x mod 4 * 16 < 64" "y mod 16 * 4 < 64" by simp_all
  have e: "(x mod 4 * 16 + y div 16) div 16 = x mod 4" "(x mod 4 * 16 + y div 16) mod 16 = y div 16"
    "(y mod 16 * 4 + z div 64) div 4 = y mod 16" "(y mod 16 * 4 + z div 64) mod 4 = z div 64"
    using d by simp_all
  show "x div 4 * 4 + (x mod 4 * 16 + y div 16) div 16 = x"
    "x div 4 * 4 + (x mod 4 * 16) div 16 = x"
    "(x mod 4 * 16 + y div 16) mod 16 * 16 + (y mod 16 * 4 + z div 64) div 4 = y"
    "(x mod 4 * 16 + y div 16) mod 16 * 16 + (y mod 16 * 4) div 4 = y"
    "(y mod 16 * 4 + z div 64) mod 4 * 64 + z mod 64 = z"
    unfolding e by simp_all
qed

lemma b64_bind_char [simp]: "n < 64 \<Longrightarrow> b64_bind (b64_char n) f = f n"
  by (simp add: b64_bind_def b64_char)

lemmas b64_bytes = b64_arith[OF nat_of_char_less_256 nat_of_char_less_256 nat_of_char_less_256]

definition not_newline :: "char \<Rightarrow> bool" where
  "not_newline c \<longleftrightarrow> c \<noteq> CHR 0x0A \<and> c \<noteq> CHR 0x0D"

lemma not_newline_b64 [simp]: "n < 64 \<Longrightarrow> not_newline (b64_char n)"
  by (simp only: not_newline_def b64_char simp_thms not_False_eq_True)

lemma not_newline_pad [simp]: "not_newline CHR ''=''"
  by (simp add: not_newline_def)

lemma b64_encode_no_newline: "list_all not_newline (b64_encode s)"
  by (induction s rule: b64_encode.induct)
     (simp_all only: b64_encode.simps list.pred_inject list_all_append not_newline_b64 not_newline_pad b64_bytes simp_thms)

lemma b64_groups_encode: "b64_groups (b64_encode s) = Some s"
  by (induction s rule: b64_encode.induct)
     (simp_all only: b64_encode.simps append.simps b64_groups.simps b64_bind_char b64_bytes b64_char(2)
        if_False if_True option.map char_of_char simp_thms)

lemma b64_decode_encode [simp]: "b64_decode (b64_encode s) = Some s"
proof -
  have "filter (\<lambda>c. c \<noteq> CHR 0x0A \<and> c \<noteq> CHR 0x0D) (b64_encode s) = b64_encode s"
    using b64_encode_no_newline[of s] by (auto simp: filter_id_conv list_all_iff not_newline_def)
  then show ?thesis by (simp add: b64_decode_def b64_groups_encode)
qed

lemma length_b64_encode: "length (b64_encode s) = 4 * ((length s + 2) div 3)"
proof (induction s rule: b64_encode.induct)
  case (4 x y z r)
  have "(length (x # y # z # r) + 2) div 3 = Suc ((length r + 2) div 3)" by simp
  with 4 show ?case by simp
qed auto

section \<open>SHA-256 and HMAC\<close>

type_synonym u32 = "32 word"

unbundle bit_operations_syntax

fun chunks :: "nat \<Rightarrow> nat \<Rightarrow> 'a list \<Rightarrow> 'a list list" where
  "chunks k 0 xs = []"
| "chunks k (Suc n) xs = take k xs # chunks k n (drop k xs)"

lemma length_chunks [simp]: "length (chunks k n xs) = n"
  by (induction k n xs rule: chunks.induct) simp_all

definition hex_val :: "char \<Rightarrow> nat" where
  "hex_val c = (let n = of_char c in if n < 58 then n - 48 else n - 87)"

definition hex_words :: "string \<Rightarrow> u32 list" where
  "hex_words s = map (foldl (\<lambda>a c. a * 16 + of_nat (hex_val c)) 0) (chunks 8 (length s div 8) s)"

text \<open>The round constants and the initial hash, as the standard prints them.\<close>

definition sha_K :: "u32 list" where
  "sha_K = hex_words (
    ''428a2f9871374491b5c0fbcfe9b5dba53956c25b59f111f1923f82a4ab1c5ed5'' @
    ''d807aa9812835b01243185be550c7dc372be5d7480deb1fe9bdc06a7c19bf174'' @
    ''e49b69c1efbe47860fc19dc6240ca1cc2de92c6f4a7484aa5cb0a9dc76f988da'' @
    ''983e5152a831c66db00327c8bf597fc7c6e00bf3d5a7914706ca635114292967'' @
    ''27b70a852e1b21384d2c6dfc53380d13650a7354766a0abb81c2c92e92722c85'' @
    ''a2bfe8a1a81a664bc24b8b70c76c51a3d192e819d6990624f40e3585106aa070'' @
    ''19a4c1161e376c082748774c34b0bcb5391c0cb34ed8aa4a5b9cca4f682e6ff3'' @
    ''748f82ee78a5636f84c878148cc7020890befffaa4506cebbef9a3f7c67178f2'')"

definition sha_H0 :: "u32 list" where
  "sha_H0 = hex_words
    ''6a09e667bb67ae853c6ef372a54ff53a510e527f9b05688c1f83d9ab5be0cd19''"

definition ror32 :: "nat \<Rightarrow> u32 \<Rightarrow> u32" where
  "ror32 n w = drop_bit n w OR push_bit (32 - n) w"

definition big_endian :: "nat list \<Rightarrow> u32" where
  "big_endian bs = foldl (\<lambda>a b. a * 256 + of_nat b) 0 bs"

definition be_bytes :: "nat \<Rightarrow> nat \<Rightarrow> nat list" where
  "be_bytes k n = map (\<lambda>i. n div 256 ^ i mod 256) (rev [0..<k])"

text \<open>The padded message: a one bit, zeros up to 56 modulo 64, the length in bits.\<close>

definition sha_pad :: "nat list \<Rightarrow> nat list" where
  "sha_pad m = m @ [128] @ replicate ((119 - length m mod 64) mod 64) 0 @ be_bytes 8 (8 * length m)"

text \<open>The message schedule, latest word first.\<close>

fun sha_extend :: "nat \<Rightarrow> u32 list \<Rightarrow> u32 list" where
  "sha_extend 0 ws = ws"
| "sha_extend (Suc n) ws =
     (let a = ws ! 14; b = ws ! 1;
          s0 = ror32 7 a XOR ror32 18 a XOR drop_bit 3 a;
          s1 = ror32 17 b XOR ror32 19 b XOR drop_bit 10 b
      in sha_extend n ((s1 + ws ! 6 + s0 + ws ! 15) # ws))"

fun sha_rounds :: "(u32 \<times> u32) list \<Rightarrow> u32 list \<Rightarrow> u32 list" where
  "sha_rounds ((kt, wt) # r) [a, b, c, d, e, f, g, h] =
     (let t1 = h + (ror32 6 e XOR ror32 11 e XOR ror32 25 e) + ((e AND f) XOR (NOT e AND g)) + kt + wt;
          t2 = (ror32 2 a XOR ror32 13 a XOR ror32 22 a) + ((a AND b) XOR (a AND c) XOR (b AND c))
      in sha_rounds r [t1 + t2, a, b, c, d + t1, e, f, g])"
| "sha_rounds _ hs = hs"

definition sha_block :: "u32 list \<Rightarrow> nat list \<Rightarrow> u32 list" where
  "sha_block hs blk =
     (let ws = rev (sha_extend 48 (rev (map big_endian (chunks 4 16 blk))))
      in map2 (+) hs (sha_rounds (zip sha_K ws) hs))"

definition sha256_bytes :: "nat list \<Rightarrow> nat list" where
  "sha256_bytes m = (let p = sha_pad m in
     concat (map (\<lambda>w. be_bytes 4 (unat w)) (foldl sha_block sha_H0 (chunks 64 (length p div 64) p))))"

definition sha256 :: "string \<Rightarrow> string" where
  "sha256 s = map char_of (sha256_bytes (map of_char s))"

definition hex_digit :: "nat \<Rightarrow> char" where
  "hex_digit n = char_of (if n < 10 then n + 48 else n + 87 :: nat)"

definition hex :: "string \<Rightarrow> string" where
  "hex s = concat (map (\<lambda>c. [hex_digit (of_char c div 16), hex_digit (of_char c mod 16)]) s)"

text \<open>RFC 2104 over SHA-256.\<close>

definition xor_byte :: "nat \<Rightarrow> char \<Rightarrow> char" where
  "xor_byte n c = char_of (n XOR of_char c)"

definition hmac_sha256 :: "string \<Rightarrow> string \<Rightarrow> string" where
  "hmac_sha256 key msg =
     (let k0 = (if length key > 64 then sha256 key else key);
          k = k0 @ replicate (64 - length k0) (CHR 0x00)
      in sha256 (map (xor_byte 0x5c) k @ sha256 (map (xor_byte 0x36) k @ msg)))"

end
