(* ===== verification/Go_Float.thy ===== *)
theory Go_Float
  imports Prelude Complex_Main
begin

text \<open>
  Go's \<open>float64\<close> where the fold uses it: conversion of an int64 and a division, each rounded to the
  nearest double, ties to even. The values that occur are zero or of magnitude between 2^-63 and
  2^63, so no overflow, subnormal or NaN arises and a double is the rational number it denotes.
\<close>

function bitlen :: "int \<Rightarrow> nat" where
  "bitlen n = (if n \<le> 0 then 0 else Suc (bitlen (n div 2)))"
  by pat_completeness auto

termination
  by (relation "measure nat") auto

declare bitlen.simps [simp del]

text \<open>\<open>n / d\<close> rounded to the nearest integer, ties to even, for \<open>0 \<le> n\<close> and \<open>0 < d\<close>.\<close>

definition round_div :: "int \<Rightarrow> int \<Rightarrow> int" where
  "round_div n d = (let q = n div d; r = n mod d
     in if 2 * r < d then q else if 2 * r > d then q + 1 else if even q then q else q + 1)"

text \<open>An int64 rounded to 53 significant bits is again an integer.\<close>

definition f64_of_int :: "int \<Rightarrow> int" where
  "f64_of_int n = (if bitlen \<bar>n\<bar> \<le> 53 then n
     else let s = bitlen \<bar>n\<bar> - 53 in sgn n * (round_div \<bar>n\<bar> (2 ^ s) * 2 ^ s))"

text \<open>
  The quotient of two doubles that are integers: with \<open>2^e \<le> n/d < 2^(e+1)\<close> the result is the
  multiple of \<open>2^(e-52)\<close> nearest to \<open>n/d\<close>.
\<close>

definition quot_expo :: "int \<Rightarrow> int \<Rightarrow> int" where
  "quot_expo n d = (let k = int (bitlen n) - int (bitlen d)
     in if d * 2 ^ nat k \<le> n * 2 ^ nat (- k) then k else k - 1)"

definition f64_quot :: "int \<Rightarrow> int \<Rightarrow> rat" where
  "f64_quot n d = (if n = 0 then 0
     else let s = 52 - quot_expo n d
          in if s \<ge> 0 then of_int (round_div (n * 2 ^ nat s) d) / of_int (2 ^ nat s)
             else of_int (round_div n (d * 2 ^ nat (- s)) * 2 ^ nat (- s)))"

definition f64_div :: "int \<Rightarrow> int \<Rightarrow> rat" where
  "f64_div n d = (if (n < 0) = (d < 0) then f64_quot \<bar>n\<bar> \<bar>d\<bar> else - f64_quot \<bar>n\<bar> \<bar>d\<bar>)"

lemma f64_of_int_example: "f64_of_int 9007199254740993 = 9007199254740992"
  by code_simp

lemma f64_div_examples: "f64_div 3 2 = 3/2" "f64_div 1 3 = 6004799503160661 / 18014398509481984"
  by code_simp+

end
