(* ===== verification/Nip44.thy ===== *)
theory Nip44
  imports Go_Text Go_Float
begin

text \<open>
  The NIP-44 v2 envelope (\<open>pkg/nip44/nip44.go\<close>): padding, message keys, encrypt-then-MAC, base64.
  HKDF and ChaCha20 come from golang.org/x/crypto and the ECDH from a secp256k1 package; they are
  the parameters of \<open>nip44_lib\<close>. HMAC-SHA256 and base64 are the standard library's, in \<open>Go_Text\<close>.
\<close>

section \<open>Parameters\<close>

text \<open>
  \<open>hkdfExtract ikm salt\<close>; \<open>hkdfExpand prk info\<close>, the first 76 bytes of the stream; \<open>keyStream key
  nonce n\<close>, the first n bytes ChaCha20 XORs into the data.
\<close>

record nip44_lib =
  hkdfExtract :: "string \<Rightarrow> string \<Rightarrow> string"
  hkdfExpand :: "string \<Rightarrow> string \<Rightarrow> string"
  keyStream :: "string \<Rightarrow> string \<Rightarrow> nat \<Rightarrow> string"

definition xor_bytes :: "string \<Rightarrow> string \<Rightarrow> string" where
  "xor_bytes a b = map2 (\<lambda>x y. xor_byte (of_char x) y) a b"

definition xorKeyStream :: "nip44_lib \<Rightarrow> string \<Rightarrow> string \<Rightarrow> string \<Rightarrow> string" where
  "xorKeyStream lib key nonce src = xor_bytes (keyStream lib key nonce (length src)) src"

section \<open>Padding\<close>

abbreviation minPlaintextSize :: nat where "minPlaintextSize \<equiv> 1"
abbreviation maxPlaintextSize :: nat where "maxPlaintextSize \<equiv> 65535"

definition calcPaddedLen :: "nat \<Rightarrow> nat" where
  "calcPaddedLen n =
     (if n \<le> 32 then 32
      else let nextPower = 2 ^ bitlen (int n - 1);
               chunk = (if nextPower > 256 then nextPower div 8 else 32)
           in chunk * ((n - 1) div chunk + 1))"

definition pad :: "string \<Rightarrow> string option" where
  "pad p = (let n = length p in
     if n < minPlaintextSize \<or> n > maxPlaintextSize then None
     else Some (map char_of (be_bytes 2 n) @ p @ replicate (calcPaddedLen n - n) (CHR 0x00)))"

definition unpad :: "string \<Rightarrow> string option" where
  "unpad p =
     (if length p < 2 then None
      else let n = byte (p ! 0) * 256 + byte (p ! 1) in
        if n < minPlaintextSize \<or> n > maxPlaintextSize then None
        else if length p \<noteq> 2 + calcPaddedLen n then None
        else Some (take n (drop 2 p)))"

section \<open>Keys\<close>

definition conversationKeyFromShared :: "nip44_lib \<Rightarrow> string \<Rightarrow> string" where
  "conversationKeyFromShared lib sharedX = hkdfExtract lib sharedX ''nip44-v2''"

text \<open>\<open>messageKeys\<close>: the ChaCha20 key, its nonce and the MAC key, or an error.\<close>

definition messageKeys :: "nip44_lib \<Rightarrow> string \<Rightarrow> string \<Rightarrow> (string \<times> string \<times> string) option" where
  "messageKeys lib convKey nonce =
     (if length nonce \<noteq> 32 then None
      else let okm = hkdfExpand lib convKey nonce
           in Some (take 32 okm, take 12 (drop 32 okm), take 32 (drop 44 okm)))"

definition hmacAAD :: "string \<Rightarrow> string \<Rightarrow> string \<Rightarrow> string" where
  "hmacAAD key msg aad = hmac_sha256 key (aad @ msg)"

section \<open>Seal and Open\<close>

definition encryptWithNonce :: "nip44_lib \<Rightarrow> string \<Rightarrow> string \<Rightarrow> string \<Rightarrow> string option" where
  "encryptWithNonce lib convKey nonce plaintext =
     (case messageKeys lib convKey nonce of None \<Rightarrow> None
      | Some (chachaKey, chachaNonce, hmacKey) \<Rightarrow>
        (case pad plaintext of None \<Rightarrow> None
         | Some padded \<Rightarrow>
           let ciphertext = xorKeyStream lib chachaKey chachaNonce padded;
               mac = hmacAAD hmacKey ciphertext nonce
           in Some (b64_encode ([CHR 0x02] @ nonce @ ciphertext @ mac))))"

definition decryptWithConversationKey :: "nip44_lib \<Rightarrow> string \<Rightarrow> string \<Rightarrow> string option" where
  "decryptWithConversationKey lib convKey payload =
     (if length payload < 132 \<or> length payload > 87472 then None
      else if payload ! 0 = CHR 0x23 then None
      else case b64_decode payload of None \<Rightarrow> None
      | Some d \<Rightarrow>
        if length d < 99 \<or> length d > 65603 then None
        else if d ! 0 \<noteq> CHR 0x02 then None
        else let nonce = take 32 (drop 1 d);
                 ciphertext = take (length d - 32 - 33) (drop 33 d);
                 mac = drop (length d - 32) d
          in case messageKeys lib convKey nonce of None \<Rightarrow> None
             | Some (chachaKey, chachaNonce, hmacKey) \<Rightarrow>
               if hmacAAD hmacKey ciphertext nonce \<noteq> mac then None
               else unpad (xorKeyStream lib chachaKey chachaNonce ciphertext))"

text \<open>
  \<open>ecdh\<close> is the signer's \<open>ECDH\<close> with a counterparty key, \<open>None\<close> where it fails; \<open>nonce\<close> is what
  \<open>crypto/rand\<close> delivers.
\<close>

definition Seal :: "nip44_lib \<Rightarrow> (string \<Rightarrow> string option) \<Rightarrow> string \<Rightarrow> string \<Rightarrow> string \<Rightarrow> string option" where
  "Seal lib ecdh counterparty nonce plaintext = (case ecdh counterparty of None \<Rightarrow> None
     | Some x \<Rightarrow> encryptWithNonce lib (conversationKeyFromShared lib x) nonce plaintext)"

definition Open :: "nip44_lib \<Rightarrow> (string \<Rightarrow> string option) \<Rightarrow> string \<Rightarrow> string \<Rightarrow> string option" where
  "Open lib ecdh counterparty payload = (case ecdh counterparty of None \<Rightarrow> None
     | Some x \<Rightarrow> decryptWithConversationKey lib (conversationKeyFromShared lib x) payload)"

section \<open>Padding facts\<close>

lemma bitlen_bounds: "0 < n \<Longrightarrow> 2 ^ (bitlen n - 1) \<le> n \<and> n < 2 ^ bitlen n \<and> 0 < bitlen n"
proof (induction n rule: bitlen.induct)
  case (1 n)
  show ?case
  proof (cases "n = 1")
    case True
    then show ?thesis by (simp add: bitlen.simps)
  next
    case False
    with "1.prems" have n: "n \<ge> 2" by simp
    then have pos: "0 < n div 2" by simp
    define k where "k = bitlen (n div 2)"
    have ih: "2 ^ (k - 1) \<le> n div 2" "n div 2 < 2 ^ k" "0 < k"
      using 1 pos by (auto simp: k_def)
    then obtain j where j: "k = Suc j" by (cases k) auto
    have b: "bitlen n = Suc k" using "1.prems" by (simp add: bitlen.simps[of n] k_def)
    have "2 * 2 ^ j \<le> n" "n < 2 * 2 ^ k" using ih j by auto
    then show ?thesis using j by (simp add: b)
  qed
qed

lemma bitlen_le: "0 < n \<Longrightarrow> n < 2 ^ k \<Longrightarrow> bitlen n \<le> k"
proof (rule ccontr)
  assume "0 < n" "n < 2 ^ k" "\<not> bitlen n \<le> k"
  then have "k \<le> bitlen n - 1" by simp
  then have "(2::int) ^ k \<le> 2 ^ (bitlen n - 1)" by (rule power_increasing) simp
  with \<open>n < 2 ^ k\<close> bitlen_bounds[OF \<open>0 < n\<close>] show False by linarith
qed

lemma round_up: "0 < c \<Longrightarrow> 0 < n \<Longrightarrow> n \<le> c * ((n - 1) div c + 1) \<and> c * ((n - 1) div c + 1) < n + (c::nat)"
proof -
  assume c: "0 < c" and n: "0 < n"
  have "(n - 1) mod c < c" using c by simp
  moreover have "c * ((n - 1) div c) + (n - 1) mod c = n - 1" by simp
  moreover define q where "q = c * ((n - 1) div c)"
  ultimately have "q < n" "n \<le> q + c" using n by linarith+
  then show ?thesis by (simp add: q_def algebra_simps)
qed

text \<open>The padded length holds the plaintext and fits the bounds \<open>decrypt\<close> checks.\<close>

lemma calcPaddedLen_ge: "n \<le> calcPaddedLen n"
proof (cases "n \<le> 32")
  case False
  let ?c = "(if 2 ^ bitlen (int n - 1) > (256::nat) then 2 ^ bitlen (int n - 1) div 8 else 32) :: nat"
  have "0 < ?c" by auto
  with False round_up[of ?c n] show ?thesis by (simp add: calcPaddedLen_def Let_def)
qed (simp add: calcPaddedLen_def)

lemma calcPaddedLen_min: "32 \<le> calcPaddedLen n"
  using calcPaddedLen_ge[of n] by (cases "n \<le> 32") (auto simp: calcPaddedLen_def)

lemma calcPaddedLen_max:
  assumes "n \<le> maxPlaintextSize" shows "calcPaddedLen n \<le> 65536"
proof (cases "n \<le> 32")
  case False
  define b where "b = bitlen (int n - 1)"
  have "int n - 1 < 2 ^ 16" using assms by simp
  with False have b16: "b \<le> 16" unfolding b_def by (intro bitlen_le) auto
  have nb: "n \<le> 2 ^ b"
  proof -
    have "int n - 1 < 2 ^ b" using False bitlen_bounds[of "int n - 1"] by (simp add: b_def)
    then have "int n \<le> 2 ^ b" by linarith
    then have "int n \<le> int (2 ^ b)" by (simp only: of_nat_power of_nat_numeral)
    then show ?thesis by (simp only: of_nat_le_iff)
  qed
  have P: "calcPaddedLen n \<le> 2 ^ 16" if c: "c dvd 2 ^ 16" "0 < c" and e: "calcPaddedLen n = c * ((n - 1) div c + 1)" for c
  proof -
    have "n - 1 < 2 ^ 16" using assms by simp
    also have "(2::nat) ^ 16 = 2 ^ 16 div c * c" using c by simp
    finally have "(n - 1) div c < 2 ^ 16 div c" using c by (simp add: div_less_iff_less_mult)
    then have "c * ((n - 1) div c + 1) \<le> c * (2 ^ 16 div c)" by (intro mult_le_mono2) simp
    with c show ?thesis by (simp add: e)
  qed
  show ?thesis
  proof (cases "2 ^ b > (256::nat)")
    case True
    then have "\<not> b \<le> 8" using power_increasing[of b 8 "2::nat"] by auto
    then have e: "(2::nat) ^ b div 8 = 2 ^ (b - 3)"
      using power_diff[of "2::nat" 3 b] by simp
    have "calcPaddedLen n = 2 ^ (b - 3) * ((n - 1) div 2 ^ (b - 3) + 1)"
      using False True by (simp add: calcPaddedLen_def Let_def b_def[symmetric] e)
    moreover have "(2::nat) ^ (b - 3) dvd 2 ^ 16" by (rule le_imp_power_dvd) (use b16 in simp)
    ultimately show ?thesis using P[of "2 ^ (b - 3)"] by simp
  next
    case small: False
    then show ?thesis using P[of 32] False by (simp add: calcPaddedLen_def Let_def b_def[symmetric])
  qed
qed (simp add: calcPaddedLen_def)

section \<open>Lengths\<close>

lemma length_be_bytes [simp]: "length (be_bytes k n) = k"
  by (simp add: be_bytes_def)

lemma length_xor_bytes [simp]: "length a = length b \<Longrightarrow> length (xor_bytes a b) = length b"
  by (simp add: xor_bytes_def)

lemma sha_rounds_length: "length hs = 8 \<Longrightarrow> length (sha_rounds kws hs) = 8"
  by (induction kws hs rule: sha_rounds.induct) (auto simp: Let_def)

lemma length_sha_block: "length hs = 8 \<Longrightarrow> length (sha_block hs blk) = 8"
  by (simp add: sha_block_def Let_def sha_rounds_length)

lemma length_sha_blocks: "length hs = 8 \<Longrightarrow> length (foldl sha_block hs bs) = 8"
  by (induction bs arbitrary: hs) (simp_all add: length_sha_block)

lemma length_sha256 [simp]: "length (sha256 s) = 32"
proof -
  have "length (concat (map (\<lambda>w. be_bytes 4 (unat w)) ws)) = 4 * length ws" for ws :: "u32 list"
    by (induction ws) auto
  moreover have "length (foldl sha_block sha_H0 bs) = 8" for bs
    by (rule length_sha_blocks) (simp add: sha_H0_def hex_words_def)
  ultimately show ?thesis unfolding sha256_def sha256_bytes_def Let_def length_map by simp
qed

lemma length_hmac [simp]: "length (hmacAAD k m a) = 32"
  by (simp add: hmacAAD_def hmac_sha256_def Let_def)

lemma pad_length: "pad p = Some q \<Longrightarrow> length q = 2 + calcPaddedLen (length p)"
  using calcPaddedLen_ge[of "length p"] by (auto simp: pad_def Let_def split: if_splits)

section \<open>Round trip\<close>

lemma xor_bytes_invol: "length a = length b \<Longrightarrow> xor_bytes a (xor_bytes a b) = b"
proof (induction a b rule: list_induct2)
  case (Cons x xs y ys)
  have t: "take_bit 8 (byte c) = byte c" for c by (simp add: take_bit_eq_mod)
  have "byte x XOR ((byte x XOR byte y) mod 256) = byte x XOR take_bit 8 (byte x XOR byte y)"
    by (simp add: take_bit_eq_mod)
  also have "\<dots> = byte y" by (simp add: take_bit_xor t xor.assoc[symmetric])
  finally have "byte x XOR ((byte x XOR byte y) mod 256) = byte y" .
  then have "xor_byte (byte x) (xor_byte (byte x) y) = y" by (simp add: xor_byte_def)
  with Cons show ?case by (simp add: xor_bytes_def)
qed (simp add: xor_bytes_def)

lemma xorKeyStream_invol:
  assumes "\<And>n. length (keyStream lib k nc n) = n"
  shows "xorKeyStream lib k nc (xorKeyStream lib k nc p) = p" "length (xorKeyStream lib k nc p) = length p"
  using assms by (simp_all add: xorKeyStream_def xor_bytes_invol)

lemma unpad_pad: "pad p = Some q \<Longrightarrow> unpad q = Some p"
proof -
  assume pq: "pad p = Some q"
  define n where "n = length p"
  have n: "1 \<le> n" "n \<le> 65535"
    and q: "q = char_of (n div 256 mod 256) # char_of (n mod 256) # p @ replicate (calcPaddedLen n - n) (CHR 0x00)"
    using pq by (auto simp: pad_def Let_def n_def be_bytes_def numeral_2_eq_2 Suc_le_eq split: if_splits)
  have "n div 256 < 256" using n by simp
  then have len: "byte (q ! 0) * 256 + byte (q ! 1) = n" by (simp add: q)
  have "p \<noteq> []" using n by (auto simp: n_def)
  moreover have "length q = 2 + calcPaddedLen n" using pad_length[OF pq] by (simp add: n_def)
  ultimately show ?thesis using n unfolding unpad_def len Let_def by (simp add: q n_def)
qed

lemma decrypt_encrypt:
  assumes ks: "\<And>k nc n. length (keyStream lib k nc n) = n"
    and enc: "encryptWithNonce lib ck nonce p = Some payload"
  shows "decryptWithConversationKey lib ck payload = Some p"
proof -
  obtain kc nc km padded where mk: "messageKeys lib ck nonce = Some (kc, nc, km)" and pd: "pad p = Some padded"
    using enc by (auto simp: encryptWithNonce_def split: option.splits)
  have nonce: "length nonce = 32" using mk by (auto simp: messageKeys_def split: if_splits)
  define ct where "ct = xorKeyStream lib kc nc padded"
  define d where "d = CHR 0x02 # nonce @ ct @ hmacAAD km ct nonce"
  have payload: "payload = b64_encode d"
    using enc by (auto simp: encryptWithNonce_def mk pd Let_def ct_def d_def)
  have inv: "xorKeyStream lib kc nc ct = padded" "length ct = length padded"
    unfolding ct_def by (rule xorKeyStream_invol[OF ks])+
  define L where "L = length ct"
  have plen: "1 \<le> length p" "length p \<le> maxPlaintextSize"
    using pd by (auto simp: pad_def Let_def Suc_le_eq split: if_splits)
  then have L: "34 \<le> L" "L \<le> 65538"
    using pad_length[OF pd] inv(2) calcPaddedLen_min[of "length p"] calcPaddedLen_max[of "length p"]
    by (auto simp: L_def)
  have dl: "length d = L + 65" by (simp add: d_def nonce L_def)
  have pl: "length payload = 4 * ((L + 67) div 3)" by (simp add: payload length_b64_encode dl)
  have first: "payload ! 0 \<noteq> CHR 0x23"
  proof -
    have "payload ! 0 = b64_char 0"
      by (cases "nonce @ ct @ hmacAAD km ct nonce" rule: list.exhaust; cases "tl (nonce @ ct @ hmacAAD km ct nonce)")
        (auto simp: payload d_def)
    moreover have "b64_char 0 \<noteq> CHR 0x23" by code_simp
    ultimately show ?thesis by simp
  qed
  have parts: "take 32 (drop 1 d) = nonce" "take (length d - 32 - 33) (drop 33 d) = ct"
    "drop (length d - 32) d = hmacAAD km ct nonce" "d ! 0 = CHR 0x02"
    using nonce by (simp_all add: dl L_def) (simp_all add: d_def numeral_eq_Suc)
  have "132 \<le> length payload" "length payload \<le> 87472" using L by (simp_all add: pl)
  moreover have "99 \<le> length d" "length d \<le> 65603" using L by (simp_all add: dl)
  moreover have "take (length d - 65) (drop 33 d) = ct" using parts(2) by simp
  ultimately show ?thesis
    using first mk unpad_pad[OF pd]
    unfolding decryptWithConversationKey_def Let_def parts payload b64_decode_encode
    by (simp add: parts[unfolded One_nat_def] inv flip: payload)
qed

lemma encrypt_domain: "length nonce = 32 \<Longrightarrow> length p < minPlaintextSize \<or> length p > maxPlaintextSize
    \<Longrightarrow> encryptWithNonce lib ck nonce p = None"
  by (auto simp: encryptWithNonce_def pad_def messageKeys_def Let_def)

lemma encrypt_total: "length nonce = 32 \<Longrightarrow> minPlaintextSize \<le> length p \<Longrightarrow> length p \<le> maxPlaintextSize
    \<Longrightarrow> \<exists>e. encryptWithNonce lib ck nonce p = Some e"
  by (auto simp: encryptWithNonce_def pad_def messageKeys_def Let_def Suc_le_eq)

text \<open>
  C31: the envelope round trip. Where both parties derive the same shared point, whatever plaintext of
  1 to 65535 bytes one of them seals under a 32-byte nonce, the other one opens to exactly that
  plaintext; any other length is refused when sealing. The bounds \<open>decrypt\<close> puts on the encoded and
  the decoded length refuse nothing that \<open>Seal\<close> can produce. The assumption on the stream cipher is
  that XORKeyStream covers the whole input.
\<close>

theorem nip44_round_trip:
  assumes "\<And>k nc n. length (keyStream lib k nc n) = n"
    and "ecdhA keyB = Some x" "ecdhB keyA = Some x" "length nonce = 32"
  shows "if 1 \<le> length p \<and> length p \<le> 65535
    then \<exists>e. Seal lib ecdhA keyB nonce p = Some e \<and> Open lib ecdhB keyA e = Some p
    else Seal lib ecdhA keyB nonce p = None"
proof (cases "1 \<le> length p \<and> length p \<le> 65535")
  case True
  then obtain e where e: "encryptWithNonce lib (conversationKeyFromShared lib x) nonce p = Some e"
    using encrypt_total assms(4) by blast
  from decrypt_encrypt[OF assms(1) this] True e show ?thesis by (simp add: Seal_def Open_def assms)
next
  case False
  then have "length p < 1 \<or> length p > 65535" by linarith
  then show ?thesis using encrypt_domain[OF assms(4), of p] False by (simp add: Seal_def assms del: One_nat_def)
qed

definition demoLib :: nip44_lib where
  "demoLib = \<lparr>hkdfExtract = (\<lambda>ikm salt. ikm @ salt), hkdfExpand = (\<lambda>prk info. replicate 76 CHR 0x41),
     keyStream = (\<lambda>k nc n. replicate n CHR 0x5A)\<rparr>"

theorem nip44_round_trip_witness:
  "\<exists>e. Seal demoLib (\<lambda>_. Some ''shared'') ''bob'' (replicate 32 CHR 0x07) ''key'' = Some e
     \<and> Open demoLib (\<lambda>_. Some ''shared'') ''alice'' e = Some ''key''"
proof -
  have "length (keyStream demoLib k nc n) = n" for k nc n by (simp add: demoLib_def)
  from nip44_round_trip[OF this, where p = "''key''" and ecdhA = "\<lambda>_. Some ''shared''"
      and ecdhB = "\<lambda>_. Some ''shared''" and nonce = "replicate 32 CHR 0x07" and keyB = "''bob''"
      and keyA = "''alice''"]
  show ?thesis by simp
qed

end
