(* ===== verification/Go_Time.thy ===== *)
theory Go_Time
  imports Prelude
begin

text \<open>
  Package \<open>time\<close> as the fold uses it. A \<open>time.Time\<close> is the number of nanoseconds since the Unix
  epoch (unbounded: Go keeps 64-bit seconds and nanoseconds apart); the zero \<open>Time\<close> is January 1 of
  year 1. A \<open>Duration\<close> is an int64 number of nanoseconds, so multiplying one wraps. Parsing is
  \<open>time.Parse(time.RFC3339, s)\<close>, with the leniencies Go has: a one-digit hour, a comma before the
  fraction, zone offsets up to 24:60. Formatting is \<open>t.UTC().Format(time.RFC3339)\<close>.
\<close>

type_synonym gtime = int

definition zero_time :: gtime where
  "zero_time = - 62135596800000000000"

definition is_zero :: "gtime \<Rightarrow> bool" where
  "is_zero t \<longleftrightarrow> t = zero_time"

definition unix_nano :: "gtime \<Rightarrow> i64" where
  "unix_nano t = wrap64 t"

definition second :: int where "second = 1000000000"
definition minute :: int where "minute = 60 * second"
definition hour :: int where "hour = 3600 * second"

definition dur_mul :: "i64 \<Rightarrow> int \<Rightarrow> i64" where
  "dur_mul n unit = wrap64 (n * unit)"

section \<open>Dates\<close>

definition is_leap :: "int \<Rightarrow> bool" where
  "is_leap y \<longleftrightarrow> y mod 4 = 0 \<and> (y mod 100 \<noteq> 0 \<or> y mod 400 = 0)"

definition days_in :: "int \<Rightarrow> int \<Rightarrow> int" where
  "days_in m y = (if m = 2 then (if is_leap y then 29 else 28)
     else if m = 4 \<or> m = 6 \<or> m = 9 \<or> m = 11 then 30 else 31)"

text \<open>Days from 1970-01-01 to a date of the proleptic Gregorian calendar.\<close>

definition days_from_civil :: "int \<Rightarrow> int \<Rightarrow> int \<Rightarrow> int" where
  "days_from_civil y m d =
     (let y' = (if m \<le> 2 then y - 1 else y);
          m' = (if m > 2 then m - 3 else m + 9);
          era = y' div 400;
          yoe = y' mod 400;
          doy = (153 * m' + 2) div 5 + d - 1;
          doe = yoe * 365 + yoe div 4 - yoe div 100 + doy
      in era * 146097 + doe - 719468)"

section \<open>RFC 3339\<close>

definition is_digit :: "char \<Rightarrow> bool" where
  "is_digit c \<longleftrightarrow> (let n = (of_char c :: nat) in 48 \<le> n \<and> n \<le> 57)"

definition digit_val :: "char \<Rightarrow> int" where
  "digit_val c = int (of_char c) - 48"

text \<open>\<open>getnum(s, fixed)\<close>: two digits, or one where \<open>fixed\<close> is false.\<close>

fun getnum :: "bool \<Rightarrow> string \<Rightarrow> (int \<times> string) option" where
  "getnum fixed [] = None"
| "getnum fixed (c # cs) =
     (if \<not> is_digit c then None
      else case cs of
          d # ds \<Rightarrow> if is_digit d then Some (10 * digit_val c + digit_val d, ds)
                    else if fixed then None else Some (digit_val c, cs)
        | [] \<Rightarrow> if fixed then None else Some (digit_val c, cs))"

definition ranged :: "int \<Rightarrow> int \<Rightarrow> (int \<times> string) option \<Rightarrow> (int \<times> string) option" where
  "ranged lo hi r = Option.bind r (\<lambda>(v, s). if lo \<le> v \<and> v \<le> hi then Some (v, s) else None)"

fun lit :: "char \<Rightarrow> string \<Rightarrow> string option" where
  "lit c [] = None"
| "lit c (d # ds) = (if c = d then Some ds else None)"

definition get_year :: "string \<Rightarrow> (int \<times> string) option" where
  "get_year s = (if length s \<ge> 4 \<and> list_all is_digit (take 4 s)
     then Some (foldl (\<lambda>a c. 10 * a + digit_val c) 0 (take 4 s), drop 4 s) else None)"

text \<open>The optional fraction: at most nine digits count, further ones are skipped.\<close>

definition get_fraction :: "string \<Rightarrow> int \<times> string" where
  "get_fraction s = (case s of
       c # d # ds \<Rightarrow>
         if (c = CHR ''.'' \<or> c = CHR '','') \<and> is_digit d
         then let ds' = takeWhile is_digit (d # ds); used = take 9 ds'
              in (foldl (\<lambda>a c. 10 * a + digit_val c) 0 used * 10 ^ (9 - length used),
                  dropWhile is_digit (d # ds))
         else (0, s)
     | _ \<Rightarrow> (0, s))"

text \<open>The zone: \<open>Z\<close>, or a sign, two digits, a colon and two digits; the offset in seconds.\<close>

definition get_zone :: "string \<Rightarrow> (int \<times> string) option" where
  "get_zone s = (case s of
       CHR ''Z'' # r \<Rightarrow> Some (0, r)
     | _ \<Rightarrow>
        if length s < 6 \<or> s ! 3 \<noteq> CHR '':'' then None
        else Option.bind (ranged 0 24 (getnum True (take 2 (drop 1 s)))) (\<lambda>(hh, _).
             Option.bind (ranged 0 60 (getnum True (take 2 (drop 4 s)))) (\<lambda>(mm, _).
               let off = (hh * 60 + mm) * 60 in
               if s ! 0 = CHR ''+'' then Some (off, drop 6 s)
               else if s ! 0 = CHR ''-'' then Some (- off, drop 6 s)
               else None)))"

definition parse_rfc3339 :: "string \<Rightarrow> gtime option" where
  "parse_rfc3339 s0 =
     Option.bind (get_year s0) (\<lambda>(y, s1).
     Option.bind (lit (CHR ''-'') s1) (\<lambda>s2.
     Option.bind (ranged 1 12 (getnum True s2)) (\<lambda>(mo, s3).
     Option.bind (lit (CHR ''-'') s3) (\<lambda>s4.
     Option.bind (getnum True s4) (\<lambda>(d, s5).
     Option.bind (lit (CHR ''T'') s5) (\<lambda>s6.
     Option.bind (ranged 0 23 (getnum False s6)) (\<lambda>(h, s7).
     Option.bind (lit (CHR '':'') s7) (\<lambda>s8.
     Option.bind (ranged 0 59 (getnum True s8)) (\<lambda>(mi, s9).
     Option.bind (lit (CHR '':'') s9) (\<lambda>s10.
     Option.bind (ranged 0 59 (getnum True s10)) (\<lambda>(sec, s11).
     case get_fraction s11 of (nsec, s12) \<Rightarrow>
     Option.bind (get_zone s12) (\<lambda>(off, s13).
       if s13 \<noteq> [] \<or> d < 1 \<or> d > days_in mo y then None
       else Some ((days_from_civil y mo d * 86400 + h * 3600 + mi * 60 + sec - off) * 1000000000 + nsec)
     ))))))))))))"

text \<open>\<open>t.UTC().Format(time.RFC3339)\<close>: the date from the day count, by the inverse of \<open>days_from_civil\<close>.\<close>

definition civil_from_days :: "int \<Rightarrow> int \<times> int \<times> int" where
  "civil_from_days z0 =
     (let z = z0 + 719468; era = z div 146097; doe = z mod 146097;
          yoe = (doe - doe div 1460 + doe div 36524 - doe div 146096) div 365;
          doy = doe - (365 * yoe + yoe div 4 - yoe div 100);
          mp = (5 * doy + 2) div 153;
          m = (if mp < 10 then mp + 3 else mp - 9)
      in (yoe + era * 400 + (if m \<le> 2 then 1 else 0), m, doy - (153 * mp + 2) div 5 + 1))"

definition pad0 :: "nat \<Rightarrow> int \<Rightarrow> string" where
  "pad0 w n = (let s = show_nat (nat \<bar>n\<bar>)
     in (if n < 0 then ''-'' else []) @ replicate (w - length s) CHR ''0'' @ s)"

definition format_rfc3339 :: "gtime \<Rightarrow> string" where
  "format_rfc3339 t =
     (let secs = t div 1000000000; sod = secs mod 86400
      in case civil_from_days (secs div 86400) of (y, m, d) \<Rightarrow>
        pad0 4 y @ ''-'' @ pad0 2 m @ ''-'' @ pad0 2 d @ ''T'' @ pad0 2 (sod div 3600) @ '':''
        @ pad0 2 (sod mod 3600 div 60) @ '':'' @ pad0 2 (sod mod 60) @ ''Z'')"

lemma format_rfc3339_example: "format_rfc3339 1785225900250000000 = ''2026-07-28T08:05:00Z''"
  by code_simp

lemma parse_format_leap_day:
  "parse_rfc3339 (format_rfc3339 (951825600 * 1000000000)) = Some (951825600 * 1000000000)"
  by code_simp

lemma parse_rfc3339_example:
  "parse_rfc3339 ''2026-07-28T10:05:00.25+02:00'' = Some 1785225900250000000"
  by code_simp

lemma parse_rfc3339_reject: "parse_rfc3339 ''2026-02-30T10:05:00Z'' = None"
  by code_simp

end
