(* ===== verification/Message.thy ===== *)
theory Message
  imports Go_Json Go_Time
begin

text \<open>
  The message shape every component folds (\<open>pkg/proto/message.go\<close>) and the tag vocabulary that
  selects an operation: the exchange's \<open>exchangeOp\<close> (\<open>pkg/exchange/state_put.go\<close>), which accepts
  a message only when its tags name exactly one canonical operation, the settle phase, and the
  ledger's \<open>scripOp\<close> (\<open>pkg/scrip/relay_store.go\<close>), which takes the first scrip tag.
\<close>

section \<open>Messages\<close>

text \<open>\<open>Payload\<close> is the JSON value of the raw body; \<open>Timestamp\<close> is in nanoseconds.\<close>

record message =
  ID :: string
  Sender :: string
  Payload :: payload
  Tags :: "string list"
  Antecedents :: "string list"
  Timestamp :: i64
  Instance :: string

section \<open>Tags\<close>

abbreviation TagPut :: string where "TagPut \<equiv> ''exchange:put''"
abbreviation TagBuy :: string where "TagBuy \<equiv> ''exchange:buy''"
abbreviation TagMatch :: string where "TagMatch \<equiv> ''exchange:match''"
abbreviation TagSettle :: string where "TagSettle \<equiv> ''exchange:settle''"
abbreviation TagPhasePrefix :: string where "TagPhasePrefix \<equiv> ''exchange:phase:''"
abbreviation TagAssign :: string where "TagAssign \<equiv> ''exchange:assign''"
abbreviation TagAssignClaim :: string where "TagAssignClaim \<equiv> ''exchange:assign-claim''"
abbreviation TagAssignComplete :: string where "TagAssignComplete \<equiv> ''exchange:assign-complete''"
abbreviation TagAssignAccept :: string where "TagAssignAccept \<equiv> ''exchange:assign-accept''"
abbreviation TagAssignReject :: string where "TagAssignReject \<equiv> ''exchange:assign-reject''"
abbreviation TagAssignExpire :: string where "TagAssignExpire \<equiv> ''exchange:assign-expire''"
abbreviation TagBuyMiss :: string where "TagBuyMiss \<equiv> ''exchange:buy-miss''"
abbreviation TagDemandOnly :: string where "TagDemandOnly \<equiv> ''exchange:demand-only''"
abbreviation TagAssignAuctionClose :: string where
  "TagAssignAuctionClose \<equiv> ''exchange:assign-auction-close''"
abbreviation TagConsume :: string where "TagConsume \<equiv> ''exchange:consume''"
abbreviation TagReprice :: string where "TagReprice \<equiv> ''exchange:reprice''"

abbreviation TagScripMint :: string where "TagScripMint \<equiv> ''dontguess:scrip-mint''"
abbreviation TagScripBurn :: string where "TagScripBurn \<equiv> ''dontguess:scrip-burn''"
abbreviation TagScripPutPay :: string where "TagScripPutPay \<equiv> ''dontguess:scrip-put-pay''"
abbreviation TagScripBuyHold :: string where "TagScripBuyHold \<equiv> ''dontguess:scrip-buy-hold''"
abbreviation TagScripSettle :: string where "TagScripSettle \<equiv> ''dontguess:scrip-settle''"
abbreviation TagScripAssignPay :: string where "TagScripAssignPay \<equiv> ''dontguess:scrip-assign-pay''"
abbreviation TagScripDisputeRefund :: string where
  "TagScripDisputeRefund \<equiv> ''dontguess:scrip-dispute-refund''"
abbreviation TagScripLoanMint :: string where "TagScripLoanMint \<equiv> ''dontguess:scrip-loan-mint''"
abbreviation TagScripLoanRepay :: string where "TagScripLoanRepay \<equiv> ''dontguess:scrip-loan-repay''"
abbreviation TagScripLoanVigAccrue :: string where
  "TagScripLoanVigAccrue \<equiv> ''dontguess:scrip-loan-vig-accrue''"

section \<open>The executed operation\<close>

definition scripTags :: "string list" where
  "scripTags = [TagScripMint, TagScripBurn, TagScripPutPay, TagScripBuyHold, TagScripSettle,
     TagScripAssignPay, TagScripDisputeRefund, TagScripLoanMint, TagScripLoanRepay,
     TagScripLoanVigAccrue]"

definition isExchangeOpTag :: "string \<Rightarrow> bool" where
  "isExchangeOpTag t \<longleftrightarrow>
     t \<in> set ([TagPut, TagBuy, TagMatch, TagSettle,
       TagAssign, TagAssignClaim, TagAssignComplete, TagAssignAccept, TagAssignReject,
       TagAssignExpire, TagAssignAuctionClose] @ scripTags @ [TagConsume, TagReprice])"

fun exchangeOp_loop :: "string \<Rightarrow> string list \<Rightarrow> string" where
  "exchangeOp_loop found [] = found"
| "exchangeOp_loop found (t # ts) =
     (if \<not> isExchangeOpTag t then exchangeOp_loop found ts
      else if found \<noteq> '''' \<and> t \<noteq> found then ''''
      else exchangeOp_loop t ts)"

definition exchangeOp :: "string list \<Rightarrow> string" where
  "exchangeOp tags = exchangeOp_loop '''' tags"

definition hasPrefix :: "string \<Rightarrow> string \<Rightarrow> bool" where
  "hasPrefix s p \<longleftrightarrow> take (length p) s = p"

fun settlePhaseFromTags :: "string list \<Rightarrow> string" where
  "settlePhaseFromTags [] = ''''"
| "settlePhaseFromTags (t # ts) =
     (if hasPrefix t TagPhasePrefix then drop (length TagPhasePrefix) t else settlePhaseFromTags ts)"

definition tagsContain :: "string list \<Rightarrow> string \<Rightarrow> bool" where
  "tagsContain tags want \<longleftrightarrow> want \<in> set tags"

definition stripTagPrefix :: "string \<Rightarrow> string \<Rightarrow> string" where
  "stripTagPrefix val p = (if hasPrefix val p then drop (length p) val else val)"

definition stripDomainPrefixes :: "string list \<Rightarrow> string list" where
  "stripDomainPrefixes ds = map (\<lambda>d. stripTagPrefix d ''exchange:domain:'') ds"

fun scripOp :: "string list \<Rightarrow> string" where
  "scripOp [] = ''''"
| "scripOp (t # ts) = (if t \<in> set scripTags then t else scripOp ts)"

section \<open>What exchangeOp computes\<close>

lemma isExchangeOpTag_nonempty: "isExchangeOpTag t \<Longrightarrow> t \<noteq> ''''"
  by (auto simp: isExchangeOpTag_def scripTags_def)

lemma exchangeOp_loop_some:
  "f \<noteq> '''' \<Longrightarrow> exchangeOp_loop f ts = (if set (filter isExchangeOpTag ts) \<subseteq> {f} then f else '''')"
  by (induction ts) auto

lemma exchangeOp_eq:
  "exchangeOp tags = (case filter isExchangeOpTag tags of
     [] \<Rightarrow> ''''
   | t # ts \<Rightarrow> if set ts \<subseteq> {t} then t else '''')"
proof (induction tags)
  case Nil
  then show ?case by (simp add: exchangeOp_def)
next
  case (Cons t ts)
  show ?case
  proof (cases "isExchangeOpTag t")
    case True
    then show ?thesis
      using isExchangeOpTag_nonempty by (simp add: exchangeOp_def exchangeOp_loop_some)
  next
    case False
    with Cons.IH show ?thesis by (simp add: exchangeOp_def)
  qed
qed

text \<open>
  The canonical-source rule: a message executes an operation exactly when that operation is the
  one canonical operation its tags name.
\<close>

lemma exchangeOp_iff:
  "t \<noteq> '''' \<Longrightarrow> exchangeOp tags = t \<longleftrightarrow> {u \<in> set tags. isExchangeOpTag u} = {t}"
proof -
  assume t: "t \<noteq> ''''"
  have set: "{u \<in> set tags. isExchangeOpTag u} = set (filter isExchangeOpTag tags)" by simp
  show ?thesis
    unfolding exchangeOp_eq set using t
    by (cases "filter isExchangeOpTag tags") (auto split: if_splits)
qed

lemma scripOp_mem: "scripOp tags \<noteq> '''' \<Longrightarrow> scripOp tags \<in> set tags \<and> scripOp tags \<in> set scripTags"
  by (induction tags) (auto split: if_splits)

end
