(* ===== verification/Exchange_State.thy ===== *)
theory Exchange_State
  imports Message Go_Float
begin

text \<open>
  The exchange state (\<open>pkg/exchange/state_types.go\<close>, type \<open>State\<close>) is a chain of records, one
  extension per group of fields, so that each handler file has its own part. This theory holds the
  first part: identity of the operator, the replay scope, wire aliases
  (\<open>state_wire_alias.go\<close>) and the counting of fold denials (\<open>state_core.go\<close>). The later parts are
  in \<open>State_Assign\<close>, \<open>State_Inventory\<close>, \<open>State_Orders\<close> and \<open>State_Settle\<close>.
\<close>

section \<open>Fold denials\<close>

datatype foldDenialReason =
    foldDenialNotOperator
  | foldDenialBuyerIdentity
  | foldDenialAssignExclusive
  | foldDenialAssignClaimant

text \<open>
  \<open>denials\<close> lists the calls of the callback \<open>onFoldDenial\<close>, which the code uses to count and log;
  \<open>onFoldDenialWired\<close> says whether one is installed. \<open>replayMsgIDs\<close> is nil outside Replay.
\<close>

record core_state =
  OperatorKey :: string
  encryptedRequired :: bool
  onFoldDenialWired :: bool
  denials :: "(foldDenialReason \<times> string) list"
  replaying :: bool
  replayPutAccepts :: "string set"
  replayMsgIDs :: "string set option"
  wireToStore :: "string \<rightharpoonup> string"
  foldDenialCounted :: "string set"

definition isReplayMsg :: "('z) core_state_scheme \<Rightarrow> string \<Rightarrow> bool" where
  "isReplayMsg s i = (case replayMsgIDs s of None \<Rightarrow> False | Some ids \<Rightarrow> i \<in> ids)"

definition recordFoldDenial ::
    "foldDenialReason \<Rightarrow> 'z core_state_scheme \<Rightarrow> message \<Rightarrow> 'z core_state_scheme" where
  "recordFoldDenial reason s msg =
     (if \<not> onFoldDenialWired s then s
      else if replaying s \<and> isReplayMsg s (ID msg) then s
      else if ID msg \<in> foldDenialCounted s then s
      else s\<lparr>foldDenialCounted := insert (ID msg) (foldDenialCounted s),
             denials := denials s @ [(reason, ID msg)]\<rparr>)"

text \<open>The operator-only guard every operator handler opens with.\<close>

definition notOperator :: "'z core_state_scheme \<Rightarrow> message \<Rightarrow> bool" where
  "notOperator s msg \<longleftrightarrow> OperatorKey s \<noteq> '''' \<and> Sender msg \<noteq> OperatorKey s"

section \<open>Wire aliases\<close>

definition resolveAlias :: "'z core_state_scheme \<Rightarrow> string \<Rightarrow> string" where
  "resolveAlias s i = (case wireToStore s i of Some st \<Rightarrow> st | None \<Rightarrow> i)"

definition RegisterWireAlias :: "string \<Rightarrow> string \<Rightarrow> 'z core_state_scheme \<Rightarrow> 'z core_state_scheme" where
  "RegisterWireAlias wire st s =
     (if wire = '''' \<or> st = '''' \<or> wire = st then s
      else case wireToStore s wire of
          Some _ \<Rightarrow> s
        | None \<Rightarrow> s\<lparr>wireToStore := (wireToStore s)(wire \<mapsto> st)\<rparr>)"

text \<open>The receive time of a message: the fold has no clock of its own.\<close>

definition foldTime :: "message \<Rightarrow> gtime" where
  "foldTime msg = (if Timestamp msg > 0 then Timestamp msg else zero_time)"

section \<open>Facts\<close>

lemma recordFoldDenial_frame [simp]:
  "OperatorKey (recordFoldDenial r s m) = OperatorKey s"
  "encryptedRequired (recordFoldDenial r s m) = encryptedRequired s"
  "onFoldDenialWired (recordFoldDenial r s m) = onFoldDenialWired s"
  "replaying (recordFoldDenial r s m) = replaying s"
  "replayPutAccepts (recordFoldDenial r s m) = replayPutAccepts s"
  "replayMsgIDs (recordFoldDenial r s m) = replayMsgIDs s"
  "wireToStore (recordFoldDenial r s m) = wireToStore s"
  "core_state.more (recordFoldDenial r s m) = core_state.more s"
  by (simp_all add: recordFoldDenial_def)

lemma resolveAlias_none [simp]: "wireToStore s i = None \<Longrightarrow> resolveAlias s i = i"
  by (simp add: resolveAlias_def)

lemma resolveAlias_denial [simp]: "resolveAlias (recordFoldDenial r s m) i = resolveAlias s i"
  by (simp add: resolveAlias_def)

text \<open>An alias, once registered, is never repointed.\<close>

lemma RegisterWireAlias_keeps:
  "wireToStore s w = Some st \<Longrightarrow> wireToStore (RegisterWireAlias wire st' s) w = Some st"
  by (auto simp: RegisterWireAlias_def split: option.split)

text \<open>Each message is counted at most once, and never while its own log is replayed.\<close>

definition denials_ok :: "'z core_state_scheme \<Rightarrow> bool" where
  "denials_ok s \<longleftrightarrow> distinct (map snd (denials s)) \<and> snd ` set (denials s) \<subseteq> foldDenialCounted s"

lemma denials_ok_record: "denials_ok s \<Longrightarrow> denials_ok (recordFoldDenial r s m)"
  by (auto simp: denials_ok_def recordFoldDenial_def)

lemma recordFoldDenial_replay: "replaying s \<Longrightarrow> isReplayMsg s (ID m) \<Longrightarrow> recordFoldDenial r s m = s"
  by (simp add: recordFoldDenial_def)

end
