(* ===== verification/State_Assign.thy ===== *)
theory State_Assign
  imports Exchange_State
begin

text \<open>
  The assign work queue (\<open>pkg/exchange/state_assign.go\<close>): tasks the operator posts, their claims,
  Vickrey auctions, completions, acceptance, expiry and payment. An \<open>AssignRecord\<close> is reached
  through pointers from several maps in the code; here \<open>assignByID\<close> is the store of records and the
  other maps hold the assign ID, so that a write through any of them is a write to \<open>assignByID\<close>.
\<close>

section \<open>State\<close>

datatype AssignStatus =
    AssignOpen
  | AssignClaimed
  | AssignCompleted
  | AssignAccepted
  | AssignRejected
  | AssignPaid
  | AssignExpired

record AuctionBid =
  WorkerKey :: string
  BidAmount :: i64
  BidTimestamp :: gtime

record AssignRecord =
  AssignID :: string
  AssignEntryID :: string
  TaskType :: string
  Reward :: i64
  Status :: AssignStatus
  ClaimantKey :: string
  ClaimMsgID :: string
  ClaimExpiresAt :: gtime
  CompleteMsgID :: string
  Result :: "payload option"
  ExclusiveSender :: string
  ClaimTimeoutMinutes :: i64
  AssignReceivedAt :: gtime
  AuctionDeadline :: gtime
  AuctionBids :: "AuctionBid list"
  DifficultyTier :: string
  VickreyPrice :: i64
  AssignBuyMsgID :: string
  DeadlineAt :: gtime
  ClaimedAt :: gtime
  CompletedAt :: gtime

record assign_state = core_state +
  assignsByEntry :: "string \<rightharpoonup> string list"
  assignByID :: "(string \<times> AssignRecord) list"
  claimedAssigns :: "string \<rightharpoonup> string"
  pendingAssignResults :: "(string \<times> string) list"
  claimMsgToAssign :: "string \<rightharpoonup> string"
  completeMsgToAssign :: "string \<rightharpoonup> string"
  brokerAssigns :: "string \<rightharpoonup> string"

abbreviation DefaultClaimTimeoutMinutes :: i64 where "DefaultClaimTimeoutMinutes \<equiv> 15"
abbreviation AuctionBidCeilMultiplier :: i64 where "AuctionBidCeilMultiplier \<equiv> 10"

abbreviation assign :: "'z assign_state_scheme \<Rightarrow> string \<Rightarrow> AssignRecord option" where
  "assign s \<equiv> map_of (assignByID s)"

definition setAssign :: "string \<Rightarrow> AssignRecord \<Rightarrow> 'z assign_state_scheme \<Rightarrow> 'z assign_state_scheme" where
  "setAssign a r s = s\<lparr>assignByID := AList.update a r (assignByID s)\<rparr>"

section \<open>Posting\<close>

record AssignPayload =
  ap_EntryID :: string
  ap_TaskType :: string
  ap_Reward :: i64
  ap_Bounty :: i64
  ap_ExclusiveSender :: string
  ap_ClaimTimeoutMinutes :: i64
  ap_AuctionWindowSeconds :: i64
  ap_BuyMsgID :: string
  ap_DeadlineAt :: string

definition assignZero :: AssignPayload where
  "assignZero = \<lparr>ap_EntryID = '''', ap_TaskType = '''', ap_Reward = 0, ap_Bounty = 0,
     ap_ExclusiveSender = '''', ap_ClaimTimeoutMinutes = 0, ap_AuctionWindowSeconds = 0,
     ap_BuyMsgID = '''', ap_DeadlineAt = ''''\<rparr>"

definition assignFields :: "AssignPayload fields" where
  "assignFields = [(''entry_id'', on_field dec_string ap_EntryID ap_EntryID_update),
     (''task_type'', on_field dec_string ap_TaskType ap_TaskType_update),
     (''reward'', on_field dec_i64 ap_Reward ap_Reward_update),
     (''bounty'', on_field dec_i64 ap_Bounty ap_Bounty_update),
     (''exclusive_sender'', on_field dec_string ap_ExclusiveSender ap_ExclusiveSender_update),
     (''claim_timeout_minutes'', on_field dec_i64 ap_ClaimTimeoutMinutes ap_ClaimTimeoutMinutes_update),
     (''auction_window_seconds'', on_field dec_i64 ap_AuctionWindowSeconds ap_AuctionWindowSeconds_update),
     (''buy_msg_id'', on_field dec_string ap_BuyMsgID ap_BuyMsgID_update),
     (''deadline_at'', on_field dec_string ap_DeadlineAt ap_DeadlineAt_update)]"

definition newAssign :: "message \<Rightarrow> AssignPayload \<Rightarrow> AssignRecord" where
  "newAssign msg p =
     (let reward = (if ap_Bounty p > 0 \<and> ap_Reward p = 0 then ap_Bounty p else ap_Reward p);
          timeout = (if ap_ClaimTimeoutMinutes p \<le> 0 \<or> ap_ClaimTimeoutMinutes p > 30
                     then DefaultClaimTimeoutMinutes else ap_ClaimTimeoutMinutes p);
          receivedAt = foldTime msg
      in \<lparr>AssignID = ID msg, AssignEntryID = ap_EntryID p, TaskType = ap_TaskType p, Reward = reward,
          Status = AssignOpen, ClaimantKey = '''', ClaimMsgID = '''', ClaimExpiresAt = zero_time,
          CompleteMsgID = '''', Result = None, ExclusiveSender = ap_ExclusiveSender p,
          ClaimTimeoutMinutes = timeout, AssignReceivedAt = receivedAt,
          AuctionDeadline = (if ap_AuctionWindowSeconds p > 0
             then receivedAt + dur_mul (ap_AuctionWindowSeconds p) second else zero_time),
          AuctionBids = [], DifficultyTier = '''', VickreyPrice = 0, AssignBuyMsgID = ap_BuyMsgID p,
          DeadlineAt = (if ap_DeadlineAt p = '''' then zero_time
             else case parse_rfc3339 (ap_DeadlineAt p) of Some t \<Rightarrow> t | None \<Rightarrow> zero_time),
          ClaimedAt = zero_time, CompletedAt = zero_time\<rparr>)"

definition applyAssign :: "'z assign_state_scheme \<Rightarrow> message \<Rightarrow> 'z assign_state_scheme" where
  "applyAssign s msg =
     (if notOperator s msg then recordFoldDenial foldDenialNotOperator s msg
      else if assign s (ID msg) \<noteq> None then s
      else case unmarshal assignFields (Payload msg) assignZero of (p, ok) \<Rightarrow>
        if \<not> ok then s
        else let s1 = setAssign (ID msg) (newAssign msg p)
                   (s\<lparr>assignsByEntry := (assignsByEntry s)(ap_EntryID p \<mapsto>
                        getd [] (assignsByEntry s) (ap_EntryID p) @ [ID msg])\<rparr>)
             in if ap_TaskType p = ''brokered-match'' \<and> ap_BuyMsgID p \<noteq> ''''
                then s1\<lparr>brokerAssigns := (brokerAssigns s1)(ap_BuyMsgID p \<mapsto> ID msg)\<rparr> else s1)"

section \<open>Claiming\<close>

record ClaimPayload =
  cp_ExpiresAt :: string
  cp_Bid :: "i64 option"

definition claimZero :: ClaimPayload where
  "claimZero = \<lparr>cp_ExpiresAt = '''', cp_Bid = None\<rparr>"

definition claimFields :: "ClaimPayload fields" where
  "claimFields = [(''expires_at'', on_field dec_string cp_ExpiresAt cp_ExpiresAt_update),
     (''bid'', on_field dec_i64_ptr cp_Bid cp_Bid_update)]"

text \<open>One bid per worker: a second bid replaces the first only when it is lower.\<close>

fun addBid :: "string \<Rightarrow> i64 \<Rightarrow> gtime \<Rightarrow> AuctionBid list \<Rightarrow> AuctionBid list" where
  "addBid w amt t [] = [\<lparr>WorkerKey = w, BidAmount = amt, BidTimestamp = t\<rparr>]"
| "addBid w amt t (b # bs) =
     (if WorkerKey b = w
      then (if amt < BidAmount b then b\<lparr>BidAmount := amt, BidTimestamp := t\<rparr> # bs else b # bs)
      else b # addBid w amt t bs)"

definition claimCeiling :: "AssignRecord \<Rightarrow> gtime" where
  "claimCeiling r = AssignReceivedAt r + dur_mul (ClaimTimeoutMinutes r) minute"

definition bindClaim :: "string \<Rightarrow> AssignRecord \<Rightarrow> string \<Rightarrow> string \<Rightarrow> 'z assign_state_scheme
    \<Rightarrow> 'z assign_state_scheme" where
  "bindClaim a r claimant claimMsg s =
     (setAssign a r s)\<lparr>claimedAssigns := (claimedAssigns s)(claimant \<mapsto> a),
        claimMsgToAssign := (claimMsgToAssign s)(claimMsg \<mapsto> a)\<rparr>"

definition applyAuctionBid :: "string \<Rightarrow> AssignRecord \<Rightarrow> ClaimPayload \<Rightarrow> 'z assign_state_scheme
    \<Rightarrow> message \<Rightarrow> 'z assign_state_scheme" where
  "applyAuctionBid a r p s msg =
     (let msgTime = foldTime msg in
      if \<not> msgTime < AuctionDeadline r then s
      else let bidAmount = (case cp_Bid p of Some b \<Rightarrow> b | None \<Rightarrow> Reward r) in
        if Reward r > 0 \<and> bidAmount > wrap64 (Reward r * AuctionBidCeilMultiplier) then s
        else if bidAmount \<le> 0 then s
        else setAssign a (r\<lparr>AuctionBids := addBid (Sender msg) bidAmount msgTime (AuctionBids r)\<rparr>) s)"

definition claimExpiry :: "AssignRecord \<Rightarrow> ClaimPayload \<Rightarrow> gtime" where
  "claimExpiry r p =
     (if cp_ExpiresAt p = '''' then claimCeiling r
      else case parse_rfc3339 (cp_ExpiresAt p) of
          None \<Rightarrow> claimCeiling r
        | Some t \<Rightarrow> if t < claimCeiling r then t else claimCeiling r)"

definition applyAssignClaim :: "'z assign_state_scheme \<Rightarrow> message \<Rightarrow> 'z assign_state_scheme" where
  "applyAssignClaim s msg = (case Antecedents msg of [] \<Rightarrow> s
   | ant # _ \<Rightarrow>
     let a = resolveAlias s ant in
     case assign s a of None \<Rightarrow> s
     | Some r \<Rightarrow>
       if Status r \<noteq> AssignOpen then s
       else if ExclusiveSender r \<noteq> '''' \<and> Sender msg \<noteq> ExclusiveSender r
       then recordFoldDenial foldDenialAssignExclusive s msg
       else case unmarshal claimFields (Payload msg) claimZero of (p, _) \<Rightarrow>
         if \<not> is_zero (AuctionDeadline r) then applyAuctionBid a r p s msg
         else if getd '''' (claimedAssigns s) (Sender msg) \<noteq> '''' then s
         else bindClaim a (r\<lparr>Status := AssignClaimed, ClaimantKey := Sender msg,
                ClaimMsgID := ID msg, ClaimExpiresAt := claimExpiry r p, ClaimedAt := foldTime msg\<rparr>)
                (Sender msg) (ID msg) s)"

section \<open>Closing an auction\<close>

definition sortBids :: "AuctionBid list \<Rightarrow> AuctionBid list" where
  "sortBids = insertion_sort (\<lambda>x y. BidAmount x < BidAmount y)"

definition difficultyTier :: "i64 \<Rightarrow> i64 \<Rightarrow> string" where
  "difficultyTier medianBid reward =
     (if reward > 0 then
        (let ratio = f64_div (f64_of_int medianBid) (f64_of_int reward)
         in if ratio \<le> 3/2 then ''low'' else if ratio \<le> 5 then ''medium'' else ''high'')
      else ''low'')"

definition closeAuction :: "AssignRecord \<Rightarrow> message \<Rightarrow> AssignRecord" where
  "closeAuction r msg =
     (let bids = sortBids (AuctionBids r);
          winner = bids ! 0;
          clearingPrice = (if length bids \<ge> 2 then BidAmount (bids ! 1) else BidAmount winner);
          medianBid = BidAmount (bids ! (length bids div 2))
      in r\<lparr>Status := AssignClaimed, ClaimantKey := WorkerKey winner, ClaimMsgID := ID msg,
           ClaimExpiresAt := claimCeiling r, VickreyPrice := clearingPrice,
           DifficultyTier := difficultyTier medianBid (Reward r), ClaimedAt := foldTime msg\<rparr>)"

definition applyAssignAuctionClose :: "'z assign_state_scheme \<Rightarrow> message \<Rightarrow> 'z assign_state_scheme" where
  "applyAssignAuctionClose s msg =
     (if notOperator s msg then recordFoldDenial foldDenialNotOperator s msg
      else case Antecedents msg of [] \<Rightarrow> s
      | ant # _ \<Rightarrow>
        let a = resolveAlias s ant in
        case assign s a of None \<Rightarrow> s
        | Some r \<Rightarrow>
          if Status r \<noteq> AssignOpen \<or> AuctionBids r = [] then s
          else let r' = closeAuction r msg in bindClaim a r' (ClaimantKey r') (ID msg) s)"

section \<open>Completing, accepting, rejecting\<close>

definition applyAssignComplete :: "'z assign_state_scheme \<Rightarrow> message \<Rightarrow> 'z assign_state_scheme" where
  "applyAssignComplete s msg = (case Antecedents msg of [] \<Rightarrow> s
   | ant # _ \<Rightarrow>
     let claimMsg = resolveAlias s ant in
     case claimMsgToAssign s claimMsg of None \<Rightarrow> s
     | Some a \<Rightarrow>
       (case assign s a of None \<Rightarrow> s
        | Some r \<Rightarrow>
          if Status r \<noteq> AssignClaimed then s
          else if Sender msg \<noteq> ClaimantKey r then recordFoldDenial foldDenialAssignClaimant s msg
          else (setAssign a (r\<lparr>Status := AssignCompleted, CompleteMsgID := ID msg,
                   Result := Some (Payload msg), CompletedAt := foldTime msg\<rparr>) s)
               \<lparr>claimedAssigns := (claimedAssigns s)(Sender msg := None),
                claimMsgToAssign := (claimMsgToAssign s)(claimMsg := None),
                completeMsgToAssign := (completeMsgToAssign s)(ID msg \<mapsto> a),
                pendingAssignResults := AList.update (ID msg) a (pendingAssignResults s)\<rparr>))"

definition pendingRecord :: "'z assign_state_scheme \<Rightarrow> string \<Rightarrow> (string \<times> AssignRecord) option" where
  "pendingRecord s c = (case map_of (pendingAssignResults s) c of None \<Rightarrow> None
     | Some a \<Rightarrow> map_option (\<lambda>r. (a, r)) (assign s a))"

definition applyAssignAccept :: "'z assign_state_scheme \<Rightarrow> message \<Rightarrow> 'z assign_state_scheme" where
  "applyAssignAccept s msg =
     (if notOperator s msg then recordFoldDenial foldDenialNotOperator s msg
      else case Antecedents msg of [] \<Rightarrow> s
      | ant # _ \<Rightarrow>
        let c = resolveAlias s ant in
        case pendingRecord s c of None \<Rightarrow> s
        | Some (a, r) \<Rightarrow>
          if Status r \<noteq> AssignCompleted then s
          else (setAssign a (r\<lparr>Status := AssignAccepted\<rparr>) s)
               \<lparr>pendingAssignResults := AList.delete c (pendingAssignResults s)\<rparr>)"

definition applyAssignReject :: "'z assign_state_scheme \<Rightarrow> message \<Rightarrow> 'z assign_state_scheme" where
  "applyAssignReject s msg =
     (if notOperator s msg then recordFoldDenial foldDenialNotOperator s msg
      else case Antecedents msg of [] \<Rightarrow> s
      | ant # _ \<Rightarrow>
        let c = resolveAlias s ant in
        case pendingRecord s c of None \<Rightarrow> s
        | Some (a, r) \<Rightarrow>
          if Status r \<noteq> AssignCompleted then s
          else (setAssign a (r\<lparr>ClaimantKey := '''', ClaimMsgID := '''', CompleteMsgID := '''',
                   Result := None, Status := AssignOpen\<rparr>) s)
               \<lparr>pendingAssignResults := AList.delete c (pendingAssignResults s),
                completeMsgToAssign := (completeMsgToAssign s)(c := None)\<rparr>)"

section \<open>Expiry\<close>

definition applyAssignExpire :: "'z assign_state_scheme \<Rightarrow> message \<Rightarrow> 'z assign_state_scheme" where
  "applyAssignExpire s msg =
     (if notOperator s msg then recordFoldDenial foldDenialNotOperator s msg
      else case Antecedents msg of [] \<Rightarrow> s
      | ant # _ \<Rightarrow>
        let x = resolveAlias s ant in
        case claimMsgToAssign s x of
          Some a \<Rightarrow>
            (case assign s a of None \<Rightarrow> s
             | Some r \<Rightarrow>
               if Status r \<noteq> AssignClaimed then s
               else (setAssign a (r\<lparr>ClaimantKey := '''', ClaimMsgID := '''',
                        ClaimExpiresAt := zero_time, Status := AssignOpen\<rparr>) s)
                    \<lparr>claimedAssigns := (claimedAssigns s)(ClaimantKey r := None),
                     claimMsgToAssign := (claimMsgToAssign s)(x := None)\<rparr>)
        | None \<Rightarrow>
            (case assign s x of None \<Rightarrow> s
             | Some r \<Rightarrow> if Status r = AssignOpen then setAssign x (r\<lparr>Status := AssignExpired\<rparr>) s else s))"

text \<open>\<open>now\<close> is the wall clock the sweeps read; they do not change the state.\<close>

definition ExpireStaleClaims :: "gtime \<Rightarrow> 'z assign_state_scheme \<Rightarrow> string list" where
  "ExpireStaleClaims now s = map (ClaimMsgID \<circ> snd)
     (filter (\<lambda>(a, r). Status r = AssignClaimed \<and> \<not> is_zero (ClaimExpiresAt r) \<and> ClaimExpiresAt r < now)
       (assignByID s))"

definition PendingAuctionClose :: "gtime \<Rightarrow> 'z assign_state_scheme \<Rightarrow> string list" where
  "PendingAuctionClose now s = map (AssignID \<circ> snd)
     (filter (\<lambda>(a, r). Status r = AssignOpen \<and> \<not> is_zero (AuctionDeadline r)
         \<and> AuctionDeadline r < now \<and> AuctionBids r \<noteq> [])
       (assignByID s))"

section \<open>Payment and queries\<close>

definition ClaimAssignPayment :: "string \<Rightarrow> 'z assign_state_scheme
    \<Rightarrow> 'z assign_state_scheme \<times> AssignRecord option" where
  "ClaimAssignPayment completeMsg s =
     (let c = resolveAlias s completeMsg in
      case completeMsgToAssign s c of None \<Rightarrow> (s, None)
      | Some a \<Rightarrow>
        (case assign s a of None \<Rightarrow> (s, None)
         | Some r \<Rightarrow>
           if Status r \<noteq> AssignAccepted then (s, None)
           else let r' = r\<lparr>Status := AssignPaid\<rparr>
                in ((setAssign a r' s)\<lparr>completeMsgToAssign := (completeMsgToAssign s)(c := None)\<rparr>,
                    Some r')))"

definition presentAssign :: "gtime \<Rightarrow> AssignRecord \<Rightarrow> AssignRecord" where
  "presentAssign now r =
     (if Status r = AssignClaimed \<and> \<not> is_zero (ClaimExpiresAt r) \<and> ClaimExpiresAt r < now
      then r\<lparr>Status := AssignOpen, ClaimantKey := '''', ClaimMsgID := ''''\<rparr> else r)"

definition activeStatus :: "AssignRecord \<Rightarrow> bool" where
  "activeStatus r \<longleftrightarrow> Status r \<notin> {AssignAccepted, AssignRejected, AssignPaid, AssignExpired}"

definition ActiveAssigns :: "gtime \<Rightarrow> 'z assign_state_scheme \<Rightarrow> string \<Rightarrow> AssignRecord list" where
  "ActiveAssigns now s entryID = map (presentAssign now) (filter activeStatus
     (map (\<lambda>a. the (assign s a)) (getd [] (assignsByEntry s) entryID)))"

definition AllActiveAssigns :: "gtime \<Rightarrow> 'z assign_state_scheme \<Rightarrow> AssignRecord list" where
  "AllActiveAssigns now s = map (presentAssign now) (filter activeStatus (map snd (assignByID s)))"

definition CompletedUnacceptedAssigns :: "'z assign_state_scheme \<Rightarrow> AssignRecord list" where
  "CompletedUnacceptedAssigns s = filter (\<lambda>r. Status r = AssignCompleted)
     (List.map_filter (\<lambda>(c, a). assign s a) (pendingAssignResults s))"

text \<open>The assign cases of the switch in \<open>applyLocked\<close>.\<close>

definition applyAssignOp :: "string \<Rightarrow> 'z assign_state_scheme \<Rightarrow> message \<Rightarrow> 'z assign_state_scheme" where
  "applyAssignOp op s msg =
     (if op = TagAssign then applyAssign s msg
      else if op = TagAssignClaim then applyAssignClaim s msg
      else if op = TagAssignComplete then applyAssignComplete s msg
      else if op = TagAssignAccept then applyAssignAccept s msg
      else if op = TagAssignReject then applyAssignReject s msg
      else if op = TagAssignExpire then applyAssignExpire s msg
      else if op = TagAssignAuctionClose then applyAssignAuctionClose s msg
      else s)"

section \<open>Record updates\<close>

lemma assign_setAssign [simp]: "assign (setAssign a r s) b = (if b = a then Some r else assign s b)"
  by (simp add: setAssign_def)

lemma setAssign_frame [simp]:
  "claimMsgToAssign (setAssign a r s) = claimMsgToAssign s"
  "completeMsgToAssign (setAssign a r s) = completeMsgToAssign s"
  "pendingAssignResults (setAssign a r s) = pendingAssignResults s"
  "claimedAssigns (setAssign a r s) = claimedAssigns s"
  "assignsByEntry (setAssign a r s) = assignsByEntry s"
  "brokerAssigns (setAssign a r s) = brokerAssigns s"
  "wireToStore (setAssign a r s) = wireToStore s"
  by (simp_all add: setAssign_def)

lemma denial_assign_frame [simp]:
  "assignByID (recordFoldDenial x s m) = assignByID s"
  "claimMsgToAssign (recordFoldDenial x s m) = claimMsgToAssign s"
  "completeMsgToAssign (recordFoldDenial x s m) = completeMsgToAssign s"
  "pendingAssignResults (recordFoldDenial x s m) = pendingAssignResults s"
  "claimedAssigns (recordFoldDenial x s m) = claimedAssigns s"
  "assignsByEntry (recordFoldDenial x s m) = assignsByEntry s"
  "brokerAssigns (recordFoldDenial x s m) = brokerAssigns s"
  by (simp_all add: recordFoldDenial_def)

section \<open>The invariant\<close>

definition held :: "AssignStatus \<Rightarrow> bool" where
  "held st \<longleftrightarrow> st \<in> {AssignClaimed, AssignCompleted, AssignAccepted, AssignPaid}"

definition bid_ok :: "AssignRecord \<Rightarrow> AuctionBid \<Rightarrow> bool" where
  "bid_ok r b \<longleftrightarrow> 0 < BidAmount b
     \<and> (0 < Reward r \<longrightarrow> BidAmount b \<le> wrap64 (Reward r * AuctionBidCeilMultiplier))
     \<and> (ExclusiveSender r \<noteq> '''' \<longrightarrow> WorkerKey b = ExclusiveSender r)"

definition rec_ok :: "AssignRecord \<Rightarrow> bool" where
  "rec_ok r \<longleftrightarrow> distinct (map WorkerKey (AuctionBids r)) \<and> (\<forall>b\<in>set (AuctionBids r). bid_ok r b)
     \<and> (held (Status r) \<longrightarrow> ExclusiveSender r \<noteq> '''' \<longrightarrow> ClaimantKey r = ExclusiveSender r)
     \<and> 0 < ClaimTimeoutMinutes r \<and> ClaimTimeoutMinutes r \<le> 30"

definition assign_ok :: "'z assign_state_scheme \<Rightarrow> bool" where
  "assign_ok s \<longleftrightarrow> map_ok (pendingAssignResults s)
     \<and> (\<forall>a r. assign s a = Some r \<longrightarrow> rec_ok r \<and> AssignID r = a)
     \<and> (\<forall>c a. claimMsgToAssign s c = Some a \<longrightarrow>
          (\<exists>r. assign s a = Some r \<and> Status r = AssignClaimed \<and> ClaimMsgID r = c))
     \<and> (\<forall>c a. map_of (pendingAssignResults s) c = Some a \<longrightarrow>
          (\<exists>r. assign s a = Some r \<and> Status r = AssignCompleted \<and> CompleteMsgID r = c))
     \<and> (\<forall>c a. completeMsgToAssign s c = Some a \<longrightarrow>
          (\<exists>r. assign s a = Some r \<and> Status r \<in> {AssignCompleted, AssignAccepted} \<and> CompleteMsgID r = c))"

lemma assign_okD:
  assumes "assign_ok s"
  shows "map_ok (pendingAssignResults s)"
    "\<And>a r. assign s a = Some r \<Longrightarrow> rec_ok r \<and> AssignID r = a"
    "\<And>c a. claimMsgToAssign s c = Some a \<Longrightarrow>
       \<exists>r. assign s a = Some r \<and> Status r = AssignClaimed \<and> ClaimMsgID r = c"
    "\<And>c a. map_of (pendingAssignResults s) c = Some a \<Longrightarrow>
       \<exists>r. assign s a = Some r \<and> Status r = AssignCompleted \<and> CompleteMsgID r = c"
    "\<And>c a. completeMsgToAssign s c = Some a \<Longrightarrow>
       \<exists>r. assign s a = Some r \<and> Status r \<in> {AssignCompleted, AssignAccepted} \<and> CompleteMsgID r = c"
  using assms unfolding assign_ok_def by blast+

lemma assign_ok_denial [simp]: "assign_ok (recordFoldDenial x s m) = assign_ok s"
  by (simp add: assign_ok_def)

lemma rec_ok_newAssign: "rec_ok (newAssign msg p) \<and> AssignID (newAssign msg p) = ID msg
    \<and> Status (newAssign msg p) = AssignOpen"
  by (auto simp: rec_ok_def newAssign_def Let_def held_def)

lemma set_addBid: "b \<in> set (addBid w amt t bs) \<Longrightarrow> b \<in> set bs \<or> (WorkerKey b = w \<and> BidAmount b = amt)"
  by (induction bs) (auto split: if_splits)

lemma distinct_addBid: "distinct (map WorkerKey bs) \<Longrightarrow> distinct (map WorkerKey (addBid w amt t bs))"
proof (induction bs)
  case Nil
  then show ?case by simp
next
  case (Cons b bs)
  then show ?case using set_addBid by (fastforce split: if_splits)
qed

lemma sortBids_eq: "sortBids bs = sort_key BidAmount bs"
  unfolding sortBids_def by (rule insertion_sort_eq_sort_key) simp

lemma winner_mem: "bs \<noteq> [] \<Longrightarrow> sortBids bs ! 0 \<in> set bs"
  by (metis length_greater_0_conv length_sort nth_mem set_sort sortBids_eq)

lemma rec_ok_close: "rec_ok r \<Longrightarrow> AuctionBids r \<noteq> [] \<Longrightarrow> rec_ok (closeAuction r msg)"
  using winner_mem[of "AuctionBids r"]
  by (auto simp: rec_ok_def closeAuction_def Let_def bid_ok_def)

lemma closeAuction_fields [simp]:
  "Status (closeAuction r m) = AssignClaimed" "ClaimMsgID (closeAuction r m) = ID m"
  "AssignID (closeAuction r m) = AssignID r" "Reward (closeAuction r m) = Reward r"
  "ExclusiveSender (closeAuction r m) = ExclusiveSender r" "TaskType (closeAuction r m) = TaskType r"
  "CompleteMsgID (closeAuction r m) = CompleteMsgID r"
  by (simp_all add: closeAuction_def Let_def)

text \<open>
  One record rewritten: each index may only lead to it under the message IDs the new record names,
  and may not gain any other binding.
\<close>

lemma assign_ok_upd:
  assumes ok: "assign_ok s" and r': "rec_ok r'" "AssignID r' = a"
    and t: "assignByID t = AList.update a r' (assignByID s)" "map_ok (pendingAssignResults t)"
    and claim: "\<And>c b. claimMsgToAssign t c = Some b \<Longrightarrow>
      (b = a \<and> Status r' = AssignClaimed \<and> ClaimMsgID r' = c) \<or> (b \<noteq> a \<and> claimMsgToAssign s c = Some b)"
    and pend: "\<And>c b. map_of (pendingAssignResults t) c = Some b \<Longrightarrow>
      (b = a \<and> Status r' = AssignCompleted \<and> CompleteMsgID r' = c)
      \<or> (b \<noteq> a \<and> map_of (pendingAssignResults s) c = Some b)"
    and comp: "\<And>c b. completeMsgToAssign t c = Some b \<Longrightarrow>
      (b = a \<and> Status r' \<in> {AssignCompleted, AssignAccepted} \<and> CompleteMsgID r' = c)
      \<or> (b \<noteq> a \<and> completeMsgToAssign s c = Some b)"
  shows "assign_ok t"
proof -
  have at: "assign t b = (if b = a then Some r' else assign s b)" for b by (simp add: t)
  note d = assign_okD[OF ok]
  have 1: "rec_ok r \<and> AssignID r = b" if "assign t b = Some r" for b r
    using that r' d(2) by (auto simp: at split: if_splits)
  have 2: "\<exists>r. assign t b = Some r \<and> Status r = AssignClaimed \<and> ClaimMsgID r = c"
    if "claimMsgToAssign t c = Some b" for c b
    using claim[OF that] d(3)[of c b] by (auto simp: at)
  have 3: "\<exists>r. assign t b = Some r \<and> Status r = AssignCompleted \<and> CompleteMsgID r = c"
    if "map_of (pendingAssignResults t) c = Some b" for c b
    using pend[OF that] d(4)[of c b] by (auto simp: at)
  have 4: "\<exists>r. assign t b = Some r \<and> Status r \<in> {AssignCompleted, AssignAccepted} \<and> CompleteMsgID r = c"
    if "completeMsgToAssign t c = Some b" for c b
    using comp[OF that] d(5)[of c b] by (auto simp: at)
  show ?thesis unfolding assign_ok_def using t(2) 1 2 3 4 by blast
qed

text \<open>What the indexes say of a record with a known status.\<close>

lemma idx_status:
  assumes "assign_ok s" "assign s a = Some r"
  shows "claimMsgToAssign s c = Some a \<Longrightarrow> Status r = AssignClaimed \<and> ClaimMsgID r = c"
    "map_of (pendingAssignResults s) c = Some a \<Longrightarrow> Status r = AssignCompleted \<and> CompleteMsgID r = c"
    "completeMsgToAssign s c = Some a \<Longrightarrow> Status r \<in> {AssignCompleted, AssignAccepted} \<and> CompleteMsgID r = c"
  using assign_okD(3-5)[OF assms(1), of c a] assms(2) by auto

lemma assign_ok_open_write:
  assumes "assign_ok s" "assign s a = Some r" "Status r = AssignOpen" "rec_ok r'" "AssignID r' = a"
  shows "assign_ok (setAssign a r' s)"
proof -
  have no: "claimMsgToAssign s c \<noteq> Some a" "map_of (pendingAssignResults s) c \<noteq> Some a"
    "completeMsgToAssign s c \<noteq> Some a" for c
    using idx_status[OF assms(1,2), of c] assms(3) by auto
  show ?thesis
    by (rule assign_ok_upd[OF assms(1,4,5)]) (use no in \<open>auto simp: setAssign_def assign_okD(1)[OF assms(1)]\<close>)
qed

lemma assign_ok_bindClaim:
  assumes ok: "assign_ok s" and r: "assign s a = Some r" "Status r = AssignOpen"
    and r': "rec_ok r'" "AssignID r' = a" "Status r' = AssignClaimed" "ClaimMsgID r' = c"
  shows "assign_ok (bindClaim a r' k c s)"
proof -
  have no: "claimMsgToAssign s c \<noteq> Some a" "map_of (pendingAssignResults s) c \<noteq> Some a"
    "completeMsgToAssign s c \<noteq> Some a" for c
    using idx_status[OF ok r(1), of c] r(2) by auto
  show ?thesis
    by (rule assign_ok_upd[OF ok r'(1,2)])
      (use no r' in \<open>auto simp: bindClaim_def setAssign_def assign_okD(1)[OF ok] split: if_splits\<close>)
qed

section \<open>Every handler keeps the invariant\<close>

lemma assign_ok_fresh:
  assumes ok: "assign_ok s" and new: "assign s a = None" and r': "rec_ok r'" "AssignID r' = a"
  shows "assign_ok (setAssign a r' s)"
proof -
  have no: "claimMsgToAssign s c \<noteq> Some a" "map_of (pendingAssignResults s) c \<noteq> Some a"
    "completeMsgToAssign s c \<noteq> Some a" for c
    using assign_okD(3-5)[OF ok, of c a] new by auto
  show ?thesis
    by (rule assign_ok_upd[OF ok r']) (use no in \<open>auto simp: setAssign_def assign_okD(1)[OF ok]\<close>)
qed

lemma assign_ok_aux [simp]:
  "assign_ok (s\<lparr>assignsByEntry := x\<rparr>) = assign_ok s" "assign_ok (s\<lparr>brokerAssigns := y\<rparr>) = assign_ok s"
  by (simp_all add: assign_ok_def)

lemma assign_ok_applyAssign: "assign_ok s \<Longrightarrow> assign_ok (applyAssign s msg)"
  using rec_ok_newAssign[of msg]
  by (auto simp: applyAssign_def Let_def intro!: assign_ok_fresh split: prod.split)

lemma rec_ok_bid:
  assumes "rec_ok r" "Status r = AssignOpen" "ExclusiveSender r \<noteq> '''' \<longrightarrow> w = ExclusiveSender r"
    "0 < amt" "0 < Reward r \<longrightarrow> amt \<le> wrap64 (Reward r * AuctionBidCeilMultiplier)"
  shows "rec_ok (r\<lparr>AuctionBids := addBid w amt t (AuctionBids r)\<rparr>)"
  using assms set_addBid[of _ w amt t "AuctionBids r"]
  by (auto simp: rec_ok_def bid_ok_def distinct_addBid held_def)

lemma assign_ok_bid: "assign_ok s \<Longrightarrow> assign s a = Some r \<Longrightarrow> Status r = AssignOpen \<Longrightarrow>
  (ExclusiveSender r \<noteq> '''' \<longrightarrow> Sender msg = ExclusiveSender r) \<Longrightarrow> assign_ok (applyAuctionBid a r p s msg)"
  using rec_ok_bid[of r "Sender msg"] assign_okD(2)[of s a r]
  by (auto simp: applyAuctionBid_def Let_def intro!: assign_ok_open_write)

lemma assign_ok_claim: "assign_ok s \<Longrightarrow> assign_ok (applyAssignClaim s msg)"
proof -
  assume ok: "assign_ok s"
  have "assign_ok (bindClaim a (r\<lparr>Status := AssignClaimed, ClaimantKey := Sender msg,
      ClaimMsgID := ID msg, ClaimExpiresAt := x, ClaimedAt := y\<rparr>) (Sender msg) (ID msg) s)"
    if "assign s a = Some r" "Status r = AssignOpen" "ExclusiveSender r \<noteq> '''' \<longrightarrow> Sender msg = ExclusiveSender r"
    for a r x y
    using that assign_okD(2)[OF ok that(1)]
    by (intro assign_ok_bindClaim[OF ok that(1,2)]) (auto simp: rec_ok_def held_def bid_ok_def)
  with ok show ?thesis
    by (auto simp: applyAssignClaim_def Let_def intro!: assign_ok_bid split: list.split option.split prod.split)
qed

lemma assign_ok_close: "assign_ok s \<Longrightarrow> assign_ok (applyAssignAuctionClose s msg)"
proof -
  assume ok: "assign_ok s"
  have "assign_ok (bindClaim a (closeAuction r msg) k (ID msg) s)"
    if "assign s a = Some r" "Status r = AssignOpen" "AuctionBids r \<noteq> []" for a r k
    using that assign_okD(2)[OF ok that(1)]
    by (intro assign_ok_bindClaim[OF ok that(1,2)]) (auto simp: rec_ok_close)
  with ok show ?thesis
    by (auto simp: applyAssignAuctionClose_def Let_def split: list.split option.split)
qed

lemma assign_ok_complete: "assign_ok s \<Longrightarrow> assign_ok (applyAssignComplete s msg)"
proof -
  assume ok: "assign_ok s"
  have "assign_ok ((setAssign a (r\<lparr>Status := AssignCompleted, CompleteMsgID := ID msg,
                   Result := x, CompletedAt := y\<rparr>) s)
               \<lparr>claimedAssigns := z, claimMsgToAssign := (claimMsgToAssign s)(c := None),
                completeMsgToAssign := (completeMsgToAssign s)(ID msg \<mapsto> a),
                pendingAssignResults := AList.update (ID msg) a (pendingAssignResults s)\<rparr>)"
    if r: "assign s a = Some r" and c: "claimMsgToAssign s c = Some a"
      and k: "ExclusiveSender r \<noteq> '''' \<longrightarrow> ClaimantKey r = ExclusiveSender r" for a r x y z c
  proof -
    note i = idx_status[OF ok r]
    have st: "Status r = AssignClaimed" "ClaimMsgID r = c" using i(1)[OF c] by auto
    have no: "map_of (pendingAssignResults s) d \<noteq> Some a" "completeMsgToAssign s d \<noteq> Some a"
      "claimMsgToAssign s d = Some a \<Longrightarrow> d = c" for d
      using i[of d] st by auto
    show ?thesis
      by (rule assign_ok_upd[OF ok, where a = a])
        (use no assign_okD(2)[OF ok r] k in \<open>auto simp: setAssign_def rec_ok_def held_def bid_ok_def
          assign_okD(1)[OF ok] split: if_splits\<close>)
  qed
  moreover have "ExclusiveSender r \<noteq> '''' \<longrightarrow> ClaimantKey r = ExclusiveSender r"
    if "assign s a = Some r" "Status r = AssignClaimed" for a r
    using assign_okD(2)[OF ok that(1)] that(2) by (simp add: rec_ok_def held_def)
  ultimately show ?thesis using ok
    by (auto simp: applyAssignComplete_def Let_def split: list.split option.split)
qed

lemma pendingRecord_Some: "pendingRecord s c = Some (a, r) \<longleftrightarrow>
  map_of (pendingAssignResults s) c = Some a \<and> assign s a = Some r"
  by (auto simp: pendingRecord_def split: option.split)

lemma assign_ok_unpend:
  assumes ok: "assign_ok s" and p: "map_of (pendingAssignResults s) c = Some a" and r: "assign s a = Some r"
    and r': "rec_ok r'" "AssignID r' = a"
    and m: "(m = completeMsgToAssign s \<and> Status r' = AssignAccepted \<and> CompleteMsgID r' = CompleteMsgID r)
      \<or> m = (completeMsgToAssign s)(c := None)"
  shows "assign_ok ((setAssign a r' s)\<lparr>pendingAssignResults := AList.delete c (pendingAssignResults s),
    completeMsgToAssign := m\<rparr>)"
proof -
  note i = idx_status[OF ok r]
  have st: "Status r = AssignCompleted" "CompleteMsgID r = c" using i(2)[OF p] by auto
  have no: "claimMsgToAssign s d \<noteq> Some a" "map_of (pendingAssignResults s) d = Some a \<Longrightarrow> d = c"
    "completeMsgToAssign s d = Some a \<Longrightarrow> d = c" for d
    using i[of d] st by auto
  show ?thesis
    by (rule assign_ok_upd[OF ok r'])
      (use no m st in \<open>auto simp: setAssign_def assign_okD(1)[OF ok] split: if_splits\<close>)
qed

lemma assign_ok_accept: "assign_ok s \<Longrightarrow> assign_ok (applyAssignAccept s msg)"
proof -
  assume ok: "assign_ok s"
  have "assign_ok ((setAssign a (r\<lparr>Status := AssignAccepted\<rparr>) s)
               \<lparr>pendingAssignResults := AList.delete c (pendingAssignResults s)\<rparr>)"
    if p: "map_of (pendingAssignResults s) c = Some a" and r: "assign s a = Some r" for a r c
  proof -
    have "rec_ok (r\<lparr>Status := AssignAccepted\<rparr>) \<and> AssignID r = a"
      using assign_okD(2)[OF ok r] idx_status(2)[OF ok r p] by (auto simp: rec_ok_def held_def bid_ok_def)
    then show ?thesis
      using assign_ok_unpend[OF ok p r, of "r\<lparr>Status := AssignAccepted\<rparr>" "completeMsgToAssign s"]
      by (simp add: setAssign_def)
  qed
  with ok show ?thesis
    by (auto simp: applyAssignAccept_def Let_def pendingRecord_Some split: list.split option.split)
qed

lemma assign_ok_reject: "assign_ok s \<Longrightarrow> assign_ok (applyAssignReject s msg)"
proof -
  assume ok: "assign_ok s"
  have "assign_ok ((setAssign a (r\<lparr>ClaimantKey := '''', ClaimMsgID := '''', CompleteMsgID := '''',
                   Result := None, Status := AssignOpen\<rparr>) s)
               \<lparr>pendingAssignResults := AList.delete c (pendingAssignResults s),
                completeMsgToAssign := (completeMsgToAssign s)(c := None)\<rparr>)"
    if p: "map_of (pendingAssignResults s) c = Some a" and r: "assign s a = Some r" for a r c
    using assign_okD(2)[OF ok r]
    by (intro assign_ok_unpend[OF ok p r]) (auto simp: rec_ok_def held_def bid_ok_def)
  with ok show ?thesis
    by (auto simp: applyAssignReject_def Let_def pendingRecord_Some split: list.split option.split)
qed

lemma assign_ok_expire: "assign_ok s \<Longrightarrow> assign_ok (applyAssignExpire s msg)"
proof -
  assume ok: "assign_ok s"
  have 1: "assign_ok ((setAssign a (r\<lparr>ClaimantKey := '''', ClaimMsgID := '''',
                        ClaimExpiresAt := zero_time, Status := AssignOpen\<rparr>) s)
                    \<lparr>claimedAssigns := z, claimMsgToAssign := (claimMsgToAssign s)(x := None)\<rparr>)"
    if r: "assign s a = Some r" and x: "claimMsgToAssign s x = Some a" for a r x z
  proof -
    note i = idx_status[OF ok r]
    have st: "Status r = AssignClaimed" "ClaimMsgID r = x" using i(1)[OF x] by auto
    have no: "map_of (pendingAssignResults s) d \<noteq> Some a" "completeMsgToAssign s d \<noteq> Some a"
      "claimMsgToAssign s d = Some a \<Longrightarrow> d = x" for d
      using i[of d] st by auto
    show ?thesis
      by (rule assign_ok_upd[OF ok, where a = a])
        (use no assign_okD(2)[OF ok r] in \<open>auto simp: setAssign_def rec_ok_def held_def bid_ok_def
          assign_okD(1)[OF ok] split: if_splits\<close>)
  qed
  have 2: "assign_ok (setAssign x (r\<lparr>Status := AssignExpired\<rparr>) s)"
    if "assign s x = Some r" "Status r = AssignOpen" for x r
    using assign_okD(2)[OF ok that(1)]
    by (intro assign_ok_open_write[OF ok that]) (auto simp: rec_ok_def held_def bid_ok_def)
  from ok 1 2 show ?thesis
    by (auto simp: applyAssignExpire_def Let_def split: list.split option.split)
qed

lemma assign_ok_pay: "assign_ok s \<Longrightarrow> assign_ok (fst (ClaimAssignPayment c s))"
proof -
  assume ok: "assign_ok s"
  have "assign_ok ((setAssign a (r\<lparr>Status := AssignPaid\<rparr>) s)
      \<lparr>completeMsgToAssign := (completeMsgToAssign s)(x := None)\<rparr>)"
    if r: "assign s a = Some r" and x: "completeMsgToAssign s x = Some a" and st: "Status r = AssignAccepted" for a r x
  proof -
    note i = idx_status[OF ok r]
    have no: "map_of (pendingAssignResults s) d \<noteq> Some a" "claimMsgToAssign s d \<noteq> Some a"
      "completeMsgToAssign s d = Some a \<Longrightarrow> d = x" for d
      using i[of d] i(3)[OF x] st by auto
    show ?thesis
      by (rule assign_ok_upd[OF ok, where a = a])
        (use no assign_okD(2)[OF ok r] st in \<open>auto simp: setAssign_def rec_ok_def held_def bid_ok_def
          assign_okD(1)[OF ok] split: if_splits\<close>)
  qed
  with ok show ?thesis
    by (auto simp: ClaimAssignPayment_def Let_def split: option.split)
qed

section \<open>The lifecycle of a task\<close>

inductive assign_trans :: "AssignStatus \<Rightarrow> AssignStatus \<Rightarrow> bool" where
  t_claim: "assign_trans AssignOpen AssignClaimed"
| t_deadline: "assign_trans AssignOpen AssignExpired"
| t_timeout: "assign_trans AssignClaimed AssignOpen"
| t_complete: "assign_trans AssignClaimed AssignCompleted"
| t_reject: "assign_trans AssignCompleted AssignOpen"
| t_accept: "assign_trans AssignCompleted AssignAccepted"
| t_pay: "assign_trans AssignAccepted AssignPaid"

inductive_simps assign_trans_paid: "assign_trans AssignPaid st"
inductive_simps assign_trans_expired: "assign_trans AssignExpired st"
inductive_simps assign_trans_accepted: "assign_trans AssignAccepted st"

lemma status_paid_stays: "assign_trans\<^sup>*\<^sup>* AssignPaid st \<Longrightarrow> st = AssignPaid"
  by (induction rule: rtranclp_induct) (auto simp: assign_trans_paid)

lemma status_expired_stays: "assign_trans\<^sup>*\<^sup>* AssignExpired st \<Longrightarrow> st = AssignExpired"
  by (induction rule: rtranclp_induct) (auto simp: assign_trans_expired)

text \<open>Between \<open>s\<close> and \<open>t\<close> no record is lost and each status moved along the lifecycle.\<close>

definition assigns_evolve :: "'z assign_state_scheme \<Rightarrow> 'z assign_state_scheme \<Rightarrow> bool" where
  "assigns_evolve s t \<longleftrightarrow> (\<forall>a r. assign s a = Some r \<longrightarrow>
     (\<exists>r'. assign t a = Some r' \<and> assign_trans\<^sup>*\<^sup>* (Status r) (Status r')
        \<and> Reward r' = Reward r \<and> ExclusiveSender r' = ExclusiveSender r \<and> TaskType r' = TaskType r))"

lemma evolve_same: "assignByID t = assignByID s \<Longrightarrow> assigns_evolve s t"
  by (simp add: assigns_evolve_def)

lemma evolve_trans: "assigns_evolve s t \<Longrightarrow> assigns_evolve t u \<Longrightarrow> assigns_evolve s u"
proof -
  assume st: "assigns_evolve s t" and tu: "assigns_evolve t u"
  show ?thesis unfolding assigns_evolve_def
  proof (intro allI impI)
    fix a r assume "assign s a = Some r"
    then obtain r1 where 1: "assign t a = Some r1" "assign_trans\<^sup>*\<^sup>* (Status r) (Status r1)"
      "Reward r1 = Reward r" "ExclusiveSender r1 = ExclusiveSender r" "TaskType r1 = TaskType r"
      using st unfolding assigns_evolve_def by blast
    then obtain r2 where 2: "assign u a = Some r2" "assign_trans\<^sup>*\<^sup>* (Status r1) (Status r2)"
      "Reward r2 = Reward r1" "ExclusiveSender r2 = ExclusiveSender r1" "TaskType r2 = TaskType r1"
      using tu unfolding assigns_evolve_def by blast
    have "assign_trans\<^sup>*\<^sup>* (Status r) (Status r2)" by (rule rtranclp_trans[OF 1(2) 2(2)])
    then show "\<exists>r'. assign u a = Some r' \<and> assign_trans\<^sup>*\<^sup>* (Status r) (Status r')
        \<and> Reward r' = Reward r \<and> ExclusiveSender r' = ExclusiveSender r \<and> TaskType r' = TaskType r"
      using 1 2 by simp
  qed
qed

lemma evolve_set:
  assumes "assign s a = Some r" "Status r' = Status r \<or> assign_trans (Status r) (Status r')"
    and "Reward r' = Reward r" "ExclusiveSender r' = ExclusiveSender r" "TaskType r' = TaskType r"
  shows "assigns_evolve s (setAssign a r' s)"
proof -
  have "assign_trans\<^sup>*\<^sup>* (Status r) (Status r')" using assms(2)
    by (elim disjE) (simp_all only: rtranclp.rtrancl_refl r_into_rtranclp)
  show ?thesis unfolding assigns_evolve_def
  proof (intro allI impI)
    fix b q assume q: "assign s b = Some q"
    show "\<exists>q'. assign (setAssign a r' s) b = Some q' \<and> assign_trans\<^sup>*\<^sup>* (Status q) (Status q')
        \<and> Reward q' = Reward q \<and> ExclusiveSender q' = ExclusiveSender q \<and> TaskType q' = TaskType q"
      using q assms(1,3-5) \<open>assign_trans\<^sup>*\<^sup>* (Status r) (Status r')\<close> by (cases "b = a") auto
  qed
qed

lemma evolve_fresh: "assign s a = None \<Longrightarrow> assigns_evolve s (setAssign a r s)"
  by (auto simp: assigns_evolve_def)

lemma evolve_self [simp]: "assigns_evolve s s"
  by (simp add: evolve_same)

lemma evolve_frame [simp]:
  "assigns_evolve s (t\<lparr>claimedAssigns := x1\<rparr>) = assigns_evolve s t"
  "assigns_evolve s (t\<lparr>claimMsgToAssign := x2\<rparr>) = assigns_evolve s t"
  "assigns_evolve s (t\<lparr>completeMsgToAssign := x3\<rparr>) = assigns_evolve s t"
  "assigns_evolve s (t\<lparr>pendingAssignResults := x4\<rparr>) = assigns_evolve s t"
  "assigns_evolve s (t\<lparr>assignsByEntry := x5\<rparr>) = assigns_evolve s t"
  "assigns_evolve s (t\<lparr>brokerAssigns := x6\<rparr>) = assigns_evolve s t"
  "assigns_evolve s (recordFoldDenial d t m) = assigns_evolve s t"
  by (simp_all add: assigns_evolve_def)

lemma setAssign_comm: "setAssign a r (s\<lparr>assignsByEntry := x\<rparr>) = (setAssign a r s)\<lparr>assignsByEntry := x\<rparr>"
  by (simp add: setAssign_def)

lemma evolve_applyAssign: "assigns_evolve s (applyAssign s m)"
  by (auto simp: applyAssign_def Let_def setAssign_comm split: prod.split intro: evolve_fresh)

lemma evolve_claim: "assigns_evolve s (applyAssignClaim s m)"
proof -
  have "assigns_evolve s (bindClaim a r' k c s)"
    if "assign s a = Some r" "Status r = AssignOpen" "Status r' = AssignClaimed" "Reward r' = Reward r"
      "ExclusiveSender r' = ExclusiveSender r" "TaskType r' = TaskType r" for a r r' k c
    using evolve_set[OF that(1)] that by (simp add: bindClaim_def t_claim)
  moreover have "assigns_evolve s (applyAuctionBid a r p s m)" if "assign s a = Some r" for a r p
    by (auto simp: applyAuctionBid_def Let_def intro!: evolve_set[OF that])
  ultimately show ?thesis
    by (auto simp: applyAssignClaim_def Let_def split: list.split option.split prod.split)
qed

lemma evolve_close: "assigns_evolve s (applyAssignAuctionClose s m)"
proof -
  have "assigns_evolve s (bindClaim a (closeAuction r m) k c s)" if "assign s a = Some r" "Status r = AssignOpen" for a r k c
    using evolve_set[OF that(1), of "closeAuction r m"] that by (simp add: bindClaim_def t_claim)
  then show ?thesis
    by (auto simp: applyAssignAuctionClose_def Let_def split: list.split option.split)
qed

lemma evolve_complete: "assigns_evolve s (applyAssignComplete s m)"
  by (auto simp: applyAssignComplete_def Let_def t_complete split: list.split option.split intro!: evolve_set)

lemma evolve_accept: "assigns_evolve s (applyAssignAccept s m)"
  by (auto simp: applyAssignAccept_def Let_def pendingRecord_Some t_accept
      split: list.split option.split intro!: evolve_set)

lemma evolve_reject: "assigns_evolve s (applyAssignReject s m)"
  by (auto simp: applyAssignReject_def Let_def pendingRecord_Some t_reject
      split: list.split option.split intro!: evolve_set)

lemma evolve_expire: "assigns_evolve s (applyAssignExpire s m)"
  by (auto simp: applyAssignExpire_def Let_def t_timeout t_deadline
      split: list.split option.split intro!: evolve_set)

lemma evolve_pay: "assigns_evolve s (fst (ClaimAssignPayment c s))"
  by (auto simp: ClaimAssignPayment_def Let_def t_pay split: option.split intro!: evolve_set)

lemma assign_ok_op: "assign_ok s \<Longrightarrow> assign_ok (applyAssignOp op s m)"
  by (simp add: applyAssignOp_def assign_ok_applyAssign assign_ok_claim assign_ok_close assign_ok_complete
      assign_ok_accept assign_ok_reject assign_ok_expire)

lemma evolve_op: "assigns_evolve s (applyAssignOp op s m)"
  by (simp add: applyAssignOp_def evolve_applyAssign evolve_claim evolve_close evolve_complete
      evolve_accept evolve_reject evolve_expire)

text \<open>What happens to the work queue: a folded message, or the engine's payment claim.\<close>

datatype assign_input = Folded message | PaymentClaimed string

fun assign_event :: "'z assign_state_scheme \<Rightarrow> assign_input \<Rightarrow> 'z assign_state_scheme" where
  "assign_event s (Folded m) = applyAssignOp (exchangeOp (Tags m)) s m"
| "assign_event s (PaymentClaimed c) = fst (ClaimAssignPayment c s)"

interpretation aq: monotone_fold assign_event assign_ok assigns_evolve
proof
  fix s t u :: "'z assign_state_scheme" and e
  show "assign_ok s \<Longrightarrow> assign_ok (assign_event s e)"
    by (cases e) (simp_all add: assign_ok_op assign_ok_pay)
  show "assigns_evolve s s" by simp
  show "assigns_evolve s t \<Longrightarrow> assigns_evolve t u \<Longrightarrow> assigns_evolve s u" by (rule evolve_trans)
  show "assigns_evolve s (assign_event s e)"
    by (cases e) (simp_all add: evolve_op evolve_pay)
qed

lemma ClaimAssignPayment_Some: "ClaimAssignPayment c s = (s', Some r') \<Longrightarrow> assign_ok s \<Longrightarrow>
  \<exists>r. assign s (AssignID r') = Some r \<and> Status r = AssignAccepted
    \<and> assign s' (AssignID r') = Some r' \<and> Status r' = AssignPaid"
  by (auto simp: ClaimAssignPayment_def Let_def dest: assign_okD(2) split: option.splits if_splits)

section \<open>The auction\<close>

lemma sortBids_ascending: "i \<le> j \<Longrightarrow> j < length bs \<Longrightarrow> BidAmount (sortBids bs ! i) \<le> BidAmount (sortBids bs ! j)"
  using sorted_nth_mono[OF sorted_sort_key[of BidAmount bs], of i j] by (simp add: sortBids_eq)

lemma sortBids_mset: "mset (sortBids bs) = mset bs"
  by (simp add: sortBids_eq)

section \<open>Properties\<close>

text \<open>An empty work queue and a few messages, for the witnesses.\<close>

definition noAssigns :: "string \<Rightarrow> assign_state" where
  "noAssigns opKey = \<lparr>OperatorKey = opKey, encryptedRequired = False, onFoldDenialWired = True,
     denials = [], replaying = False, replayPutAccepts = {}, replayMsgIDs = None,
     wireToStore = Map.empty, foldDenialCounted = {},
     assignsByEntry = Map.empty, assignByID = [], claimedAssigns = Map.empty,
     pendingAssignResults = [], claimMsgToAssign = Map.empty, completeMsgToAssign = Map.empty,
     brokerAssigns = Map.empty\<rparr>"

definition amsg :: "string \<Rightarrow> string \<Rightarrow> string \<Rightarrow> string list \<Rightarrow> (string \<times> json) list \<Rightarrow> message" where
  "amsg i tag sender ants body = \<lparr>ID = i, Sender = sender, Payload = Some (JObj body), Tags = [tag],
     Antecedents = ants, Timestamp = 1000000000, Instance = ''''\<rparr>"

definition auctionLog :: "message list" where
  "auctionLog =
    [amsg ''a1'' TagAssign ''op'' [] [(''reward'', JInt 10)],
     amsg ''a2'' TagAssign ''op'' [] [(''reward'', JInt 10), (''auction_window_seconds'', JInt 60)],
     amsg ''b1'' TagAssignClaim ''w'' [''a2''] [(''bid'', JInt 7)],
     amsg ''b2'' TagAssignClaim ''v'' [''a2''] [(''bid'', JInt 9)]]"

lemma noAssigns_ok: "assign_ok (noAssigns opKey)"
  by (simp add: assign_ok_def noAssigns_def)

lemma addBid_nonempty [simp]: "addBid w amt t bs \<noteq> []"
  by (cases bs) auto

lemma two_smallest:
  assumes "sort_key f bs = x # y # zs"
  shows "f y = Min (set_mset (image_mset f (mset bs) - {#f x#}))"
proof -
  have m: "mset bs = add_mset x (add_mset y (mset zs))" by (metis assms mset.simps(2) mset_sort)
  have srt: "sorted (map f (x # y # zs))" using sorted_sort_key[of f bs] assms by simp
  have "image_mset f (mset bs) - {#f x#} = add_mset (f y) (image_mset f (mset zs))" by (simp add: m)
  moreover have "Min (insert (f y) (f ` set zs)) = f y" using srt by (intro Min_eqI) auto
  ultimately show ?thesis by simp
qed

text \<open>A stable sort puts the first of the smallest elements in front.\<close>

lemma earliest_lowest:
  fixes f :: "'a \<Rightarrow> 'b::linorder"
  assumes "sort_key f xs = w # ws"
  shows "\<exists>before after. xs = before @ w # after \<and> (\<forall>b\<in>set before. f w < f b) \<and> (\<forall>b\<in>set after. f w \<le> f b)"
proof -
  have low: "\<forall>b\<in>set xs. f w \<le> f b"
    using sorted_sort_key[of f xs] set_sort[of f xs] unfolding assms by auto
  have "filter (\<lambda>y. f y = f w) xs = w # filter (\<lambda>y. f y = f w) ws"
    using sort_key_stable[of f "f w" xs] unfolding assms by simp
  then obtain before after where x: "xs = before @ w # after" "\<forall>b\<in>set before. f b \<noteq> f w"
    by (auto simp: filter_eq_Cons_iff)
  then show ?thesis using low by (intro exI[of _ before] exI[of _ after]) (auto simp: order_le_neq_trans less_le)
qed

text \<open>
  The status changes an event may make: which operation moves a task from where to where, and on whose word.
\<close>

definition assign_edges :: "(string \<times> AssignStatus \<times> AssignStatus) set" where
  "assign_edges = {(TagAssignClaim, AssignOpen, AssignClaimed), (TagAssignAuctionClose, AssignOpen, AssignClaimed),
     (TagAssignComplete, AssignClaimed, AssignCompleted), (TagAssignAccept, AssignCompleted, AssignAccepted),
     (TagAssignReject, AssignCompleted, AssignOpen), (TagAssignExpire, AssignClaimed, AssignOpen),
     (TagAssignExpire, AssignOpen, AssignExpired)}"

fun assign_moves :: "'z assign_state_scheme \<Rightarrow> assign_input \<Rightarrow> AssignRecord \<Rightarrow> AssignRecord \<Rightarrow> bool" where
  "assign_moves s (Folded m) r r' \<longleftrightarrow> (let op = exchangeOp (Tags m) in (op, Status r, Status r') \<in> assign_edges
     \<and> (if op = TagAssignClaim then ClaimantKey r' = Sender m
        else if op = TagAssignComplete then ClaimantKey r = Sender m else \<not> notOperator s m))"
| "assign_moves s (PaymentClaimed c) r r' \<longleftrightarrow> Status r = AssignAccepted \<and> Status r' = AssignPaid"

lemma moves_bid: "assign s a = Some r \<Longrightarrow> assign s b = Some r0 \<Longrightarrow>
    \<exists>r'. assign (applyAuctionBid b r0 p s m) a = Some r' \<and> Status r' = Status r"
  by (auto simp: applyAuctionBid_def Let_def)

lemma moves_bind: "assign s a = Some r \<Longrightarrow> assign s b = Some r0 \<Longrightarrow> Status r0 = AssignOpen \<Longrightarrow> Status r1 = AssignClaimed \<Longrightarrow>
    \<exists>r'. assign (bindClaim b r1 k c s) a = Some r'
      \<and> (Status r' = Status r \<or> Status r = AssignOpen \<and> Status r' = AssignClaimed \<and> ClaimantKey r' = ClaimantKey r1)"
  by (auto simp: bindClaim_def)

lemma moves_claim:
  assumes "assign s a = Some r"
  shows "\<exists>r'. assign (applyAssignClaim s m) a = Some r'
    \<and> (Status r' = Status r \<or> Status r = AssignOpen \<and> Status r' = AssignClaimed \<and> ClaimantKey r' = Sender m)"
proof (cases "Antecedents m")
  case Nil
  then show ?thesis using assms by (simp add: applyAssignClaim_def)
next
  case (Cons ant ants)
  let ?b = "resolveAlias s ant"
  show ?thesis
  proof (cases "assign s ?b")
    case None
    then show ?thesis using assms Cons by (simp add: applyAssignClaim_def)
  next
    case (Some r0)
    obtain p ok where p: "unmarshal claimFields (Payload m) claimZero = (p, ok)"
      by (cases "unmarshal claimFields (Payload m) claimZero") blast
    let ?r = "r0\<lparr>Status := AssignClaimed, ClaimantKey := Sender m, ClaimMsgID := ID m, ClaimExpiresAt := claimExpiry r0 p,
      ClaimedAt := foldTime m\<rparr>"
    have b: "Status r0 = AssignOpen \<Longrightarrow> \<exists>r'. assign (bindClaim ?b ?r (Sender m) (ID m) s) a = Some r'
      \<and> (Status r' = Status r \<or> Status r = AssignOpen \<and> Status r' = AssignClaimed \<and> ClaimantKey r' = ClaimantKey ?r)"
      by (rule moves_bind[OF assms Some]) simp_all
    have "applyAssignClaim s m = s \<or> applyAssignClaim s m = recordFoldDenial foldDenialAssignExclusive s m
      \<or> applyAssignClaim s m = applyAuctionBid ?b r0 p s m
      \<or> Status r0 = AssignOpen \<and> applyAssignClaim s m = bindClaim ?b ?r (Sender m) (ID m) s"
      by (simp add: applyAssignClaim_def Cons Some p Let_def)
    then show ?thesis using assms moves_bid[OF assms Some, of p m] b by (elim disjE conjE) (simp, simp, force, simp)
  qed
qed

lemma moves_posted: "assign s a = Some r \<Longrightarrow> \<exists>r'. assign (applyAssign s m) a = Some r' \<and> Status r' = Status r"
  by (auto simp: applyAssign_def setAssign_comm Let_def split: prod.split)

lemma moves_close: "assign s a = Some r \<Longrightarrow> \<exists>r'. assign (applyAssignAuctionClose s m) a = Some r'
    \<and> (Status r' = Status r \<or> Status r = AssignOpen \<and> Status r' = AssignClaimed \<and> \<not> notOperator s m)"
  by (auto simp: applyAssignAuctionClose_def bindClaim_def Let_def split: list.split option.split)

lemma moves_complete: "assign s a = Some r \<Longrightarrow> \<exists>r'. assign (applyAssignComplete s m) a = Some r'
    \<and> (Status r' = Status r \<or> Status r = AssignClaimed \<and> Status r' = AssignCompleted \<and> ClaimantKey r = Sender m)"
  by (auto simp: applyAssignComplete_def Let_def split: list.split option.split)

lemma moves_accept: "assign s a = Some r \<Longrightarrow> \<exists>r'. assign (applyAssignAccept s m) a = Some r'
    \<and> (Status r' = Status r \<or> Status r = AssignCompleted \<and> Status r' = AssignAccepted \<and> \<not> notOperator s m)"
  by (auto simp: applyAssignAccept_def pendingRecord_Some Let_def split: list.split option.split)

lemma moves_reject: "assign s a = Some r \<Longrightarrow> \<exists>r'. assign (applyAssignReject s m) a = Some r'
    \<and> (Status r' = Status r \<or> Status r = AssignCompleted \<and> Status r' = AssignOpen \<and> \<not> notOperator s m)"
  by (auto simp: applyAssignReject_def pendingRecord_Some Let_def split: list.split option.split)

lemma moves_expire: "assign s a = Some r \<Longrightarrow> \<exists>r'. assign (applyAssignExpire s m) a = Some r'
    \<and> (Status r' = Status r \<or> \<not> notOperator s m \<and> (Status r, Status r') \<in> {(AssignClaimed, AssignOpen), (AssignOpen, AssignExpired)})"
  by (auto simp: applyAssignExpire_def Let_def split: list.split option.split)

lemma moves_pay: "assign s a = Some r \<Longrightarrow> \<exists>r'. assign (fst (ClaimAssignPayment c s)) a = Some r'
    \<and> (Status r' = Status r \<or> Status r = AssignAccepted \<and> Status r' = AssignPaid)"
  by (auto simp: ClaimAssignPayment_def Let_def split: option.split)

lemma moves_step:
  assumes "assign s a = Some r"
  shows "\<exists>r'. assign (assign_event s e) a = Some r' \<and> (Status r' = Status r \<or> assign_moves s e r r')"
proof (cases e)
  case (Folded m)
  show ?thesis
    using moves_posted[OF assms, of m] moves_claim[OF assms, of m] moves_close[OF assms, of m] moves_complete[OF assms, of m]
      moves_accept[OF assms, of m] moves_reject[OF assms, of m] moves_expire[OF assms, of m] assms
    by (auto simp: Folded applyAssignOp_def assign_edges_def Let_def)
next
  case (PaymentClaimed c)
  then show ?thesis using moves_pay[OF assms] by simp
qed

text \<open>
  C18: the lifecycle. Whatever messages and payment claims arrive, no task is forgotten, its reward and its designee
  never change, and every single event moves its status by one edge of the lifecycle or not at all: a claim
  or the operator's auction close takes an open task, its claimant completes it, the operator accepts or rejects the
  completion, the operator's expiry reopens a claimed task or ends an open one, and only the payment claim takes an
  accepted task to paid. No event skips a stage, and a paid or expired task stays so.
\<close>

theorem assign_lifecycle:
  assumes "assign_ok s" and "assign s a = Some r"
  shows "\<exists>r1 r2. assign (foldl assign_event s es) a = Some r1
    \<and> assign (foldl assign_event s (es @ [e])) a = Some r2
    \<and> (Status r2 = Status r1 \<or> assign_moves (foldl assign_event s es) e r1 r2)
    \<and> Reward r2 = Reward r \<and> ExclusiveSender r2 = ExclusiveSender r
    \<and> (Status r \<in> {AssignPaid, AssignExpired} \<longrightarrow> Status r2 = Status r)"
proof -
  obtain r1 where r1: "assign (foldl assign_event s es) a = Some r1"
    using aq.rel_run[OF assms(1), of es] assms(2) unfolding assigns_evolve_def by blast
  obtain r2 where r2: "assign (foldl assign_event s (es @ [e])) a = Some r2"
    "Status r2 = Status r1 \<or> assign_moves (foldl assign_event s es) e r1 r2"
    using moves_step[OF r1, of e] by auto
  have "assigns_evolve s (foldl assign_event s (es @ [e]))" by (rule aq.rel_run[OF assms(1)])
  then have "Reward r2 = Reward r \<and> ExclusiveSender r2 = ExclusiveSender r
    \<and> (Status r \<in> {AssignPaid, AssignExpired} \<longrightarrow> Status r2 = Status r)"
    using assms(2) r2(1) status_paid_stays status_expired_stays unfolding assigns_evolve_def by fastforce
  then show ?thesis using r1 r2 by blast
qed

theorem assign_lifecycle_witness:
  "\<exists>r1 r2. assign (foldl assign_event (assign_event (noAssigns ''op'') (Folded (hd auctionLog))) (map Folded (tl auctionLog))) ''a1'' = Some r1
    \<and> assign (foldl assign_event (assign_event (noAssigns ''op'') (Folded (hd auctionLog)))
        (map Folded (tl auctionLog) @ [Folded (amsg ''c1'' TagAssignClaim ''w'' [''a1''] [])])) ''a1'' = Some r2
    \<and> Status r2 \<in> {Status r1, AssignClaimed}"
proof -
  let ?s = "assign_event (noAssigns ''op'') (Folded (hd auctionLog))" and ?m = "amsg ''c1'' TagAssignClaim ''w'' [''a1''] []"
  have ok: "assign_ok ?s" by (rule aq.inv_step[OF noAssigns_ok])
  have "assign ?s ''a1'' \<noteq> None" by code_simp
  then obtain r where "assign ?s ''a1'' = Some r" by blast
  moreover have "exchangeOp (Tags ?m) = TagAssignClaim" by code_simp
  ultimately show ?thesis using assign_lifecycle[OF ok, of "''a1''" r "map Folded (tl auctionLog)" "Folded ?m"]
    by (auto simp: assign_edges_def)
qed

text \<open>
  C19: a task is paid at most once. After \<open>ClaimAssignPayment\<close> has handed out a task, no later call
  hands out the same task again, whatever is folded in between and whichever completion is named.
\<close>

theorem assign_paid_once:
  assumes "assign_ok s" and "ClaimAssignPayment c s = (s1, Some r)"
    and "ClaimAssignPayment d (foldl assign_event s1 es) = (s2, Some r')"
  shows "AssignID r' \<noteq> AssignID r"
proof
  assume eq: "AssignID r' = AssignID r"
  have s1: "assign_ok s1" using assign_ok_pay[OF assms(1), of c] assms(2) by simp
  have paid: "assign s1 (AssignID r) = Some r" "Status r = AssignPaid"
    using ClaimAssignPayment_Some[OF assms(2,1)] by auto
  obtain q where q: "assign (foldl assign_event s1 es) (AssignID r) = Some q" "Status q = AssignPaid"
    using aq.rel_run[OF s1, of es] paid status_paid_stays unfolding assigns_evolve_def by fastforce
  show False
    using ClaimAssignPayment_Some[OF assms(3) aq.inv_run[OF s1]] q eq by auto
qed

lemma payment_index: "ClaimAssignPayment c s = (s', Some r) \<Longrightarrow> assign_ok s \<Longrightarrow>
  completeMsgToAssign s (resolveAlias s c) = Some (AssignID r)"
  by (auto simp: ClaimAssignPayment_def Let_def dest: assign_okD(2) split: option.splits if_splits)

definition paidLog :: "message list" where
  "paidLog =
    [amsg ''a1'' TagAssign ''op'' [] [(''reward'', JInt 10)],
     amsg ''c1'' TagAssignClaim ''w'' [''a1''] [],
     amsg ''d1'' TagAssignComplete ''w'' [''c1''] [],
     amsg ''e1'' TagAssignAccept ''op'' [''d1''] []]"

theorem assign_paid_once_witness:
  "snd (ClaimAssignPayment ''d1'' (fst (ClaimAssignPayment ''d1''
      (foldl assign_event (noAssigns ''op'') (map Folded paidLog))))) = None"
proof (rule ccontr)
  let ?s = "foldl assign_event (noAssigns ''op'') (map Folded paidLog)"
  have ok: "assign_ok ?s" by (rule aq.inv_run[OF noAssigns_ok])
  have "snd (ClaimAssignPayment ''d1'' ?s) \<noteq> None" by code_simp
  then obtain s1 r where 1: "ClaimAssignPayment ''d1'' ?s = (s1, Some r)"
    by (cases "ClaimAssignPayment ''d1'' ?s") auto
  assume "\<not> ?thesis"
  then obtain s2 r' where 2: "ClaimAssignPayment ''d1'' (foldl assign_event s1 []) = (s2, Some r')"
    using 1 by (cases "ClaimAssignPayment ''d1'' s1") auto
  have s1: "s1 = fst (ClaimAssignPayment ''d1'' ?s)" using 1 by simp
  have c: "completeMsgToAssign ?s ''d1'' = Some ''a1''" "resolveAlias ?s ''d1'' = ''d1''" by code_simp+
  have d: "case completeMsgToAssign s1 ''d1'' of None \<Rightarrow> True | Some x \<Rightarrow> x = ''a1''"
    "resolveAlias s1 ''d1'' = ''d1''" unfolding s1 by code_simp+
  have "AssignID r = ''a1''" using payment_index[OF 1 ok] unfolding c by simp
  moreover have "AssignID r' = ''a1''"
    using payment_index[OF 2[unfolded foldl_Nil] assign_ok_pay[OF ok, of "''d1''", folded s1]] d
    unfolding d(2) by simp
  ultimately have False using assign_paid_once[OF ok 1 2] by simp
  then show False .
qed



text \<open>
  C21: reserved tasks. In every state of the queue, a task with a designated agent is only ever
  claimed, completed, accepted or paid in that agent's name, on the auction path too, and the message
  indexes agree with the records: a claim or completion message leads to a task that is in that stage
  under that very message.
\<close>

theorem reserved_task_holder:
  assumes "s = foldl assign_event (noAssigns opKey) es"
  shows "(\<forall>a r. assign s a = Some r \<and> held (Status r) \<and> ExclusiveSender r \<noteq> ''''
            \<longrightarrow> ClaimantKey r = ExclusiveSender r)
    \<and> (\<forall>c a. claimMsgToAssign s c = Some a \<longrightarrow>
          (\<exists>r. assign s a = Some r \<and> Status r = AssignClaimed \<and> ClaimMsgID r = c))
    \<and> (\<forall>c a. map_of (pendingAssignResults s) c = Some a \<longrightarrow>
          (\<exists>r. assign s a = Some r \<and> Status r = AssignCompleted \<and> CompleteMsgID r = c))"
  using aq.inv_run[OF noAssigns_ok, of opKey es] unfolding assms assign_ok_def rec_ok_def by blast

text \<open>A task reserved for one agent: another agent's claim is turned down, its own stands.\<close>

definition reservedLog :: "message list" where
  "reservedLog =
    [amsg ''a1'' TagAssign ''op'' [] [(''reward'', JInt 10), (''exclusive_sender'', JStr ''w'')],
     amsg ''x1'' TagAssignClaim ''v'' [''a1''] [],
     amsg ''c1'' TagAssignClaim ''w'' [''a1''] []]"

theorem reserved_task_holder_witness:
  "\<exists>r. assign (foldl assign_event (noAssigns ''op'') (map Folded reservedLog)) ''a1'' = Some r
     \<and> Status r = AssignClaimed \<and> ExclusiveSender r = ''w'' \<and> ClaimantKey r = ''w'' \<and> ClaimMsgID r = ''c1''"
proof -
  let ?s = "foldl assign_event (noAssigns ''op'') (map Folded reservedLog)"
  have c: "claimMsgToAssign ?s ''c1'' = Some ''a1''" "map_option ExclusiveSender (assign ?s ''a1'') = Some ''w''"
    by code_simp+
  note inv = reserved_task_holder[of ?s "''op''" "map Folded reservedLog"]
  then obtain r where r: "assign ?s ''a1'' = Some r" "Status r = AssignClaimed" "ClaimMsgID r = ''c1''"
    using c(1) by blast
  moreover have "ExclusiveSender r = ''w''" using c(2) r(1) by simp
  moreover have "ClaimantKey r = ExclusiveSender r" using inv r calculation by (simp add: held_def)
  ultimately show ?thesis by auto
qed

text \<open>
  An agent with a claim can win an auction on top of it: closing the auction overwrites the agent's
  slot in \<open>claimedAssigns\<close>, and both tasks are claimed in its name.
\<close>

lemma auction_winner_second_claim:
  "map_option (\<lambda>r. (Status r, ClaimantKey r)) (assign (foldl assign_event (noAssigns ''op'') (map Folded (auctionLog @
      [amsg ''c'' TagAssignClaim ''w'' [''a1''] [], amsg ''z'' TagAssignAuctionClose ''op'' [''a2''] []]))) ''a1'')
     = Some (AssignClaimed, ''w'')
   \<and> map_option (\<lambda>r. (Status r, ClaimantKey r)) (assign (foldl assign_event (noAssigns ''op'') (map Folded (auctionLog @
      [amsg ''c'' TagAssignClaim ''w'' [''a1''] [], amsg ''z'' TagAssignAuctionClose ''op'' [''a2''] []]))) ''a2'')
     = Some (AssignClaimed, ''w'')"
  by code_simp

end
