(* ===== verification/State_Inventory.thy ===== *)
theory State_Inventory
  imports State_Assign Nip44
begin

text \<open>
  The put side of the exchange (\<open>pkg/exchange/state_put.go\<close>): content under offer, the decryption of
  a confidential put, the quality gates, deduplication by content hash, the offload of large content
  to a blob store and the classification of reusable artifacts.
\<close>

section \<open>Entries and state\<close>

text \<open>A nil \<open>Content\<close> and an empty one are the same to every reader; both are the empty string.\<close>

record InventoryEntry =
  EntryID :: string
  PutMsgID :: string
  SellerKey :: string
  Description :: string
  ContentHash :: string
  ContentType :: string
  Domains :: "string list"
  TokenCost :: i64
  ContentSize :: i64
  PutPrice :: i64
  ExpiresAt :: gtime
  PutTimestamp :: i64
  AcceptedProvenanceLevel :: i64
  NeedsRevalidation :: bool
  CompressedFrom :: string
  CompressionTier :: string
  Content :: string
  BlobPointer :: string
  WrappedCEKOperator :: string
  CiphertextHash :: string
  Teaser :: string
  LegacyPlaintext :: bool
  HighReuseCoherent :: bool

record put_state = assign_state +
  inventory :: "(string \<times> InventoryEntry) list"
  pendingPuts :: "(string \<times> InventoryEntry) list"
  putToEntry :: "string \<rightharpoonup> string"
  heldForReview :: "string set"
  contentHashIndex :: "string set"

text \<open>
  What a fold of puts takes from outside: the operator's signer (\<open>None\<close> is the nil signer of the
  individual tier), NIP-44's libraries, ChaCha20-Poly1305 (\<open>aeadOpen key nonce sealed\<close>), the blob store
  (\<open>None\<close> when none is configured) and the verdict of the TF-IDF embedder, whose sums of doubles run in
  map order: \<open>similar a b\<close> is \<open>Similarity(Embed(a), Embed(b)) >= minHighReuseCoherence\<close>.
\<close>

record put_env =
  operatorSigner :: "(string \<Rightarrow> string option) option"
  nip44Lib :: nip44_lib
  aeadOpen :: "string \<Rightarrow> string \<Rightarrow> string \<Rightarrow> string option"
  blobPut :: "(string \<Rightarrow> string option) option"
  similar :: "string \<Rightarrow> string \<Rightarrow> bool"

abbreviation MaxDescriptionBytes :: nat where "MaxDescriptionBytes \<equiv> 65536"
abbreviation MaxDomainsCount :: nat where "MaxDomainsCount \<equiv> 5"
abbreviation MaxTokenCost :: i64 where "MaxTokenCost \<equiv> 2147483647"
abbreviation MaxContentBytes :: nat where "MaxContentBytes \<equiv> 1048576"
abbreviation MaxTeaserBytes :: nat where "MaxTeaserBytes \<equiv> 4096"
abbreviation BlossomOffloadThreshold :: nat where "BlossomOffloadThreshold \<equiv> 32768"
abbreviation MaxTokensPerByte :: i64 where "MaxTokensPerByte \<equiv> 1000"
abbreviation MinTokenCost :: i64 where "MinTokenCost \<equiv> 200"

definition LegacyGrandfatherTTL :: int where
  "LegacyGrandfatherTTL = 30 * 24 * hour"

definition sha256Ref :: "string \<Rightarrow> string" where
  "sha256Ref b = ''sha256:'' @ hex (sha256 b)"

section \<open>The payload\<close>

record encEnvelope =
  ContentAlg :: string
  enc_CiphertextHash :: string
  Ciphertext :: string
  enc_BlobPointer :: string
  KeyWrapAlg :: string
  KeyWrapRecipient :: string
  KeyWrapWrapped :: string

record PutPayload =
  pp_V :: i64
  pp_Description :: string
  pp_Teaser :: string
  pp_Content :: string
  pp_TokenCost :: i64
  pp_ContentType :: string
  pp_Domains :: "string list"
  pp_ContentSize :: i64
  pp_CompressionTier :: string
  pp_Enc :: "encEnvelope option"

definition encZero :: encEnvelope where
  "encZero = \<lparr>ContentAlg = '''', enc_CiphertextHash = '''', Ciphertext = '''', enc_BlobPointer = '''',
     KeyWrapAlg = '''', KeyWrapRecipient = '''', KeyWrapWrapped = ''''\<rparr>"

definition putZero :: PutPayload where
  "putZero = \<lparr>pp_V = 0, pp_Description = '''', pp_Teaser = '''', pp_Content = '''', pp_TokenCost = 0,
     pp_ContentType = '''', pp_Domains = [], pp_ContentSize = 0, pp_CompressionTier = '''', pp_Enc = None\<rparr>"

text \<open>The anonymous struct \<open>key_wrap\<close> is flattened into the envelope.\<close>

definition keyWrapFields :: "encEnvelope fields" where
  "keyWrapFields = [(''alg'', on_field dec_string KeyWrapAlg KeyWrapAlg_update),
     (''recipient'', on_field dec_string KeyWrapRecipient KeyWrapRecipient_update),
     (''wrapped'', on_field dec_string KeyWrapWrapped KeyWrapWrapped_update)]"

definition encFields :: "encEnvelope fields" where
  "encFields = [(''content_alg'', on_field dec_string ContentAlg ContentAlg_update),
     (''ciphertext_hash'', on_field dec_string enc_CiphertextHash enc_CiphertextHash_update),
     (''ciphertext'', on_field dec_string Ciphertext Ciphertext_update),
     (''blob_pointer'', on_field dec_string enc_BlobPointer enc_BlobPointer_update),
     (''key_wrap'', dec_struct keyWrapFields)]"

text \<open>A pointer to a struct: \<open>null\<close> makes it nil, anything else allocates the struct first.\<close>

fun dec_enc :: "json \<Rightarrow> encEnvelope option \<Rightarrow> encEnvelope option \<times> bool" where
  "dec_enc JNull old = (None, True)"
| "dec_enc j old = (case dec_struct encFields j (case old of None \<Rightarrow> encZero | Some e \<Rightarrow> e) of
     (e, ok) \<Rightarrow> (Some e, ok))"

definition putFields :: "PutPayload fields" where
  "putFields = [(''v'', on_field dec_i64 pp_V pp_V_update),
     (''description'', on_field dec_string pp_Description pp_Description_update),
     (''teaser'', on_field dec_string pp_Teaser pp_Teaser_update),
     (''content'', on_field dec_string pp_Content pp_Content_update),
     (''token_cost'', on_field dec_i64 pp_TokenCost pp_TokenCost_update),
     (''content_type'', on_field dec_string pp_ContentType pp_ContentType_update),
     (''domains'', on_field (dec_slice dec_string '''') pp_Domains pp_Domains_update),
     (''content_size'', on_field dec_i64 pp_ContentSize pp_ContentSize_update),
     (''compression_tier'', on_field dec_string pp_CompressionTier pp_CompressionTier_update),
     (''enc'', on_field dec_enc pp_Enc pp_Enc_update)]"

definition prefetchFields :: "PutPayload fields" where
  "prefetchFields = [(''v'', on_field dec_i64 pp_V pp_V_update), (''enc'', on_field dec_enc pp_Enc pp_Enc_update)]"

section \<open>Reusable artifacts\<close>

definition isTestLikeDescription :: "string \<Rightarrow> bool" where
  "isTestLikeDescription desc =
     (let lower = toLower (trimSpace desc)
      in lower = ''test'' \<or> hasPrefix lower ''upgrade smoke test'')"

definition isWordChar :: "char \<Rightarrow> bool" where
  "isWordChar c = (let n = byte c in (97 \<le> n \<and> n \<le> 122) \<or> (48 \<le> n \<and> n \<le> 57)
     \<or> c = CHR ''.'' \<or> c = CHR ''_'' \<or> c = CHR ''/'' \<or> c = CHR ''-'')"

definition tokenizeDescription :: "string \<Rightarrow> string list" where
  "tokenizeDescription desc = fieldsFunc (\<lambda>c. \<not> isWordChar c) (toLower desc)"

definition highReuseStopwords :: "string list" where
  "highReuseStopwords = [''the'', ''a'', ''an'', ''and'', ''or'', ''of'', ''to'', ''in'',
    ''on'', ''for'', ''with'', ''at'', ''by'', ''as'', ''is'', ''are'',
    ''my'', ''our'', ''this'', ''that'', ''it'', ''its'', ''from'',
    ''into'', ''new'', ''all'', ''any'', ''some'', ''be'', ''was'']"

definition isContentBearingToken :: "string \<Rightarrow> bool" where
  "isContentBearingToken tok =
     (if length tok < 4 then False
      else if tok \<in> set highReuseStopwords then False
      else let runs = fieldsFunc (\<lambda>c. c = CHR ''.'' \<or> c = CHR ''_'' \<or> c = CHR ''/'' \<or> c = CHR ''-'') tok
        in \<not> (length runs > 1 \<and> list_all (\<lambda>r. length r \<le> 1) runs))"

definition highReuseKeywords :: "(string \<times> string list) list" where
  "highReuseKeywords =
     [(''checklist'', [''schema'', ''conformance'', ''correctness'', ''protocol'', ''validation'']),
      (''readme'', [''protocol'', ''setup'', ''config'', ''install'', ''bootstrap'', ''integration'']),
      (''ci path filter'', [''conformance'', ''ci'', ''filter'', ''config'', ''pipeline'']),
      (''ci config'', [''filter'', ''conformance'', ''pipeline'', ''fragment'', ''plug-and-play'']),
      (''test pattern'', [''go'', ''rust'', ''python'', ''java'', ''typescript'', ''flock'', ''lock'',
        ''contention'', ''idiomatic'', ''idiom'']),
      (''migration recipe'', [''step'', ''procedure'', ''runbook'', ''bridge'', ''symlink'', ''upgrade'']),
      (''migrate'', [''recipe'', ''runbook'', ''bridge'', ''symlink'', ''procedure'', ''step-by-step''])]"

definition tokensMatchAt :: "string list \<Rightarrow> nat \<Rightarrow> string list \<Rightarrow> bool" where
  "tokensMatchAt tokens start sq = (take (length sq) (drop start tokens) = sq)"

text \<open>
  The nouns outside the trigger cluster (the primary at \<open>p .. p + k - 1\<close> and the co-signal at \<open>i\<close>), and
  the candidates in the order the three nested loops meet them.
\<close>

definition contextNouns :: "string list \<Rightarrow> nat \<Rightarrow> nat \<Rightarrow> nat \<Rightarrow> string list" where
  "contextNouns tokens p k i =
     map (\<lambda>j. tokens ! j) (filter (\<lambda>j. \<not> (p \<le> j \<and> j < p + k) \<and> j \<noteq> i \<and> isContentBearingToken (tokens ! j))
       [0..<length tokens])"

definition clusters :: "string list \<Rightarrow> (string \<times> string list) \<Rightarrow> string list list" where
  "clusters tokens cls =
     (let prim = fieldsFunc (\<lambda>c. c = CHR '' '') (fst cls); k = length prim
      in concat (map (\<lambda>p.
           if \<not> tokensMatchAt tokens p prim then []
           else map (contextNouns tokens p k)
             (filter (\<lambda>i. \<not> (p \<le> i \<and> i < p + k) \<and> tokens ! i \<in> set (snd cls))
               [p - 3..<min (p + k + 3) (length tokens)]))
         [0..<Suc (length tokens) - k]))"

definition highReuseStructuralMatch :: "InventoryEntry \<Rightarrow> string list option" where
  "highReuseStructuralMatch e =
     (if ContentType e \<notin> {''code'', ''analysis'', ''summary''} then None
      else let tokens = tokenizeDescription (Description e) in
        if length tokens < 5 then None
        else find (\<lambda>ns. length ns \<ge> 2) (concat (map (clusters tokens) highReuseKeywords)))"

definition descriptionContentCoherent :: "put_env \<Rightarrow> string list \<Rightarrow> string \<Rightarrow> bool" where
  "descriptionContentCoherent env nouns content =
     (nouns = [] \<or> content = '''' \<or> similar env (join '' '' nouns) (take 8192 content))"

definition IsHighReuseArtifact :: "put_env \<Rightarrow> InventoryEntry \<Rightarrow> bool" where
  "IsHighReuseArtifact env e = (case highReuseStructuralMatch e of None \<Rightarrow> False
     | Some nouns \<Rightarrow> if BlobPointer e \<noteq> '''' then HighReuseCoherent e
                    else descriptionContentCoherent env nouns (Content e))"

definition teaserCoherent :: "put_env \<Rightarrow> string \<Rightarrow> string \<Rightarrow> bool" where
  "teaserCoherent env teaser content =
     descriptionContentCoherent env (filter isContentBearingToken (tokenizeDescription teaser)) content"

section \<open>Confidential puts\<close>

definition encWellFormed :: "encEnvelope option \<Rightarrow> bool" where
  "encWellFormed eo = (case eo of None \<Rightarrow> False | Some e \<Rightarrow>
     if ContentAlg e = '''' \<or> enc_CiphertextHash e = '''' then False
     else if KeyWrapAlg e = '''' \<or> KeyWrapRecipient e = '''' \<or> KeyWrapWrapped e = '''' then False
     else (Ciphertext e \<noteq> '''') \<noteq> (enc_BlobPointer e \<noteq> ''''))"

definition isLegacyPlaintextPut :: "i64 \<Rightarrow> encEnvelope option \<Rightarrow> string \<Rightarrow> bool" where
  "isLegacyPlaintextPut v enc content \<longleftrightarrow> v < 2 \<and> enc = None \<and> content \<noteq> ''''"

text \<open>The ciphertext: the prefetched blob, or the inline base64 within its size limits.\<close>

definition putCiphertext :: "encEnvelope \<Rightarrow> (string \<rightharpoonup> string) \<Rightarrow> string option" where
  "putCiphertext e blobs =
     (if enc_BlobPointer e \<noteq> '''' then
        (case blobs (enc_BlobPointer e) of None \<Rightarrow> None
         | Some fetched \<Rightarrow> if length fetched > MaxContentBytes then None else Some fetched)
      else if length (Ciphertext e) > MaxContentBytes * 4 div 3 + 4 then None
      else case b64_decode (Ciphertext e) of None \<Rightarrow> None
        | Some d \<Rightarrow> if length d > BlossomOffloadThreshold + 12 + 16 then None else Some d)"

definition decryptV2Put :: "put_env \<Rightarrow> string \<Rightarrow> encEnvelope \<Rightarrow> (string \<rightharpoonup> string) \<Rightarrow> string option" where
  "decryptV2Put env seller e blobs =
     (case operatorSigner env of None \<Rightarrow> None
      | Some ecdh \<Rightarrow>
        if ContentAlg e \<noteq> ''chacha20poly1305'' then None
        else case putCiphertext e blobs of None \<Rightarrow> None
        | Some ct \<Rightarrow>
          if sha256Ref ct \<noteq> enc_CiphertextHash e then None
          else case Open (nip44Lib env) ecdh seller (KeyWrapWrapped e) of None \<Rightarrow> None
          | Some cek \<Rightarrow>
            if length cek \<noteq> 32 then None
            else if length ct < 12 then None
            else aeadOpen env cek (take 12 ct) (drop 12 ct))"

section \<open>applyPut\<close>

text \<open>
  The fail-closed rule of the team tier. \<open>None\<close> is a drop; \<open>Some True\<close> marks a plaintext put that is
  grandfathered: one of the log under replay that the operator has accepted in that log.
\<close>

definition isV2 :: "PutPayload \<Rightarrow> bool" where
  "isV2 p \<longleftrightarrow> pp_V p \<ge> 2 \<and> pp_Enc p \<noteq> None"

definition putAdmission :: "'z core_state_scheme \<Rightarrow> message \<Rightarrow> PutPayload \<Rightarrow> bool option" where
  "putAdmission s msg p =
     (if encryptedRequired s \<and> (\<not> isV2 p \<or> pp_Content p \<noteq> '''' \<or> \<not> encWellFormed (pp_Enc p)) then
        (if replaying s \<and> isReplayMsg s (ID msg) \<and> ID msg \<in> replayPutAccepts s
            \<and> isLegacyPlaintextPut (pp_V p) (pp_Enc p) (pp_Content p)
         then Some True else None)
      else Some False)"

text \<open>The plaintext, with the wrapped key and the ciphertext hash of a confidential put.\<close>

definition putPlaintext :: "put_env \<Rightarrow> message \<Rightarrow> PutPayload \<Rightarrow> (string \<rightharpoonup> string)
    \<Rightarrow> (string \<times> string \<times> string) option" where
  "putPlaintext env msg p blobs =
     (case (if pp_V p \<ge> 2 then pp_Enc p else None) of
        Some e \<Rightarrow> map_option (\<lambda>pt. (pt, KeyWrapWrapped e, enc_CiphertextHash e))
          (decryptV2Put env (Sender msg) e blobs)
      | None \<Rightarrow>
          if pp_Content p = '''' then None
          else if length (pp_Content p) > MaxContentBytes * 4 div 3 + 4 then None
          else map_option (\<lambda>b. (b, '''', '''')) (b64_decode (pp_Content p)))"

definition putGates :: "PutPayload \<Rightarrow> string \<Rightarrow> bool" where
  "putGates p b =
     (if length (pp_Description p) > MaxDescriptionBytes then False
      else if length (pp_Domains p) > MaxDomainsCount then False
      else if pp_TokenCost p \<le> 0 \<or> pp_TokenCost p > MaxTokenCost then False
      else if length b = 0 then False
      else if length b > MaxContentBytes then False
      else if pp_TokenCost p > max 1 (int (length b) * MaxTokensPerByte) then False
      else if pp_TokenCost p < MinTokenCost then False
      else if isTestLikeDescription (pp_Description p) then False
      else \<not> length (pp_Teaser p) > MaxTeaserBytes)"

text \<open>Where the bytes go: \<open>(Content, BlobPointer)\<close>, or \<open>None\<close> when the upload fails.\<close>

definition placeContent :: "put_env \<Rightarrow> PutPayload \<Rightarrow> string \<Rightarrow> (string \<times> string) option" where
  "placeContent env p b =
     (case (if pp_V p \<ge> 2 then pp_Enc p else None) of
        Some e \<Rightarrow> if enc_BlobPointer e \<noteq> '''' then Some ('''', enc_BlobPointer e) else Some (b, '''')
      | None \<Rightarrow>
          (case blobPut env of
             Some upload \<Rightarrow> if length b > BlossomOffloadThreshold
               then map_option (\<lambda>ptr. ('''', ptr)) (upload b) else Some (b, '''')
           | None \<Rightarrow> Some (b, '''')))"

definition validTier :: "string \<Rightarrow> string" where
  "validTier t = (if t \<in> {''hot'', ''warm'', ''cold''} then t else '''')"

definition newEntry :: "put_env \<Rightarrow> message \<Rightarrow> PutPayload \<Rightarrow> bool \<Rightarrow> string \<times> string \<times> string
    \<Rightarrow> string \<times> string \<Rightarrow> InventoryEntry" where
  "newEntry env msg p grandfathered = (\<lambda>(b, wrapped, cth) (content, ptr).
     let e = \<lparr>EntryID = ID msg, PutMsgID = ID msg, SellerKey = Sender msg,
           Description = pp_Description p, ContentHash = sha256Ref b,
           ContentType = stripTagPrefix (pp_ContentType p) ''exchange:content-type:'',
           Domains = stripDomainPrefixes (pp_Domains p), TokenCost = pp_TokenCost p,
           ContentSize = int (length b), PutPrice = 0,
           ExpiresAt = (if grandfathered then Timestamp msg + LegacyGrandfatherTTL else zero_time),
           PutTimestamp = Timestamp msg, AcceptedProvenanceLevel = 0, NeedsRevalidation = False,
           CompressedFrom = '''', CompressionTier = validTier (pp_CompressionTier p),
           Content = content, BlobPointer = ptr, WrappedCEKOperator = wrapped, CiphertextHash = cth,
           Teaser = (if pp_Teaser p \<noteq> '''' \<and> \<not> teaserCoherent env (pp_Teaser p) b then '''' else pp_Teaser p),
           LegacyPlaintext = grandfathered, HighReuseCoherent = False\<rparr>
     in if ptr \<noteq> ''''
        then e\<lparr>HighReuseCoherent := (case highReuseStructuralMatch e of None \<Rightarrow> True
                 | Some nouns \<Rightarrow> descriptionContentCoherent env nouns b)\<rparr>
        else e)"

text \<open>Everything before the state is written: the entry a put stands for, or \<open>None\<close> when it is dropped.\<close>

definition putEntry :: "put_env \<Rightarrow> 'z put_state_scheme \<Rightarrow> message \<Rightarrow> (string \<rightharpoonup> string) \<Rightarrow> InventoryEntry option" where
  "putEntry env s msg blobs = (case unmarshal putFields (Payload msg) putZero of (p, ok) \<Rightarrow>
     if \<not> ok then None
     else case putAdmission s msg p of None \<Rightarrow> None
     | Some grandfathered \<Rightarrow>
       (case putPlaintext env msg p blobs of None \<Rightarrow> None
        | Some (b, wrapped, cth) \<Rightarrow>
          if \<not> putGates p b then None
          else if sha256Ref b \<in> contentHashIndex s then None
          else map_option (newEntry env msg p grandfathered (b, wrapped, cth)) (placeContent env p b)))"

definition applyPut :: "put_env \<Rightarrow> 'z put_state_scheme \<Rightarrow> message \<Rightarrow> (string \<rightharpoonup> string) \<Rightarrow> 'z put_state_scheme" where
  "applyPut env s msg blobs = (case putEntry env s msg blobs of None \<Rightarrow> s
     | Some e \<Rightarrow> s\<lparr>pendingPuts := AList.update (ID msg) e (pendingPuts s),
                 putToEntry := (putToEntry s)(ID msg \<mapsto> ID msg),
                 contentHashIndex := insert (ContentHash e) (contentHashIndex s)\<rparr>)"

section \<open>Prefetching blobs\<close>

text \<open>
  \<open>fetch\<close> is \<open>fetchBlobBounded\<close> on the configured store: an error and a timeout are \<open>None\<close>. Each
  pointer is fetched once, outside the lock; \<open>attempted\<close> is the set of pointers tried so far.
\<close>

definition putPointer :: "message \<Rightarrow> string option" where
  "putPointer msg =
     (if exchangeOp (Tags msg) \<noteq> TagPut then None
      else case unmarshal prefetchFields (Payload msg) putZero of (p, ok) \<Rightarrow>
        if \<not> ok \<or> pp_V p < 2 then None
        else case pp_Enc p of None \<Rightarrow> None
        | Some e \<Rightarrow> if enc_BlobPointer e = '''' then None else Some (enc_BlobPointer e))"

fun prefetchLoop :: "(string \<Rightarrow> string option) \<Rightarrow> string set \<Rightarrow> (string \<rightharpoonup> string) \<Rightarrow> message list
    \<Rightarrow> (string \<rightharpoonup> string)" where
  "prefetchLoop fetch attempted out [] = out"
| "prefetchLoop fetch attempted out (m # ms) = (case putPointer m of None \<Rightarrow> prefetchLoop fetch attempted out ms
     | Some ptr \<Rightarrow>
       if ptr \<in> attempted then prefetchLoop fetch attempted out ms
       else prefetchLoop fetch (insert ptr attempted)
         (case fetch ptr of None \<Rightarrow> out | Some b \<Rightarrow> out(ptr \<mapsto> b)) ms)"

definition prefetchPutBlobs :: "(string \<Rightarrow> string option) option \<Rightarrow> message list \<Rightarrow> (string \<rightharpoonup> string)" where
  "prefetchPutBlobs store msgs = (case store of None \<Rightarrow> Map.empty
     | Some fetch \<Rightarrow> prefetchLoop fetch {} Map.empty msgs)"

section \<open>What a put does to the state\<close>

lemma applyPut_frame [simp]:
  "core_state.truncate (applyPut env s msg blobs) = core_state.truncate s"
  "assign_state.truncate (applyPut env s msg blobs) = assign_state.truncate s"
  "inventory (applyPut env s msg blobs) = inventory s"
  "heldForReview (applyPut env s msg blobs) = heldForReview s"
  "put_state.more (applyPut env s msg blobs) = put_state.more s"
  "OperatorKey (applyPut env s msg blobs) = OperatorKey s"
  "encryptedRequired (applyPut env s msg blobs) = encryptedRequired s"
  "replaying (applyPut env s msg blobs) = replaying s"
  "replayPutAccepts (applyPut env s msg blobs) = replayPutAccepts s"
  "replayMsgIDs (applyPut env s msg blobs) = replayMsgIDs s"
  by (simp_all add: applyPut_def core_state.truncate_def assign_state.truncate_def split: option.split)

lemma applyPut_None: "putEntry env s msg blobs = None \<Longrightarrow> applyPut env s msg blobs = s"
  by (simp add: applyPut_def)

text \<open>The decisions behind an accepted put.\<close>

lemma putEntry_Some:
  assumes "putEntry env s msg blobs = Some e"
  obtains p gf b w c content ptr where
    "unmarshal putFields (Payload msg) putZero = (p, True)"
    "putAdmission s msg p = Some gf" "putPlaintext env msg p blobs = Some (b, w, c)"
    "putGates p b" "sha256Ref b \<notin> contentHashIndex s" "placeContent env p b = Some (content, ptr)"
    "e = newEntry env msg p gf (b, w, c) (content, ptr)"
proof -
  obtain p ok where u: "unmarshal putFields (Payload msg) putZero = (p, ok)" by (metis surj_pair)
  with assms have ok: "ok" by (simp add: putEntry_def split: if_splits)
  then obtain gf where gf: "putAdmission s msg p = Some gf" using assms u by (auto simp: putEntry_def split: option.splits)
  then obtain b w c where pt: "putPlaintext env msg p blobs = Some (b, w, c)"
    using assms u ok by (auto simp: putEntry_def split: option.splits)
  with assms u ok gf show thesis
    by (auto simp: putEntry_def split: if_splits intro!: that[of p gf b w c])
qed

lemma newEntry_fields [simp]:
  "EntryID (newEntry env msg p gf (b, w, c) (ct, ptr)) = ID msg"
  "PutMsgID (newEntry env msg p gf (b, w, c) (ct, ptr)) = ID msg"
  "SellerKey (newEntry env msg p gf (b, w, c) (ct, ptr)) = Sender msg"
  "Description (newEntry env msg p gf (b, w, c) (ct, ptr)) = pp_Description p"
  "ContentHash (newEntry env msg p gf (b, w, c) (ct, ptr)) = sha256Ref b"
  "Domains (newEntry env msg p gf (b, w, c) (ct, ptr)) = stripDomainPrefixes (pp_Domains p)"
  "TokenCost (newEntry env msg p gf (b, w, c) (ct, ptr)) = pp_TokenCost p"
  "ContentSize (newEntry env msg p gf (b, w, c) (ct, ptr)) = int (length b)"
  "ExpiresAt (newEntry env msg p gf (b, w, c) (ct, ptr))
     = (if gf then Timestamp msg + LegacyGrandfatherTTL else zero_time)"
  "CompressionTier (newEntry env msg p gf (b, w, c) (ct, ptr)) = validTier (pp_CompressionTier p)"
  "Content (newEntry env msg p gf (b, w, c) (ct, ptr)) = ct"
  "BlobPointer (newEntry env msg p gf (b, w, c) (ct, ptr)) = ptr"
  "WrappedCEKOperator (newEntry env msg p gf (b, w, c) (ct, ptr)) = w"
  "CiphertextHash (newEntry env msg p gf (b, w, c) (ct, ptr)) = c"
  "LegacyPlaintext (newEntry env msg p gf (b, w, c) (ct, ptr)) = gf"
  "length (Teaser (newEntry env msg p gf (b, w, c) (ct, ptr))) \<le> length (pp_Teaser p)"
  by (simp_all add: newEntry_def Let_def)

lemma putGates_bounds:
  "putGates p b \<Longrightarrow> length (pp_Description p) \<le> MaxDescriptionBytes \<and> length (pp_Domains p) \<le> MaxDomainsCount
    \<and> MinTokenCost \<le> pp_TokenCost p \<and> pp_TokenCost p \<le> MaxTokenCost
    \<and> b \<noteq> '''' \<and> length b \<le> MaxContentBytes \<and> pp_TokenCost p \<le> int (length b) * MaxTokensPerByte
    \<and> length (pp_Teaser p) \<le> MaxTeaserBytes"
  by (cases b) (auto simp: putGates_def split: if_splits)

lemma placeContent_cases:
  "placeContent env p b = Some (content, ptr) \<Longrightarrow> (content = '''' \<or> (content = b \<and> ptr = ''''))"
  by (auto simp: placeContent_def split: option.splits if_splits)

section \<open>The stock\<close>

text \<open>
  What holds of every entry the exchange offers or considers: its size, cost and text stay within the
  declared bounds, and bytes kept inline are the bytes that were hashed.
\<close>

definition entry_ok :: "InventoryEntry \<Rightarrow> bool" where
  "entry_ok e \<longleftrightarrow> MinTokenCost \<le> TokenCost e \<and> TokenCost e \<le> MaxTokenCost
     \<and> TokenCost e \<le> ContentSize e * MaxTokensPerByte
     \<and> 0 < ContentSize e \<and> ContentSize e \<le> int MaxContentBytes
     \<and> length (Description e) \<le> MaxDescriptionBytes \<and> length (Domains e) \<le> MaxDomainsCount
     \<and> length (Teaser e) \<le> MaxTeaserBytes \<and> CompressionTier e \<in> {'''', ''hot'', ''warm'', ''cold''}
     \<and> (Content e \<noteq> '''' \<longrightarrow> BlobPointer e = '''' \<and> ContentHash e = sha256Ref (Content e)
          \<and> ContentSize e = int (length (Content e)))"

text \<open>
  The engine also stocks derivatives: compressed versions it builds itself when it accepts a compression task
  (\<open>createCompressionDerivative\<close>). Such an entry has an ID derived from the acceptance, which stands in its
  \<open>PutMsgID\<close>, and passes neither the gates of a put nor the deduplication.
\<close>

definition derivativeID :: "string \<Rightarrow> string" where
  "derivativeID acceptMsg = hex (sha256 (acceptMsg @ '':derivative''))"

definition derived :: "InventoryEntry \<Rightarrow> bool" where
  "derived e \<longleftrightarrow> EntryID e = derivativeID (PutMsgID e)"

text \<open>What holds of derivatives too.\<close>

definition kept_ok :: "InventoryEntry \<Rightarrow> bool" where
  "kept_ok e \<longleftrightarrow> MinTokenCost \<le> TokenCost e \<and> TokenCost e \<le> MaxTokenCost
     \<and> (Content e \<noteq> '''' \<longrightarrow> BlobPointer e = '''' \<and> ContentHash e = sha256Ref (Content e)
          \<and> ContentSize e = int (length (Content e)))"

definition hashes :: "(string \<times> InventoryEntry) list \<Rightarrow> string list" where
  "hashes m = map (ContentHash \<circ> snd) m"

definition own :: "(string \<times> InventoryEntry) list \<Rightarrow> (string \<times> InventoryEntry) list" where
  "own m = filter (\<lambda>x. \<not> derived (snd x)) m"

definition entries_ok :: "(string \<times> InventoryEntry) list \<Rightarrow> bool" where
  "entries_ok m \<longleftrightarrow> (\<forall>x \<in> set m. EntryID (snd x) = fst x \<and> entry_ok (snd x))"

definition stocked_ok :: "(string \<times> InventoryEntry) list \<Rightarrow> bool" where
  "stocked_ok m \<longleftrightarrow> (\<forall>x \<in> set m. EntryID (snd x) = fst x \<and> kept_ok (snd x) \<and> (derived (snd x) \<or> entry_ok (snd x)))"

definition stock_ok :: "'z put_state_scheme \<Rightarrow> bool" where
  "stock_ok s \<longleftrightarrow> map_ok (pendingPuts s) \<and> map_ok (inventory s)
     \<and> entries_ok (pendingPuts s) \<and> stocked_ok (inventory s)
     \<and> distinct (hashes (pendingPuts s @ own (inventory s)))
     \<and> set (hashes (pendingPuts s @ own (inventory s))) \<subseteq> contentHashIndex s"

lemma entry_kept: "entry_ok e \<Longrightarrow> kept_ok e"
  by (simp add: entry_ok_def kept_ok_def)

lemma putEntry_entry_ok: "putEntry env s msg blobs = Some e \<Longrightarrow> entry_ok e"
  and putEntry_hash: "putEntry env s msg blobs = Some e \<Longrightarrow> ContentHash e \<notin> contentHashIndex s"
  and putEntry_id: "putEntry env s msg blobs = Some e \<Longrightarrow> EntryID e = ID msg"
proof -
  assume "putEntry env s msg blobs = Some e"
  from putEntry_Some[OF this] obtain p gf b w c content ptr where
    g: "putGates p b" and h: "sha256Ref b \<notin> contentHashIndex s"
    and pc: "placeContent env p b = Some (content, ptr)"
    and e: "e = newEntry env msg p gf (b, w, c) (content, ptr)" by metis
  have tier: "CompressionTier e \<in> {'''', ''hot'', ''warm'', ''cold''}" by (simp add: e validTier_def)
  have tz: "length (Teaser e) \<le> MaxTeaserBytes"
    using putGates_bounds[OF g] newEntry_fields(16)[of env msg p gf b w c content ptr] unfolding e by linarith
  show "entry_ok e" using putGates_bounds[OF g] placeContent_cases[OF pc] tier tz
    by (simp add: entry_ok_def e stripDomainPrefixes_def) blast
  show "ContentHash e \<notin> contentHashIndex s" "EntryID e = ID msg" using h by (simp_all add: e)
qed

lemma hashes_append [simp]: "hashes (a @ b) = hashes a @ hashes b"
  by (simp add: hashes_def)

lemma hashes_update:
  "map_ok m \<Longrightarrow> set (hashes (AList.update k v m)) \<subseteq> insert (ContentHash v) (set (hashes m))"
  by (induction m) (auto simp: hashes_def map_ok_def)

lemma distinct_hashes_update:
  "map_ok m \<Longrightarrow> distinct (hashes m) \<Longrightarrow> ContentHash v \<notin> set (hashes m)
    \<Longrightarrow> distinct (hashes (AList.update k v m))"
proof (induction m)
  case Nil
  then show ?case by (simp add: hashes_def)
next
  case (Cons a m)
  have ok: "map_ok m" using Cons.prems by (simp add: map_ok_def)
  show ?case using Cons hashes_update[OF ok, of k v] by (cases a) (auto simp: hashes_def map_ok_def)
qed

lemma own_Cons [simp]: "own [] = []" "own (x # m) = (if derived (snd x) then own m else x # own m)"
  by (simp_all add: own_def)

lemma hashes_Cons [simp]: "hashes [] = []" "hashes (x # m) = ContentHash (snd x) # hashes m"
  by (simp_all add: hashes_def)

lemma hashes_own_update:
  "map_ok m \<Longrightarrow> set (hashes (own (AList.update k v m))) \<subseteq> insert (ContentHash v) (set (hashes (own m)))"
  by (induction m) (auto simp: map_ok_def)

lemma distinct_own_update:
  "map_ok m \<Longrightarrow> distinct (hashes (own m)) \<Longrightarrow> ContentHash v \<notin> set (hashes (own m))
    \<Longrightarrow> distinct (hashes (own (AList.update k v m)))"
proof (induction m)
  case Nil
  then show ?case by simp
next
  case (Cons a m)
  have ok: "map_ok m" using Cons.prems by (simp add: map_ok_def)
  show ?case using Cons hashes_own_update[OF ok, of k v] by (cases a) (auto simp: map_ok_def dest: subsetD split: if_splits)
qed

lemma set_update_subset: "set (AList.update k v m) \<subseteq> insert (k, v) (set m)"
  by (induction m) auto

lemma set_delete_subset: "set (AList.delete k m) \<subseteq> set m"
  by (simp add: AList.delete_eq)

lemma hashes_delete: "set (hashes (AList.delete k m)) \<subseteq> set (hashes m)"
  by (auto simp: hashes_def AList.delete_eq)

lemma distinct_hashes_delete: "distinct (hashes m) \<Longrightarrow> distinct (hashes (AList.delete k m))"
  by (induction m) (auto simp: hashes_def AList.delete_eq)

lemma entries_ok_update: "entries_ok m \<Longrightarrow> EntryID e = k \<Longrightarrow> entry_ok e \<Longrightarrow> entries_ok (AList.update k e m)"
  using set_update_subset[of k e m] unfolding entries_ok_def by fastforce

lemma stocked_ok_update: "stocked_ok m \<Longrightarrow> EntryID e = k \<Longrightarrow> kept_ok e \<Longrightarrow> derived e \<or> entry_ok e \<Longrightarrow>
    stocked_ok (AList.update k e m)"
  using set_update_subset[of k e m] unfolding stocked_ok_def by fastforce

lemma entries_ok_delete: "entries_ok m \<Longrightarrow> entries_ok (AList.delete k m)"
  using set_delete_subset[of k m] unfolding entries_ok_def by blast

lemma stock_ok_put: "stock_ok s \<Longrightarrow> stock_ok (applyPut env s msg blobs)"
proof (cases "putEntry env s msg blobs")
  case (Some e)
  assume ok: "stock_ok s"
  let ?m = "AList.update (ID msg) e (pendingPuts s)"
  have m: "map_ok (pendingPuts s)" and new: "ContentHash e \<notin> set (hashes (pendingPuts s @ own (inventory s)))"
    using ok putEntry_hash[OF Some] by (auto simp: stock_ok_def)
  have "distinct (hashes ?m)"
    using ok m new by (intro distinct_hashes_update) (auto simp: stock_ok_def)
  moreover have "set (hashes ?m) \<inter> set (hashes (own (inventory s))) = {}"
    using ok new hashes_update[OF m, of "ID msg" e] by (auto simp: stock_ok_def)
  moreover have "entries_ok ?m"
    using ok putEntry_entry_ok[OF Some] putEntry_id[OF Some] by (intro entries_ok_update) (auto simp: stock_ok_def)
  moreover have "set (hashes ?m) \<subseteq> insert (ContentHash e) (contentHashIndex s)"
    using ok hashes_update[OF m, of "ID msg" e] by (auto simp: stock_ok_def)
  ultimately show ?thesis using ok by (auto simp: applyPut_def Some stock_ok_def)
qed (simp add: applyPut_None)

section \<open>Prefetching equals fetching\<close>

lemma prefetchLoop_apply:
  "prefetchLoop fetch att out ms ptr =
     (if ptr \<notin> att \<and> Some ptr \<in> putPointer ` set ms
      then (case fetch ptr of None \<Rightarrow> out ptr | Some b \<Rightarrow> Some b) else out ptr)"
proof (induction ms arbitrary: att out)
  case (Cons m ms)
  show ?case
  proof (cases "putPointer m")
    case None
    then show ?thesis using Cons by (auto simp: image_iff)
  next
    case (Some q)
    then show ?thesis using Cons by (auto simp: image_iff split: option.splits)
  qed
qed simp

lemma prefetchPutBlobs_apply:
  "prefetchPutBlobs (Some fetch) ms ptr = (if Some ptr \<in> putPointer ` set ms then fetch ptr else None)"
  by (auto simp: prefetchPutBlobs_def prefetchLoop_apply split: option.splits)

text \<open>Reading two fields out of a put payload gives what reading all of them gives.\<close>

lemma fold_key_put:
  "fold_key ''v'' = ''v''" "fold_key ''description'' = ''description''" "fold_key ''teaser'' = ''teaser''"
  "fold_key ''content'' = ''content''" "fold_key ''token_cost'' = ''token_cost''"
  "fold_key ''content_type'' = ''content_type''" "fold_key ''domains'' = ''domains''"
  "fold_key ''content_size'' = ''content_size''" "fold_key ''compression_tier'' = ''compression_tier''"
  "fold_key ''enc'' = ''enc''"
  by code_simp+

lemma find_field_fold:
  assumes "list_all (\<lambda>f. fold_key (fst f) = fst f) fs"
  shows "find_field fs key = map_of fs (fold_key key)"
proof (cases "map_of fs key")
  case (Some d)
  then have "fold_key key = key" using assms map_of_SomeD[OF Some] by (fastforce simp: list_all_iff)
  with Some show ?thesis by (simp add: find_field_def)
next
  case None
  have "map_option snd (find (\<lambda>f. fold_key (fst f) = q) fs) = map_of fs q" for q
    using assms by (induction fs) auto
  with None show ?thesis by (simp add: find_field_def)
qed

lemma find_put: "find_field putFields key = map_of putFields (fold_key key)"
  and find_prefetch: "find_field prefetchFields key = map_of prefetchFields (fold_key key)"
  by (rule find_field_fold; simp add: putFields_def prefetchFields_def fold_key_put del: fold_key.simps)+

lemma find_field_prefetch:
  "find_field putFields key = find_field prefetchFields key \<or>
   (find_field prefetchFields key = None \<and> (\<exists>d. find_field putFields key = Some d
      \<and> (\<forall>j r. pp_V (fst (d j r)) = pp_V r \<and> pp_Enc (fst (d j r)) = pp_Enc r)))"
  unfolding find_put find_prefetch
  by (simp add: putFields_def prefetchFields_def on_field_def split_beta del: fold_key.simps)

lemma find_field_prefetch_same:
  "find_field prefetchFields key = Some d \<Longrightarrow> pp_V r = pp_V r' \<Longrightarrow> pp_Enc r = pp_Enc r' \<Longrightarrow>
    pp_V (fst (d j r)) = pp_V (fst (d j r')) \<and> pp_Enc (fst (d j r)) = pp_Enc (fst (d j r'))
      \<and> snd (d j r) = snd (d j r')"
  unfolding find_prefetch
  by (auto simp: prefetchFields_def on_field_def split_beta simp del: fold_key.simps split: if_splits)

lemma dec_members_prefetch:
  "dec_members putFields kvs r = (p, True) \<Longrightarrow> pp_V r = pp_V r' \<Longrightarrow> pp_Enc r = pp_Enc r' \<Longrightarrow>
    \<exists>p'. dec_members prefetchFields kvs r' = (p', True) \<and> pp_V p' = pp_V p \<and> pp_Enc p' = pp_Enc p"
proof (induction kvs arbitrary: r r')
  case (Cons kv kvs)
  obtain key j where kv: "kv = (key, j)" by (metis surj_pair)
  let ?step = "\<lambda>fs r. case find_field fs key of None \<Rightarrow> (r, True) | Some d \<Rightarrow> d j r"
  obtain r1 where r1: "?step putFields r = (r1, True)" and rest: "dec_members putFields kvs r1 = (p, True)"
    using Cons.prems(1) kv by (auto split: prod.splits)
  obtain r1' ok' where r1': "?step prefetchFields r' = (r1', ok')" by (metis surj_pair)
  have "ok' \<and> pp_V r1 = pp_V r1' \<and> pp_Enc r1 = pp_Enc r1'"
  proof (cases "find_field prefetchFields key")
    case None
    then show ?thesis using find_field_prefetch[of key] r1 r1' Cons.prems(2,3)
      by (auto split: option.splits) (metis fst_conv)+
  next
    case (Some d)
    then have "find_field putFields key = Some d" using find_field_prefetch[of key] by auto
    then show ?thesis using Some r1 r1' find_field_prefetch_same[OF Some Cons.prems(2,3), of j] by simp
  qed
  with Cons.IH[OF rest, of r1'] r1' kv show ?case by auto
qed simp

lemma unmarshal_prefetch:
  assumes "unmarshal putFields pl putZero = (p, True)"
  obtains p' where "unmarshal prefetchFields pl putZero = (p', True)" "pp_V p' = pp_V p" "pp_Enc p' = pp_Enc p"
proof (cases pl)
  case None
  with assms show thesis by simp
next
  case (Some j)
  show thesis
  proof (cases j)
    case (JObj kvs)
    then have "dec_members putFields kvs putZero = (p, True)" using assms Some by (simp add: unmarshal_def)
    from dec_members_prefetch[OF this refl refl] JObj Some show thesis
      by (auto simp: unmarshal_def intro: that)
  qed (use assms Some in \<open>auto simp: unmarshal_def intro: that\<close>)
qed

lemma putPlaintext_cong:
  assumes "\<And>e. 2 \<le> pp_V p \<Longrightarrow> pp_Enc p = Some e \<Longrightarrow> enc_BlobPointer e \<noteq> ''''
      \<Longrightarrow> bs (enc_BlobPointer e) = bs' (enc_BlobPointer e)"
  shows "putPlaintext env msg p bs = putPlaintext env msg p bs'"
proof (cases "2 \<le> pp_V p \<and> pp_Enc p \<noteq> None")
  case True
  then obtain e where e: "pp_Enc p = Some e" "2 \<le> pp_V p" by auto
  then have "putCiphertext e bs = putCiphertext e bs'"
    using assms by (simp add: putCiphertext_def)
  then show ?thesis using e by (simp add: putPlaintext_def decryptV2Put_def split: option.split)
next
  case False
  then show ?thesis by (auto simp: putPlaintext_def)
qed

lemma applyPut_prefetch:
  assumes "msg \<in> set msgs" "exchangeOp (Tags msg) = TagPut"
  shows "applyPut env s msg (prefetchPutBlobs (Some fetch) msgs) = applyPut env s msg fetch"
proof -
  obtain p ok where u: "unmarshal putFields (Payload msg) putZero = (p, ok)" by (metis surj_pair)
  have "putPlaintext env msg p (prefetchPutBlobs (Some fetch) msgs) = putPlaintext env msg p fetch" if ok
  proof (rule putPlaintext_cong)
    fix e assume e: "2 \<le> pp_V p" "pp_Enc p = Some e" "enc_BlobPointer e \<noteq> ''''"
    from u that have "unmarshal putFields (Payload msg) putZero = (p, True)" by simp
    then obtain p' where "unmarshal prefetchFields (Payload msg) putZero = (p', True)"
      "pp_V p' = pp_V p" "pp_Enc p' = pp_Enc p" by (rule unmarshal_prefetch)
    then have "putPointer msg = Some (enc_BlobPointer e)" using e assms(2) by (simp add: putPointer_def)
    then show "prefetchPutBlobs (Some fetch) msgs (enc_BlobPointer e) = fetch (enc_BlobPointer e)"
      using assms(1) by (auto simp: prefetchPutBlobs_apply image_iff intro: bexI[of _ msg])
  qed
  then have "putEntry env s msg (prefetchPutBlobs (Some fetch) msgs) = putEntry env s msg fetch"
    by (cases ok) (simp_all add: putEntry_def u cong: option.case_cong)
  then show ?thesis by (simp add: applyPut_def)
qed

section \<open>The confidentiality gate\<close>

lemma decryptV2Put_Some:
  assumes "decryptV2Put env seller e blobs = Some b"
  obtains ecdh ct cek where "operatorSigner env = Some ecdh" "putCiphertext e blobs = Some ct"
    "sha256Ref ct = enc_CiphertextHash e" "Open (nip44Lib env) ecdh seller (KeyWrapWrapped e) = Some cek"
    "length cek = 32" "aeadOpen env cek (take 12 ct) (drop 12 ct) = Some b"
  using assms by (auto simp: decryptV2Put_def split: option.splits if_splits)

definition grandfathered_put :: "'z put_state_scheme \<Rightarrow> message \<Rightarrow> InventoryEntry \<Rightarrow> bool" where
  "grandfathered_put s msg e \<longleftrightarrow> replaying s \<and> isReplayMsg s (ID msg) \<and> ID msg \<in> replayPutAccepts s
     \<and> ExpiresAt e = Timestamp msg + LegacyGrandfatherTTL
     \<and> (\<exists>p b. unmarshal putFields (Payload msg) putZero = (p, True) \<and> isLegacyPlaintextPut (pp_V p) (pp_Enc p) (pp_Content p)
        \<and> b64_decode (pp_Content p) = Some b \<and> ContentHash e = sha256Ref b)"

definition confidential_put :: "put_env \<Rightarrow> message \<Rightarrow> (string \<rightharpoonup> string) \<Rightarrow> InventoryEntry \<Rightarrow> bool" where
  "confidential_put env msg blobs e \<longleftrightarrow>
     (\<exists>p v ecdh ct cek b. unmarshal putFields (Payload msg) putZero = (p, True)
        \<and> pp_Content p = '''' \<and> 2 \<le> pp_V p \<and> pp_Enc p = Some v \<and> encWellFormed (Some v)
        \<and> operatorSigner env = Some ecdh \<and> putCiphertext v blobs = Some ct \<and> sha256Ref ct = CiphertextHash e
        \<and> Open (nip44Lib env) ecdh (Sender msg) (WrappedCEKOperator e) = Some cek
        \<and> aeadOpen env cek (take 12 ct) (drop 12 ct) = Some b \<and> ContentHash e = sha256Ref b)"

lemma team_put_entry:
  assumes req: "encryptedRequired s" and e: "putEntry env s msg blobs = Some e"
  shows "if LegacyPlaintext e then grandfathered_put s msg e else confidential_put env msg blobs e"
proof -
  from putEntry_Some[OF e] obtain p gf b w c content ptr where
    u: "unmarshal putFields (Payload msg) putZero = (p, True)" and adm: "putAdmission s msg p = Some gf"
    and pt: "putPlaintext env msg p blobs = Some (b, w, c)"
    and en: "e = newEntry env msg p gf (b, w, c) (content, ptr)" by metis
  have gf: "LegacyPlaintext e = gf" by (simp add: en)
  show ?thesis
  proof (cases gf)
    case True
    with adm req have "replaying s" "isReplayMsg s (ID msg)" "ID msg \<in> replayPutAccepts s"
      "isLegacyPlaintextPut (pp_V p) (pp_Enc p) (pp_Content p)"
      by (auto simp: putAdmission_def split: if_splits)
    moreover from this pt have "b64_decode (pp_Content p) = Some b"
      by (auto simp: isLegacyPlaintextPut_def putPlaintext_def split: if_splits)
    ultimately show ?thesis using True u gf by (simp add: grandfathered_put_def en)
  next
    case False
    with adm req have v2: "isV2 p" and nc: "pp_Content p = ''''" and wf: "encWellFormed (pp_Enc p)"
      by (auto simp: putAdmission_def split: if_splits)
    then obtain v where v: "pp_Enc p = Some v" "2 \<le> pp_V p" by (auto simp: isV2_def)
    with pt have "decryptV2Put env (Sender msg) v blobs = Some b" and w: "w = KeyWrapWrapped v" and c: "c = enc_CiphertextHash v"
      by (auto simp: putPlaintext_def)
    from decryptV2Put_Some[OF this(1)] obtain ecdh ct cek where
      "operatorSigner env = Some ecdh" "putCiphertext v blobs = Some ct" "sha256Ref ct = enc_CiphertextHash v"
      "Open (nip44Lib env) ecdh (Sender msg) (KeyWrapWrapped v) = Some cek"
      "aeadOpen env cek (take 12 ct) (drop 12 ct) = Some b" .
    with u nc v wf w c have "confidential_put env msg blobs e"
      unfolding confidential_put_def by (intro exI[of _ p] exI[of _ v] exI[of _ ecdh] exI[of _ ct] exI[of _ cek] exI[of _ b])
        (simp add: en)
    with False gf show ?thesis by simp
  qed
qed

lemma putEntry_gates:
  "putEntry env s msg blobs = Some e \<Longrightarrow> entry_ok e \<and> \<not> isTestLikeDescription (Description e) \<and> ContentHash e \<notin> contentHashIndex s"
proof -
  assume e: "putEntry env s msg blobs = Some e"
  from putEntry_Some[OF e] obtain p gf b w c content ptr where "putGates p b"
    "e = newEntry env msg p gf (b, w, c) (content, ptr)" by metis
  then have "\<not> isTestLikeDescription (Description e)" by (simp add: putGates_def split: if_splits)
  then show ?thesis using putEntry_entry_ok[OF e] putEntry_hash[OF e] by blast
qed

text \<open>
  C29: the team tier is fail-closed. Where encryption is required, a put changes the state only in
  two ways. Either it is confidential: version 2 with a well-formed envelope and no plaintext, its
  ciphertext matches the hash it commits to, the operator's key opens the wrapped key, the AEAD
  authenticates, and the entry carries the hash of the decrypted bytes. Or it is a legacy plaintext
  put, and then a replay is running, the message belongs to the log under replay, that log holds the
  operator's put-accept of it, and the entry expires 30 days after the put. A live plaintext put, also
  one that arrives while a replay is running, is dropped. Either way the entry has passed the quality gates: cost
  between the floor and both ceilings, content, description, domains and teaser within their sizes, no test-like
  description, and content not yet known.
\<close>

theorem team_tier_put_admission:
  assumes "encryptedRequired s" and "applyPut env s msg blobs \<noteq> s"
  shows "\<exists>e. map_of (pendingPuts (applyPut env s msg blobs)) (ID msg) = Some e
    \<and> (if LegacyPlaintext e then grandfathered_put s msg e else confidential_put env msg blobs e)
    \<and> entry_ok e \<and> \<not> isTestLikeDescription (Description e) \<and> ContentHash e \<notin> contentHashIndex s"
proof -
  obtain e where e: "putEntry env s msg blobs = Some e" using assms(2) applyPut_None by fastforce
  then show ?thesis using team_put_entry[OF assms(1) e] putEntry_gates[OF e] by (simp add: applyPut_def)
qed

definition teamState :: put_state where
  "teamState = \<lparr>OperatorKey = ''op'', encryptedRequired = True, onFoldDenialWired = False, denials = [],
     replaying = False, replayPutAccepts = {}, replayMsgIDs = None, wireToStore = Map.empty,
     foldDenialCounted = {}, assignsByEntry = Map.empty, assignByID = [], claimedAssigns = Map.empty,
     pendingAssignResults = [], claimMsgToAssign = Map.empty, completeMsgToAssign = Map.empty,
     brokerAssigns = Map.empty, inventory = [], pendingPuts = [], putToEntry = Map.empty,
     heldForReview = {}, contentHashIndex = {}\<rparr>"

definition demoEnv :: put_env where
  "demoEnv = \<lparr>operatorSigner = Some (\<lambda>_. Some ''shared''), nip44Lib = demoLib,
     aeadOpen = (\<lambda>k n c. Some c), blobPut = None, similar = (\<lambda>a b. True)\<rparr>"

definition demoCt :: string where
  "demoCt = replicate 12 CHR ''n'' @ ''body''"

definition demoPut :: "string \<Rightarrow> message" where
  "demoPut wrapped = \<lparr>ID = ''p1'', Sender = ''seller'',
     Payload = Some (JObj [(''v'', JInt 2), (''description'', JStr ''answer''), (''token_cost'', JInt 200),
       (''enc'', JObj [(''content_alg'', JStr ''chacha20poly1305''),
          (''ciphertext_hash'', JStr (sha256Ref demoCt)),
          (''ciphertext'', JStr (b64_encode demoCt)),
          (''key_wrap'', JObj [(''alg'', JStr ''nip44''), (''recipient'', JStr ''op''), (''wrapped'', JStr wrapped)])])]),
     Tags = [TagPut], Antecedents = [], Timestamp = 1, Instance = ''''\<rparr>"

definition demoPutPayload :: "string \<Rightarrow> PutPayload" where
  "demoPutPayload w = putZero\<lparr>pp_V := 2, pp_Description := ''answer'', pp_TokenCost := 200,
     pp_Enc := Some \<lparr>ContentAlg = ''chacha20poly1305'', enc_CiphertextHash = sha256Ref demoCt,
       Ciphertext = b64_encode demoCt, enc_BlobPointer = '''', KeyWrapAlg = ''nip44'', KeyWrapRecipient = ''op'',
       KeyWrapWrapped = w\<rparr>\<rparr>"

lemma unmarshal_demoPut: "unmarshal putFields (Payload (demoPut w)) putZero = (demoPutPayload w, True)"
  by (simp add: demoPut_def demoPutPayload_def unmarshal_def find_field_def putFields_def putZero_def encFields_def
      keyWrapFields_def encZero_def on_field_def int64_def)

lemma demo_gates: "putGates (demoPutPayload w) ''body''"
proof -
  have "\<not> isTestLikeDescription ''answer''" by code_simp
  then show ?thesis by (simp add: putGates_def demoPutPayload_def putZero_def)
qed

lemma demo_admission: "w \<noteq> '''' \<Longrightarrow> putAdmission teamState (demoPut w) (demoPutPayload w) = Some False"
proof -
  assume "w \<noteq> ''''"
  moreover have "b64_encode demoCt \<noteq> ''''" using length_b64_encode[of demoCt] by (auto simp: demoCt_def)
  moreover have "sha256Ref demoCt \<noteq> ''''" by (simp add: sha256Ref_def)
  ultimately show ?thesis
    by (simp add: putAdmission_def demoPutPayload_def putZero_def isV2_def encWellFormed_def teamState_def)
qed

theorem team_tier_put_admission_witness:
  "\<exists>w e. map_of (pendingPuts (applyPut demoEnv teamState (demoPut w) Map.empty)) ''p1'' = Some e
     \<and> (if LegacyPlaintext e then grandfathered_put teamState (demoPut w) e
        else confidential_put demoEnv (demoPut w) Map.empty e)"
proof -
  have ks: "length (keyStream demoLib k nc n) = n" for k nc n by (simp add: demoLib_def)
  have "length (replicate 32 CHR ''k'') = 32" by simp
  then obtain w where w: "encryptWithNonce demoLib (conversationKeyFromShared demoLib ''shared'') (replicate 32 CHR 0x07)
      (replicate 32 CHR ''k'') = Some w"
    using encrypt_total[of "replicate 32 CHR 0x07" "replicate 32 CHR ''k''"] by auto
  from decrypt_encrypt[OF ks w] have op: "Open demoLib (\<lambda>_. Some ''shared'') ''seller'' w = Some (replicate 32 CHR ''k'')"
    by (simp add: Open_def)
  have wne: "w \<noteq> ''''" using op by (auto simp: Open_def decryptWithConversationKey_def)
  have "decryptV2Put demoEnv ''seller'' (the (pp_Enc (demoPutPayload w))) Map.empty = Some ''body''"
    using op length_b64_encode[of demoCt]
    by (simp add: decryptV2Put_def putCiphertext_def demoPutPayload_def demoEnv_def) (simp add: demoCt_def)
  then have "putPlaintext demoEnv (demoPut w) (demoPutPayload w) Map.empty = Some (''body'', w, sha256Ref demoCt)"
    by (simp add: putPlaintext_def demoPutPayload_def demoPut_def)
  moreover have "placeContent demoEnv (demoPutPayload w) ''body'' = Some (''body'', '''')"
    by (simp add: placeContent_def demoPutPayload_def)
  ultimately have "putEntry demoEnv teamState (demoPut w) Map.empty \<noteq> None"
    using demo_admission[OF wne] demo_gates[of w]
    by (simp add: putEntry_def unmarshal_demoPut teamState_def)
  then have "applyPut demoEnv teamState (demoPut w) Map.empty \<noteq> teamState"
    by (auto simp: applyPut_def teamState_def)
  moreover have "encryptedRequired teamState" by (simp add: teamState_def)
  moreover have "ID (demoPut w) = ''p1''" by (simp add: demoPut_def)
  ultimately show ?thesis using team_tier_put_admission[of teamState demoEnv "demoPut w" Map.empty]
    unfolding \<open>ID (demoPut w) = ''p1''\<close> by blast
qed

section \<open>Accepting and rejecting a put\<close>

record PutAcceptPayload =
  pa_Price :: i64
  pa_ExpiresAt :: string

definition putAcceptFields :: "PutAcceptPayload fields" where
  "putAcceptFields = [(''price'', on_field dec_i64 pa_Price pa_Price_update),
     (''expires_at'', on_field dec_string pa_ExpiresAt pa_ExpiresAt_update)]"

definition acceptTerms :: "payload \<Rightarrow> InventoryEntry \<Rightarrow> InventoryEntry" where
  "acceptTerms pl e = (case unmarshal putAcceptFields pl \<lparr>pa_Price = 0, pa_ExpiresAt = ''''\<rparr> of (p, ok) \<Rightarrow>
     if \<not> ok then e
     else let e1 = e\<lparr>PutPrice := pa_Price p\<rparr> in
       if pa_ExpiresAt p = '''' then e1
       else case parse_rfc3339 (pa_ExpiresAt p) of Some t \<Rightarrow> e1\<lparr>ExpiresAt := t\<rparr> | None \<Rightarrow> e1)"

definition applySettlePutAccept :: "'z put_state_scheme \<Rightarrow> message \<Rightarrow> 'z put_state_scheme" where
  "applySettlePutAccept s msg =
     (if notOperator s msg then recordFoldDenial foldDenialNotOperator s msg
      else case Antecedents msg of [] \<Rightarrow> s
      | putMsg # _ \<Rightarrow>
        (case map_of (pendingPuts s) putMsg of None \<Rightarrow> s
         | Some e \<Rightarrow> s\<lparr>pendingPuts := AList.delete putMsg (pendingPuts s),
             inventory := AList.update (EntryID e) (acceptTerms (Payload msg) e) (inventory s)\<rparr>))"

definition purgeFields :: "bool fields" where
  "purgeFields = [(''purge_content_hash'', dec_bool)]"

definition applySettlePutReject :: "'z put_state_scheme \<Rightarrow> message \<Rightarrow> 'z put_state_scheme" where
  "applySettlePutReject s msg =
     (if notOperator s msg then recordFoldDenial foldDenialNotOperator s msg
      else case Antecedents msg of [] \<Rightarrow> s
      | putMsg # _ \<Rightarrow>
        let s1 = (case map_of (pendingPuts s) putMsg of None \<Rightarrow> s
            | Some e \<Rightarrow> if unmarshal purgeFields (Payload msg) False = (True, True)
                then s\<lparr>contentHashIndex := contentHashIndex s - {ContentHash e}\<rparr> else s)
        in s1\<lparr>pendingPuts := AList.delete putMsg (pendingPuts s1)\<rparr>)"

lemma acceptTerms_fields [simp]:
  "EntryID (acceptTerms pl e) = EntryID e" "ContentHash (acceptTerms pl e) = ContentHash e"
  "TokenCost (acceptTerms pl e) = TokenCost e" "ContentSize (acceptTerms pl e) = ContentSize e"
  "Description (acceptTerms pl e) = Description e" "Domains (acceptTerms pl e) = Domains e"
  "Teaser (acceptTerms pl e) = Teaser e" "CompressionTier (acceptTerms pl e) = CompressionTier e"
  "Content (acceptTerms pl e) = Content e" "BlobPointer (acceptTerms pl e) = BlobPointer e"
  "SellerKey (acceptTerms pl e) = SellerKey e" "LegacyPlaintext (acceptTerms pl e) = LegacyPlaintext e"
  "WrappedCEKOperator (acceptTerms pl e) = WrappedCEKOperator e" "PutMsgID (acceptTerms pl e) = PutMsgID e"
  by (simp_all add: acceptTerms_def Let_def split: prod.split option.split)

lemma entry_ok_acceptTerms [simp]: "entry_ok (acceptTerms pl e) = entry_ok e"
  by (simp add: entry_ok_def)

lemma stock_ok_denial [simp]: "stock_ok (recordFoldDenial r s m) = stock_ok s"
  by (simp add: stock_ok_def recordFoldDenial_def)

lemma map_of_hashes: "map_of m k = Some e \<Longrightarrow> ContentHash e \<in> set (hashes m)"
  by (force simp: hashes_def dest: map_of_SomeD)

lemma hashes_delete_gone:
  "distinct (hashes m) \<Longrightarrow> map_ok m \<Longrightarrow> map_of m k = Some e \<Longrightarrow> ContentHash e \<notin> set (hashes (AList.delete k m))"
proof (induction m)
  case (Cons a m)
  show ?case
  proof (cases "fst a = k")
    case True
    have "k \<notin> set (map fst m)" using Cons.prems True by (auto simp: map_ok_def)
    then have "AList.delete k m = m" by (force simp: AList.delete_eq filter_id_conv)
    with True Cons.prems show ?thesis by (cases a) (auto simp: hashes_def)
  next
    case False
    have gone: "ContentHash e \<notin> set (hashes (AList.delete k m))" and mk: "map_of m k = Some e" using Cons False
      by (auto simp: hashes_def map_ok_def)
    have "ContentHash e \<noteq> ContentHash (snd a)"
      using map_of_hashes[OF mk] Cons.prems(1) by (force simp: hashes_def)
    then show ?thesis using False gone by (cases a) (auto simp: hashes_def)
  qed
qed (simp add: hashes_def)

lemma stock_ok_accept: "stock_ok s \<Longrightarrow> stock_ok (applySettlePutAccept s msg)"
proof (cases "Antecedents msg")
  case (Cons putMsg rest)
  assume ok: "stock_ok s"
  show ?thesis
  proof (cases "map_of (pendingPuts s) putMsg")
    case None
    then show ?thesis using ok Cons by (simp add: applySettlePutAccept_def)
  next
    case (Some e)
    let ?m = "AList.delete putMsg (pendingPuts s)" and ?e = "acceptTerms (Payload msg) e"
    let ?i = "AList.update (EntryID e) ?e (inventory s)"
    from ok have mp: "map_ok (pendingPuts s)" and mi: "map_ok (inventory s)" and ep: "entries_ok (pendingPuts s)"
      and ei: "stocked_ok (inventory s)" and dp: "distinct (hashes (pendingPuts s))"
      and di: "distinct (hashes (own (inventory s)))" and disj: "set (hashes (pendingPuts s)) \<inter> set (hashes (own (inventory s))) = {}"
      and ix: "set (hashes (pendingPuts s)) \<subseteq> contentHashIndex s" "set (hashes (own (inventory s))) \<subseteq> contentHashIndex s"
      by (auto simp: stock_ok_def)
    have he: "ContentHash e \<in> set (hashes (pendingPuts s))" by (rule map_of_hashes[OF Some])
    have eok: "entry_ok e" using ep map_of_SomeD[OF Some] unfolding entries_ok_def by fastforce
    have "ContentHash ?e \<notin> set (hashes (own (inventory s)))" using he disj by auto
    then have "distinct (hashes (own ?i))" by (rule distinct_own_update[OF mi di])
    moreover have "set (hashes (own ?i)) \<subseteq> insert (ContentHash e) (set (hashes (own (inventory s))))"
      using hashes_own_update[OF mi, of "EntryID e" ?e] by simp
    moreover have "ContentHash e \<notin> set (hashes ?m)" by (rule hashes_delete_gone[OF dp mp Some])
    moreover have "stocked_ok ?i" by (rule stocked_ok_update[OF ei]) (simp_all add: eok entry_kept)
    moreover have "set (hashes ?m) \<subseteq> set (hashes (pendingPuts s))" by (rule hashes_delete)
    ultimately have "stock_ok (s\<lparr>pendingPuts := ?m, inventory := ?i\<rparr>)"
      using mp mi ep dp disj ix he entries_ok_delete[OF ep, of putMsg] distinct_hashes_delete[OF dp, of putMsg]
      unfolding stock_ok_def by (simp del: delete_conv') blast
    then show ?thesis using ok Cons Some by (simp add: applySettlePutAccept_def)
  qed
qed (simp add: applySettlePutAccept_def)

lemma stock_ok_reject: "stock_ok s \<Longrightarrow> stock_ok (applySettlePutReject s msg)"
proof (cases "Antecedents msg")
  case (Cons putMsg rest)
  assume ok: "stock_ok s"
  let ?m = "AList.delete putMsg (pendingPuts s)"
  from ok have mp: "map_ok (pendingPuts s)" and ep: "entries_ok (pendingPuts s)"
    and dp: "distinct (hashes (pendingPuts s))"
    and disj: "set (hashes (pendingPuts s)) \<inter> set (hashes (own (inventory s))) = {}"
    by (auto simp: stock_ok_def)
  have sub: "set (hashes ?m) \<subseteq> set (hashes (pendingPuts s))" by (rule hashes_delete)
  have del: "stock_ok (s\<lparr>pendingPuts := ?m\<rparr>)"
    using ok sub entries_ok_delete[OF ep, of putMsg] distinct_hashes_delete[OF dp, of putMsg]
    unfolding stock_ok_def by (simp del: delete_conv') blast
  have "stock_ok (s\<lparr>contentHashIndex := contentHashIndex s - {ContentHash e}, pendingPuts := ?m\<rparr>)"
    if e: "map_of (pendingPuts s) putMsg = Some e" for e
  proof -
    have "ContentHash e \<notin> set (hashes ?m)" by (rule hashes_delete_gone[OF dp mp e])
    moreover have "ContentHash e \<notin> set (hashes (own (inventory s)))" using disj map_of_hashes[OF e] by auto
    ultimately show ?thesis using del unfolding stock_ok_def by (simp del: delete_conv') blast
  qed
  with del show ?thesis using ok Cons
    by (auto simp: applySettlePutReject_def Let_def split: option.split)
qed (simp add: applySettlePutReject_def)

section \<open>Accessors\<close>

text \<open>\<open>now\<close> is the wall clock the accessors read. Listings follow the order of the association lists.\<close>

definition IsExpired :: "gtime \<Rightarrow> InventoryEntry \<Rightarrow> bool" where
  "IsExpired now e \<longleftrightarrow> \<not> is_zero (ExpiresAt e) \<and> now > ExpiresAt e"

definition Inventory :: "gtime \<Rightarrow> 'z put_state_scheme \<Rightarrow> InventoryEntry list" where
  "Inventory now s = filter (\<lambda>e. \<not> IsExpired now e) (map snd (inventory s))"

definition AllInventoryEntries :: "'z put_state_scheme \<Rightarrow> InventoryEntry list" where
  "AllInventoryEntries s = map snd (inventory s)"

definition PendingPuts :: "'z put_state_scheme \<Rightarrow> InventoryEntry list" where
  "PendingPuts s = map snd (pendingPuts s)"

definition GetPendingPut :: "'z put_state_scheme \<Rightarrow> string \<Rightarrow> InventoryEntry option" where
  "GetPendingPut s i = map_of (pendingPuts s) i"

definition GetInventoryEntry :: "'z put_state_scheme \<Rightarrow> string \<Rightarrow> InventoryEntry option" where
  "GetInventoryEntry s i = map_of (inventory s) i"

definition HoldPutForReview :: "string \<Rightarrow> 'z put_state_scheme \<Rightarrow> 'z put_state_scheme" where
  "HoldPutForReview i s = s\<lparr>heldForReview := insert i (heldForReview s)\<rparr>"

definition PruneHeldForReview :: "string set \<Rightarrow> 'z put_state_scheme \<Rightarrow> 'z put_state_scheme" where
  "PruneHeldForReview pending s = s\<lparr>heldForReview := heldForReview s \<inter> pending\<rparr>"

definition PutsHeldForReview :: "'z put_state_scheme \<Rightarrow> InventoryEntry list" where
  "PutsHeldForReview s = map snd (filter (\<lambda>(i, e). i \<in> heldForReview s) (pendingPuts s))"

text \<open>A write through the pointer an inventory key holds; no-op where the key is absent.\<close>

definition editEntry :: "string \<Rightarrow> (InventoryEntry \<Rightarrow> InventoryEntry) \<Rightarrow> 'z put_state_scheme \<Rightarrow> 'z put_state_scheme" where
  "editEntry i f s = (case map_of (inventory s) i of None \<Rightarrow> s
     | Some e \<Rightarrow> s\<lparr>inventory := AList.update i (f e) (inventory s)\<rparr>)"

definition SetEntryProvenanceLevel :: "string \<Rightarrow> i64 \<Rightarrow> 'z put_state_scheme \<Rightarrow> 'z put_state_scheme" where
  "SetEntryProvenanceLevel i level = editEntry i (\<lambda>e. e\<lparr>AcceptedProvenanceLevel := level\<rparr>)"

definition FlagEntryForRevalidation :: "string \<Rightarrow> 'z put_state_scheme \<Rightarrow> 'z put_state_scheme" where
  "FlagEntryForRevalidation i = editEntry i (\<lambda>e. e\<lparr>NeedsRevalidation := True\<rparr>)"

definition FlagSellerEntriesForRevalidation :: "string \<Rightarrow> 'z put_state_scheme \<Rightarrow> 'z put_state_scheme \<times> nat" where
  "FlagSellerEntriesForRevalidation k s =
     (s\<lparr>inventory := map (\<lambda>(i, e). (i, if SellerKey e = k then e\<lparr>NeedsRevalidation := True\<rparr> else e)) (inventory s)\<rparr>,
      length (filter (\<lambda>(i, e). SellerKey e = k) (inventory s)))"

definition EntryNeedsRevalidation :: "'z put_state_scheme \<Rightarrow> string \<Rightarrow> bool" where
  "EntryNeedsRevalidation s i = (case map_of (inventory s) i of None \<Rightarrow> False | Some e \<Rightarrow> NeedsRevalidation e)"

definition applyDerivativePut :: "InventoryEntry \<Rightarrow> 'z put_state_scheme \<Rightarrow> 'z put_state_scheme" where
  "applyDerivativePut e s = (case map_of (inventory s) (EntryID e) of Some _ \<Rightarrow> s
     | None \<Rightarrow> s\<lparr>inventory := AList.update (EntryID e) e (inventory s)\<rparr>)"

definition MarkEntryCompressedFrom :: "string \<Rightarrow> string \<Rightarrow> 'z put_state_scheme
    \<Rightarrow> 'z put_state_scheme \<times> InventoryEntry option" where
  "MarkEntryCompressedFrom i original s =
     (let s' = editEntry i (\<lambda>e. e\<lparr>CompressedFrom := original\<rparr>) s in (s', map_of (inventory s') i))"

definition HasCompressedVersion :: "gtime \<Rightarrow> 'z put_state_scheme \<Rightarrow> string \<Rightarrow> bool" where
  "HasCompressedVersion now s i = list_ex (\<lambda>(_, e). CompressedFrom e = i \<and> \<not> IsExpired now e) (inventory s)"

definition AllSellerKeys :: "gtime \<Rightarrow> 'z put_state_scheme \<Rightarrow> string set" where
  "AllSellerKeys now s = SellerKey ` set (Inventory now s)"

text \<open>Writes that leave an entry's identity, content and cost alone.\<close>

definition same_stock :: "(InventoryEntry \<Rightarrow> InventoryEntry) \<Rightarrow> bool" where
  "same_stock f \<longleftrightarrow> (\<forall>e. EntryID (f e) = EntryID e \<and> PutMsgID (f e) = PutMsgID e \<and> ContentHash (f e) = ContentHash e
     \<and> kept_ok (f e) = kept_ok e \<and> entry_ok (f e) = entry_ok e)"

lemma same_stockD: "same_stock f \<Longrightarrow> EntryID (f e) = EntryID e" "same_stock f \<Longrightarrow> ContentHash (f e) = ContentHash e"
  "same_stock f \<Longrightarrow> kept_ok (f e) = kept_ok e" "same_stock f \<Longrightarrow> entry_ok (f e) = entry_ok e"
  "same_stock f \<Longrightarrow> derived (f e) = derived e"
  by (simp_all add: same_stock_def derived_def)

lemma stock_ok_edit:
  assumes f: "same_stock f" and ok: "stock_ok s"
  shows "stock_ok (editEntry i f s)"
proof (cases "map_of (inventory s) i")
  case (Some e)
  from ok have mi: "map_ok (inventory s)" and ei: "stocked_ok (inventory s)" by (auto simp: stock_ok_def)
  have e: "EntryID e = i" "kept_ok e" "derived e \<or> entry_ok e" using ei map_of_SomeD[OF Some] unfolding stocked_ok_def by auto
  have h: "hashes (own (AList.update i (f e) m)) = hashes (own m)" if "map_of m i = Some e" "map_ok m" for m
    using that by (induction m) (auto simp: hashes_def own_def same_stockD[OF f] map_ok_def)
  have "stocked_ok (AList.update i (f e) (inventory s))"
    by (rule stocked_ok_update[OF ei]) (use e in \<open>simp_all add: same_stockD[OF f]\<close>)
  then show ?thesis using ok mi unfolding stock_ok_def editEntry_def Some
    by (simp add: h[OF Some mi])
qed (use ok in \<open>simp add: editEntry_def\<close>)

lemma stock_ok_edit_all:
  assumes f: "same_stock f" and ok: "stock_ok s"
  shows "stock_ok (s\<lparr>inventory := map (\<lambda>(i, e). (i, f e)) (inventory s)\<rparr>)"
proof -
  have h: "hashes (own (map (\<lambda>(i, e). (i, f e)) m)) = hashes (own m)" for m
    by (induction m) (auto simp: hashes_def own_def same_stockD[OF f])
  have k: "map fst (map (\<lambda>(i, e). (i, f e)) m) = map fst m" for m by (induction m) auto
  have "stocked_ok m \<Longrightarrow> stocked_ok (map (\<lambda>(i, e). (i, f e)) m)" for m
    by (fastforce simp: stocked_ok_def same_stockD[OF f])
  then show ?thesis using ok by (simp add: stock_ok_def h map_ok_def k del: map_map)
qed

lemma stock_ok_flags:
  "stock_ok s \<Longrightarrow> stock_ok (SetEntryProvenanceLevel i level s)" "stock_ok s \<Longrightarrow> stock_ok (FlagEntryForRevalidation i s)"
  "stock_ok s \<Longrightarrow> stock_ok (fst (MarkEntryCompressedFrom i j s))"
  "stock_ok s \<Longrightarrow> stock_ok (fst (FlagSellerEntriesForRevalidation k s))"
  unfolding SetEntryProvenanceLevel_def FlagEntryForRevalidation_def MarkEntryCompressedFrom_def
    FlagSellerEntriesForRevalidation_def Let_def fst_conv
  by (intro stock_ok_edit stock_ok_edit_all; simp add: same_stock_def kept_ok_def entry_ok_def)+

lemma stock_ok_derivative:
  assumes "stock_ok s" "derived e" "kept_ok e"
  shows "stock_ok (applyDerivativePut e s)"
proof (cases "map_of (inventory s) (EntryID e)")
  case None
  have "own (AList.update (EntryID e) e m) = own m" if "map_of m (EntryID e) = None" for m
    using that assms(2) by (induction m) (auto simp: own_def split: if_splits)
  moreover have "stocked_ok (AList.update (EntryID e) e (inventory s))"
    using assms by (intro stocked_ok_update) (simp_all add: stock_ok_def)
  ultimately show ?thesis using assms(1) None by (simp add: applyDerivativePut_def stock_ok_def)
qed (simp add: applyDerivativePut_def assms(1))

end
