(* ===== verification/State_Orders.thy ===== *)
theory State_Orders
  imports State_Inventory
begin

text \<open>
  The buy side of the exchange: orders and matches (\<open>pkg/exchange/state_buy.go\<close>), demand-only
  registrations with their rolling windows, standing buy-miss offers and the read accessors over them
  (\<open>state_accessors.go\<close>).
\<close>

section \<open>State\<close>

record ActiveOrder =
  OrderID :: string
  BuyerKey :: string
  Task :: string
  Budget :: i64
  MinReputation :: i64
  FreshnessHours :: i64
  o_ContentType :: string
  o_Domains :: "string list"
  MaxResults :: i64
  o_CompressionTier :: string
  CreatedAt :: i64
  GuaranteeDeadline :: gtime
  InsuredAmount :: i64

record BuyMissOffer =
  TaskHash :: string
  of_BuyMsgID :: string
  of_BuyerKey :: string
  of_Task :: string
  OfferedPrice :: i64
  of_ExpiresAt :: gtime

record order_state = put_state +
  activeOrders :: "(string \<times> ActiveOrder) list"
  matchedOrders :: "string set"
  matchToBuyer :: "string \<rightharpoonup> string"
  matchToEntry :: "string \<rightharpoonup> string"
  matchToResults :: "string \<rightharpoonup> string list"
  matchToBuyMsgID :: "string \<rightharpoonup> string"
  matchGuarantee :: "string \<rightharpoonup> i64 \<times> i64"
  demandOnlyTaskHashes :: "(string \<times> i64) list"
  demandOnlySenderTimes :: "(string \<times> i64 list) list"
  demandOnlyCounted :: "string set"
  buyMissOffers :: "string \<rightharpoonup> BuyMissOffer"

abbreviation MaxTaskBytes :: int where "MaxTaskBytes \<equiv> 65536"
abbreviation MaxBuyMaxResults :: i64 where "MaxBuyMaxResults \<equiv> 100"

definition OrderExpiry :: int where "OrderExpiry = hour"
definition BuyMissOfferTTL :: int where "BuyMissOfferTTL = 24 * hour"
definition DemandOnlyTTL :: int where "DemandOnlyTTL = BuyMissOfferTTL"
definition DemandOnlyPerSenderWindow :: int where "DemandOnlyPerSenderWindow = hour"

section \<open>Buying\<close>

record BuyPayload =
  bp_Task :: string
  bp_Budget :: i64
  bp_MinReputation :: i64
  bp_FreshnessHours :: i64
  bp_ContentType :: string
  bp_Domains :: "string list"
  bp_MaxResults :: i64
  bp_CompressionTier :: string
  bp_GuaranteeDeadlineSeconds :: i64
  bp_InsuredAmount :: i64

definition buyZero :: BuyPayload where
  "buyZero = \<lparr>bp_Task = '''', bp_Budget = 0, bp_MinReputation = 0, bp_FreshnessHours = 0,
     bp_ContentType = '''', bp_Domains = [], bp_MaxResults = 0, bp_CompressionTier = '''',
     bp_GuaranteeDeadlineSeconds = 0, bp_InsuredAmount = 0\<rparr>"

definition buyFields :: "BuyPayload fields" where
  "buyFields = [(''task'', on_field dec_string bp_Task bp_Task_update),
     (''budget'', on_field dec_i64 bp_Budget bp_Budget_update),
     (''min_reputation'', on_field dec_i64 bp_MinReputation bp_MinReputation_update),
     (''freshness_hours'', on_field dec_i64 bp_FreshnessHours bp_FreshnessHours_update),
     (''content_type'', on_field dec_string bp_ContentType bp_ContentType_update),
     (''domains'', on_field (dec_slice dec_string '''') bp_Domains bp_Domains_update),
     (''max_results'', on_field dec_i64 bp_MaxResults bp_MaxResults_update),
     (''compression_tier'', on_field dec_string bp_CompressionTier bp_CompressionTier_update),
     (''guarantee_deadline_seconds'', on_field dec_i64 bp_GuaranteeDeadlineSeconds bp_GuaranteeDeadlineSeconds_update),
     (''insured_amount'', on_field dec_i64 bp_InsuredAmount bp_InsuredAmount_update)]"

text \<open>\<open>now\<close> is \<open>time.Now()\<close>, which the handler reads where the message has no positive timestamp.\<close>

definition newOrder :: "gtime \<Rightarrow> message \<Rightarrow> BuyPayload \<Rightarrow> ActiveOrder" where
  "newOrder now msg p = \<lparr>OrderID = ID msg, BuyerKey = Sender msg, Task = bp_Task p, Budget = bp_Budget p,
     MinReputation = bp_MinReputation p, FreshnessHours = bp_FreshnessHours p,
     o_ContentType = stripTagPrefix (bp_ContentType p) ''exchange:content-type:'',
     o_Domains = stripDomainPrefixes (bp_Domains p),
     MaxResults = (if bp_MaxResults p \<le> 0 then 3 else bp_MaxResults p),
     o_CompressionTier = bp_CompressionTier p, CreatedAt = Timestamp msg,
     GuaranteeDeadline = (if bp_GuaranteeDeadlineSeconds p > 0
       then (if Timestamp msg > 0 then Timestamp msg else now) + dur_mul (bp_GuaranteeDeadlineSeconds p) second
       else zero_time),
     InsuredAmount = bp_InsuredAmount p\<rparr>"

definition applyBuy :: "gtime \<Rightarrow> 'z order_state_scheme \<Rightarrow> message \<Rightarrow> 'z order_state_scheme" where
  "applyBuy now s msg = (case unmarshal buyFields (Payload msg) buyZero of (p, ok) \<Rightarrow>
     if \<not> ok then s
     else if int (length (bp_Task p)) > MaxTaskBytes then s
     else if MaxResults (newOrder now msg p) > MaxBuyMaxResults then s
     else s\<lparr>activeOrders := AList.update (ID msg) (newOrder now msg p) (activeOrders s)\<rparr>)"

section \<open>Demand without funds\<close>

record DemandPayload =
  dp_TaskHash :: string
  dp_BuyerKey :: string
  dp_ExpiresAt :: string

definition demandFields :: "DemandPayload fields" where
  "demandFields = [(''task_hash'', on_field dec_string dp_TaskHash dp_TaskHash_update),
     (''buyer_key'', on_field dec_string dp_BuyerKey dp_BuyerKey_update),
     (''expires_at'', on_field dec_string dp_ExpiresAt dp_ExpiresAt_update)]"

text \<open>The registration a message stands for: task hash, buyer and expiry.\<close>

definition demandOf :: "message \<Rightarrow> (string \<times> string \<times> i64) option" where
  "demandOf msg = (case unmarshal demandFields (Payload msg) \<lparr>dp_TaskHash = '''', dp_BuyerKey = '''', dp_ExpiresAt = ''''\<rparr> of
     (p, ok) \<Rightarrow>
       if \<not> ok \<or> dp_TaskHash p = '''' then None
       else Some (dp_TaskHash p, dp_BuyerKey p,
         (let dflt = wrap64 (Timestamp msg + DemandOnlyTTL) in
          if dp_ExpiresAt p = '''' then dflt
          else case parse_rfc3339 (dp_ExpiresAt p) of Some t \<Rightarrow> unix_nano t | None \<Rightarrow> dflt)))"

definition pruneDemandWindow :: "i64 list \<Rightarrow> i64 \<Rightarrow> i64 list" where
  "pruneDemandWindow ts ref = filter (\<lambda>t. t \<ge> wrap64 (ref - DemandOnlyPerSenderWindow)) ts"

definition newestTime :: "i64 list \<Rightarrow> i64" where
  "newestTime ts = foldl (\<lambda>newest t. if t > newest then t else newest) 0 ts"

definition senderTimes :: "'z order_state_scheme \<Rightarrow> string \<Rightarrow> i64 list" where
  "senderTimes s k = (case map_of (demandOnlySenderTimes s) k of None \<Rightarrow> [] | Some ts \<Rightarrow> ts)"

definition recordSender :: "string \<Rightarrow> i64 \<Rightarrow> (string \<times> i64 list) list \<Rightarrow> (string \<times> i64 list) list" where
  "recordSender k t m =
     (if k = '''' then m
      else let pruned = pruneDemandWindow ((case map_of m k of None \<Rightarrow> [] | Some ts \<Rightarrow> ts) @ [t]) t
        in if pruned = [] then AList.delete k m else AList.update k pruned m)"

definition applyDemandOnly :: "'z order_state_scheme \<Rightarrow> message \<Rightarrow> 'z order_state_scheme" where
  "applyDemandOnly s msg =
     (if ID msg \<in> demandOnlyCounted s then s
      else case demandOf msg of None \<Rightarrow> s
      | Some (h, buyer, expires) \<Rightarrow>
        s\<lparr>demandOnlyCounted := insert (ID msg) (demandOnlyCounted s),
          demandOnlyTaskHashes := AList.update h expires
            (filter (\<lambda>(_, x). \<not> x \<le> Timestamp msg) (demandOnlyTaskHashes s)),
          demandOnlySenderTimes := recordSender buyer (Timestamp msg)
            (filter (\<lambda>(_, ts). \<not> newestTime ts < wrap64 (Timestamp msg - DemandOnlyPerSenderWindow))
              (demandOnlySenderTimes s))\<rparr>)"

definition HasDemandOnly :: "'z order_state_scheme \<Rightarrow> string \<Rightarrow> gtime \<Rightarrow> bool" where
  "HasDemandOnly s h now = (case map_of (demandOnlyTaskHashes s) h of None \<Rightarrow> False | Some x \<Rightarrow> x > unix_nano now)"

definition DemandOnlyTotal :: "'z order_state_scheme \<Rightarrow> gtime \<Rightarrow> nat" where
  "DemandOnlyTotal s now = length (filter (\<lambda>(_, x). x > unix_nano now) (demandOnlyTaskHashes s))"

definition DemandOnlyCountForSender :: "'z order_state_scheme \<Rightarrow> string \<Rightarrow> gtime \<Rightarrow> int \<Rightarrow> nat" where
  "DemandOnlyCountForSender s buyer now window =
     length (filter (\<lambda>t. t \<ge> unix_nano (now - window)) (senderTimes s buyer))"

section \<open>Matching\<close>

definition resultFields :: "string fields" where
  "resultFields = [(''entry_id'', dec_string)]"

definition matchFields :: "string list fields" where
  "matchFields = [(''results'', dec_slice (dec_struct resultFields) '''')]"

definition recordResults :: "message \<Rightarrow> 'z order_state_scheme \<Rightarrow> 'z order_state_scheme" where
  "recordResults msg s = (case unmarshal matchFields (Payload msg) [] of (results, ok) \<Rightarrow>
     if \<not> ok \<or> results = [] then s
     else s\<lparr>matchToEntry := (matchToEntry s)(ID msg \<mapsto> hd results),
            matchToResults := (matchToResults s)(ID msg \<mapsto> filter (\<lambda>r. r \<noteq> '''') results)\<rparr>)"

definition recordBuyer :: "message \<Rightarrow> string \<Rightarrow> 'z order_state_scheme \<Rightarrow> 'z order_state_scheme" where
  "recordBuyer msg buyMsg s = (case map_of (activeOrders s) buyMsg of None \<Rightarrow> s
     | Some ord \<Rightarrow>
       let s1 = s\<lparr>matchToBuyer := (matchToBuyer s)(ID msg \<mapsto> BuyerKey ord)\<rparr>
       in if is_zero (GuaranteeDeadline ord) then s1
          else s1\<lparr>matchGuarantee := (matchGuarantee s1)(ID msg \<mapsto>
                 (unix_nano (GuaranteeDeadline ord), InsuredAmount ord))\<rparr>)"

text \<open>A sender that is not the operator is dropped here without being counted as a fold denial.\<close>

definition applyMatch :: "'z order_state_scheme \<Rightarrow> message \<Rightarrow> 'z order_state_scheme" where
  "applyMatch s msg =
     (if notOperator s msg then s
      else if tagsContain (Tags msg) TagDemandOnly then applyDemandOnly s msg
      else case Antecedents msg of [] \<Rightarrow> s
      | buyMsg # _ \<Rightarrow>
        recordResults msg (recordBuyer msg buyMsg
          (s\<lparr>matchedOrders := insert buyMsg (matchedOrders s),
             matchToBuyMsgID := (matchToBuyMsgID s)(ID msg \<mapsto> buyMsg)\<rparr>)))"

section \<open>Accessors\<close>

definition orderExpired :: "gtime \<Rightarrow> ActiveOrder \<Rightarrow> bool" where
  "orderExpired now ord \<longleftrightarrow> now - CreatedAt ord > OrderExpiry"

definition ActiveOrders :: "gtime \<Rightarrow> 'z order_state_scheme \<Rightarrow> ActiveOrder list" where
  "ActiveOrders now s = map snd (filter (\<lambda>(i, ord). i \<notin> matchedOrders s \<and> \<not> orderExpired now ord) (activeOrders s))"

definition IsOrderMatched :: "'z order_state_scheme \<Rightarrow> string \<Rightarrow> bool" where
  "IsOrderMatched s i \<longleftrightarrow> i \<in> matchedOrders s"

definition MatchEntryID :: "'z order_state_scheme \<Rightarrow> string \<Rightarrow> string" where
  "MatchEntryID s m = getd '''' (matchToEntry s) m"

definition MatchBuyerKey :: "'z order_state_scheme \<Rightarrow> string \<Rightarrow> string" where
  "MatchBuyerKey s m = getd '''' (matchToBuyer s) m"

definition GuaranteeForMatch :: "'z order_state_scheme \<Rightarrow> string \<Rightarrow> (gtime \<times> i64) option" where
  "GuaranteeForMatch s m = (case matchGuarantee s m of None \<Rightarrow> None
     | Some (d, amt) \<Rightarrow> if d = 0 then None else Some (d, amt))"

definition ClearMatchGuarantee :: "string \<Rightarrow> 'z order_state_scheme \<Rightarrow> 'z order_state_scheme" where
  "ClearMatchGuarantee m s = s\<lparr>matchGuarantee := (matchGuarantee s)(m := None)\<rparr>"

definition offerExpired :: "gtime \<Rightarrow> BuyMissOffer \<Rightarrow> bool" where
  "offerExpired now ofr \<longleftrightarrow> now > of_ExpiresAt ofr"

definition SetBuyMissOffer :: "gtime \<Rightarrow> BuyMissOffer \<Rightarrow> 'z order_state_scheme \<Rightarrow> 'z order_state_scheme \<times> bool" where
  "SetBuyMissOffer now ofr s =
     (case buyMissOffers s (TaskHash ofr) of
        Some ex \<Rightarrow> if \<not> offerExpired now ex then (s, False)
          else (s\<lparr>buyMissOffers := (buyMissOffers s)(TaskHash ofr \<mapsto> ofr)\<rparr>, True)
      | None \<Rightarrow> (s\<lparr>buyMissOffers := (buyMissOffers s)(TaskHash ofr \<mapsto> ofr)\<rparr>, True))"

definition GetBuyMissOffer :: "gtime \<Rightarrow> string \<Rightarrow> 'z order_state_scheme \<Rightarrow> BuyMissOffer option" where
  "GetBuyMissOffer now h s = (case buyMissOffers s h of None \<Rightarrow> None
     | Some ofr \<Rightarrow> if offerExpired now ofr then None else Some ofr)"

definition ClaimBuyMissOffer :: "gtime \<Rightarrow> string \<Rightarrow> 'z order_state_scheme
    \<Rightarrow> 'z order_state_scheme \<times> BuyMissOffer option" where
  "ClaimBuyMissOffer now h s = (case GetBuyMissOffer now h s of None \<Rightarrow> (s, None)
     | Some ofr \<Rightarrow> (s\<lparr>buyMissOffers := (buyMissOffers s)(h := None)\<rparr>, Some ofr))"

definition BrokerAssignForBuy :: "'z order_state_scheme \<Rightarrow> string \<Rightarrow> string option" where
  "BrokerAssignForBuy s i = brokerAssigns s i"

text \<open>A standing offer is handed out at most once.\<close>

lemma ClaimBuyMissOffer_once:
  "ClaimBuyMissOffer now h s = (s', Some ofr) \<Longrightarrow> ClaimBuyMissOffer now' h s' = (s', None)"
  by (auto simp: ClaimBuyMissOffer_def GetBuyMissOffer_def split: option.splits if_splits)

lemma SetBuyMissOffer_keeps:
  "GetBuyMissOffer now h s = Some ex \<Longrightarrow> TaskHash ofr = h \<Longrightarrow> SetBuyMissOffer now ofr s = (s, False)"
  by (auto simp: SetBuyMissOffer_def GetBuyMissOffer_def split: option.splits if_splits)

section \<open>Pruning loses nothing a reader could see\<close>

text \<open>
  The specification of the demand signal: the registrations in log order, each message counted once,
  nothing ever dropped.
\<close>

fun demandLog :: "string set \<Rightarrow> message list \<Rightarrow> (string \<times> string \<times> i64 \<times> i64) list" where
  "demandLog seen [] = []"
| "demandLog seen (m # ms) =
     (if ID m \<in> seen then demandLog seen ms
      else case demandOf m of None \<Rightarrow> demandLog seen ms
      | Some (h, b, x) \<Rightarrow> (h, b, x, Timestamp m) # demandLog (insert (ID m) seen) ms)"

definition lastExpiry :: "(string \<times> string \<times> i64 \<times> i64) list \<Rightarrow> string \<Rightarrow> i64 option" where
  "lastExpiry H h = map_of (rev (map (\<lambda>(h, b, x, t). (h, x)) H)) h"

definition timesOf :: "(string \<times> string \<times> i64 \<times> i64) list \<Rightarrow> string \<Rightarrow> i64 list" where
  "timesOf H b = map (\<lambda>(h, b, x, t). t) (filter (\<lambda>(h, b', x, t). b' = b) H)"

definition demand_rel :: "i64 \<Rightarrow> 'z order_state_scheme \<Rightarrow> (string \<times> string \<times> i64 \<times> i64) list \<Rightarrow> bool" where
  "demand_rel now s H \<longleftrightarrow> map_ok (demandOnlyTaskHashes s) \<and> map_ok (demandOnlySenderTimes s)
     \<and> (\<forall>h x. map_of (demandOnlyTaskHashes s) h = Some x \<longrightarrow> lastExpiry H h = Some x)
     \<and> (\<forall>h x. lastExpiry H h = Some x \<longrightarrow> map_of (demandOnlyTaskHashes s) h = None \<longrightarrow> x \<le> now)
     \<and> (\<forall>b. b \<noteq> '''' \<longrightarrow> (\<forall>c \<ge> now - DemandOnlyPerSenderWindow.
          filter (\<lambda>t. c \<le> t) (senderTimes s b) = filter (\<lambda>t. c \<le> t) (timesOf H b)))"

lemma lastExpiry_snoc: "lastExpiry (H @ [(h, b, x, t)]) k = (if k = h then Some x else lastExpiry H k)"
  by (simp add: lastExpiry_def)

lemma timesOf_snoc: "timesOf (H @ [(h, b, x, t)]) k = (if k = b then timesOf H k @ [t] else timesOf H k)"
  by (simp add: timesOf_def)

lemma newestTime_foldl: "n \<le> foldl (\<lambda>newest t. if t > newest then t else newest) n ts
    \<and> (\<forall>t \<in> set ts. t \<le> foldl (\<lambda>newest t. if t > newest then t else newest) n ts)" for n :: int
proof (induction ts arbitrary: n)
  case (Cons a ts)
  show ?case using Cons[of "if a > n then a else n"] by (auto split: if_splits)
qed simp

lemma newestTime_ge: "t \<in> set ts \<Longrightarrow> t \<le> newestTime ts"
  using newestTime_foldl[of 0 ts] by (simp add: newestTime_def)

lemma filter_stale: "newestTime ts < c \<Longrightarrow> filter (\<lambda>t. c \<le> t) ts = []"
  using newestTime_ge by (fastforce simp: filter_empty_conv)

lemma window_small: "0 \<le> t \<Longrightarrow> t \<le> 9223372036854775807 \<Longrightarrow>
    wrap64 (t - DemandOnlyPerSenderWindow) = t - DemandOnlyPerSenderWindow"
  by (rule wrap64_id) (simp add: int64_def DemandOnlyPerSenderWindow_def hour_def second_def)

lemma demand_rel_step:
  assumes rel: "demand_rel now s H" and t: "0 \<le> Timestamp m" "Timestamp m \<le> now" "now \<le> 9223372036854775807"
    and new: "ID m \<notin> demandOnlyCounted s" and d: "demandOf m = Some (h, b, x)"
  shows "demand_rel now (applyDemandOnly s m) (H @ [(h, b, x, Timestamp m)])"
proof -
  let ?W = "DemandOnlyPerSenderWindow" and ?s = "applyDemandOnly s m"
  have w: "wrap64 (Timestamp m - ?W) = Timestamp m - ?W" by (rule window_small) (use t in auto)
  define hs where "hs = filter (\<lambda>(_, x). \<not> x \<le> Timestamp m) (demandOnlyTaskHashes s)"
  define ts where "ts = filter (\<lambda>(_, ts). \<not> newestTime ts < Timestamp m - ?W) (demandOnlySenderTimes s)"
  have mh: "map_ok (demandOnlyTaskHashes s)" and mt: "map_ok (demandOnlySenderTimes s)"
    and r1: "\<And>h x. map_of (demandOnlyTaskHashes s) h = Some x \<Longrightarrow> lastExpiry H h = Some x"
    and r2: "\<And>h x. lastExpiry H h = Some x \<Longrightarrow> map_of (demandOnlyTaskHashes s) h = None \<Longrightarrow> x \<le> now"
    and r3: "\<And>b c. b \<noteq> '''' \<Longrightarrow> now - ?W \<le> c \<Longrightarrow>
      filter (\<lambda>t. c \<le> t) (senderTimes s b) = filter (\<lambda>t. c \<le> t) (timesOf H b)"
    using rel by (auto simp: demand_rel_def)
  have hashes: "demandOnlyTaskHashes ?s = AList.update h x hs" and times: "demandOnlySenderTimes ?s = recordSender b (Timestamp m) ts"
    using new d by (simp_all add: applyDemandOnly_def hs_def ts_def w)
  have hs: "map_of hs k = (case map_of (demandOnlyTaskHashes s) k of None \<Rightarrow> None
      | Some v \<Rightarrow> if v \<le> Timestamp m then None else Some v)" for k
    unfolding hs_def by (subst map_of_filter_ok[OF mh]) (auto split: option.split)
  have live: "filter (\<lambda>t. c \<le> t) (case map_of ts k of None \<Rightarrow> [] | Some l \<Rightarrow> l) = filter (\<lambda>t. c \<le> t) (timesOf H k)"
    if "k \<noteq> ''''" "now - ?W \<le> c" for k c
  proof -
    have "map_of ts k = (case map_of (demandOnlySenderTimes s) k of None \<Rightarrow> None
        | Some v \<Rightarrow> if newestTime v < Timestamp m - ?W then None else Some v)"
      unfolding ts_def by (subst map_of_filter_ok[OF mt]) (auto split: option.split)
    moreover have "newestTime v < Timestamp m - ?W \<Longrightarrow> filter (\<lambda>t. c \<le> t) v = []" for v
      using that t by (intro filter_stale) auto
    ultimately show ?thesis using r3[OF that] by (auto simp: senderTimes_def split: option.splits)
  qed
  have "map_ok hs" "map_ok ts" using mh mt by (simp_all add: hs_def ts_def)
  moreover have "map_ok (recordSender b (Timestamp m) ts)" if "map_ok ts"
    using that by (simp add: recordSender_def Let_def)
  moreover have "filter (\<lambda>t. c \<le> t) (senderTimes ?s k) = filter (\<lambda>t. c \<le> t) (timesOf (H @ [(h, b, x, Timestamp m)]) k)"
    if k: "k \<noteq> ''''" and c: "now - ?W \<le> c" for k c
  proof (cases "k = b")
    case True
    define l where "l = (case map_of ts k of None \<Rightarrow> [] | Some l \<Rightarrow> l) @ [Timestamp m]"
    have sub: "Timestamp m - ?W \<le> c" using c t by simp
    have "senderTimes ?s k = pruneDemandWindow l (Timestamp m)"
      using True k unfolding senderTimes_def times by (simp add: recordSender_def Let_def l_def)
    then have "filter (\<lambda>t. c \<le> t) (senderTimes ?s k) = filter (\<lambda>t. c \<le> t) l"
      using sub by (auto simp: pruneDemandWindow_def w intro: filter_cong)
    also have "\<dots> = filter (\<lambda>t. c \<le> t) (timesOf H k) @ filter (\<lambda>t. c \<le> t) [Timestamp m]"
      using live[OF k c] by (simp add: l_def)
    finally show ?thesis using True by (simp add: timesOf_snoc)
  next
    case False
    then have "senderTimes ?s k = (case map_of ts k of None \<Rightarrow> [] | Some l \<Rightarrow> l)"
      unfolding senderTimes_def times by (simp add: recordSender_def Let_def)
    then show ?thesis using live[OF k c] False by (simp add: timesOf_snoc)
  qed
  moreover have "k \<noteq> h \<Longrightarrow> lastExpiry H k = Some v \<Longrightarrow> map_of hs k = None \<Longrightarrow> v \<le> now" for k v
    using r2[of k v] r1[of k] t by (fastforce simp: hs split: option.splits if_splits)
  ultimately show ?thesis using r1
    unfolding demand_rel_def hashes times
    by (auto simp: lastExpiry_snoc hs split: option.splits if_splits)
qed

lemma demand_rel_fold:
  "demand_rel now s H \<Longrightarrow> list_all (\<lambda>m. 0 \<le> Timestamp m \<and> Timestamp m \<le> now) ms \<Longrightarrow> now \<le> 9223372036854775807
    \<Longrightarrow> demand_rel now (foldl applyDemandOnly s ms) (H @ demandLog (demandOnlyCounted s) ms)"
proof (induction ms arbitrary: s H)
  case (Cons m ms)
  show ?case
  proof (cases "ID m \<in> demandOnlyCounted s \<or> demandOf m = None")
    case True
    then have "applyDemandOnly s m = s" by (auto simp: applyDemandOnly_def)
    then show ?thesis using Cons True by auto
  next
    case False
    then obtain h b x where d: "demandOf m = Some (h, b, x)" by (metis option.exhaust surj_pair)
    have cnt: "demandOnlyCounted (applyDemandOnly s m) = insert (ID m) (demandOnlyCounted s)"
      using False d by (simp add: applyDemandOnly_def)
    have "demand_rel now (applyDemandOnly s m) (H @ [(h, b, x, Timestamp m)])"
      using Cons.prems False d by (intro demand_rel_step) auto
    from Cons.IH[OF this] show ?thesis using Cons.prems False d by (simp add: cnt)
  qed
qed simp

lemma demand_total:
  assumes "map_ok m"
  shows "length (filter (\<lambda>(_, x). x > c) m) = card {h. \<exists>x. map_of m h = Some x \<and> x > (c::int)}"
proof -
  have "{h. \<exists>x. map_of m h = Some x \<and> x > c} = fst ` set (filter (\<lambda>(_, x). x > c) m)"
    using assms by (force simp: map_ok_def image_iff)
  moreover have "distinct (map fst (filter (\<lambda>(_, x). x > c) m))"
    using assms by (simp add: map_ok_def distinct_map_filter)
  ultimately show ?thesis by (metis distinct_card length_map list.set_map)
qed

text \<open>
  C30: the demand signal is exact. The fold evicts expired task hashes, deletes senders whose window has
  elapsed and prunes the window of the sender it writes. After any log of registrations that are not
  later than the reader's clock, the reader still gets what it would get from the full history: a task
  hash is registered exactly when its latest registration is unexpired, the global count is the number
  of such hashes, and the count of a sender is the number of its registrations within the last hour,
  each message counted once however often it is folded.
\<close>

theorem demand_signal_exact:
  assumes "demandOnlyTaskHashes s = []" "demandOnlySenderTimes s = []" "demandOnlyCounted s = {}"
    and "list_all (\<lambda>m. 0 \<le> Timestamp m \<and> Timestamp m \<le> now) ms" "0 \<le> now" "now \<le> 9223372036854775807"
    and "buyer \<noteq> ''''"
  defines "s' \<equiv> foldl applyDemandOnly s ms" and "H \<equiv> demandLog {} ms"
  shows "(HasDemandOnly s' h now \<longleftrightarrow> (\<exists>x. lastExpiry H h = Some x \<and> x > now))
    \<and> DemandOnlyTotal s' now = card {h. \<exists>x. lastExpiry H h = Some x \<and> x > now}
    \<and> DemandOnlyCountForSender s' buyer now DemandOnlyPerSenderWindow
        = length (filter (\<lambda>t. now - DemandOnlyPerSenderWindow \<le> t) (timesOf H buyer))"
proof -
  have "demand_rel now s []"
    by (simp add: demand_rel_def assms lastExpiry_def timesOf_def senderTimes_def)
  from demand_rel_fold[OF this assms(4,6)] have rel: "demand_rel now s' H"
    by (simp add: s'_def H_def assms(3))
  have un: "unix_nano now = now" "unix_nano (now - DemandOnlyPerSenderWindow) = now - DemandOnlyPerSenderWindow"
    using assms(5,6) by (simp_all add: unix_nano_def wrap64_id int64_def window_small)
  have live: "(\<exists>x. map_of (demandOnlyTaskHashes s') h = Some x \<and> x > now)
      \<longleftrightarrow> (\<exists>x. lastExpiry H h = Some x \<and> x > now)" for h
    using rel unfolding demand_rel_def by (metis not_less option.exhaust)
  have "HasDemandOnly s' h now \<longleftrightarrow> (\<exists>x. map_of (demandOnlyTaskHashes s') h = Some x \<and> x > now)"
    by (auto simp: HasDemandOnly_def un split: option.split)
  moreover have "DemandOnlyTotal s' now = card {h. \<exists>x. map_of (demandOnlyTaskHashes s') h = Some x \<and> x > now}"
    unfolding DemandOnlyTotal_def un by (rule demand_total) (use rel in \<open>simp add: demand_rel_def\<close>)
  moreover have "DemandOnlyCountForSender s' buyer now DemandOnlyPerSenderWindow
      = length (filter (\<lambda>t. now - DemandOnlyPerSenderWindow \<le> t) (timesOf H buyer))"
    using rel assms(7) by (simp add: DemandOnlyCountForSender_def un demand_rel_def)
  ultimately show ?thesis unfolding live by blast
qed

definition noOrders :: order_state where
  "noOrders = put_state.extend teamState (order_state.fields [] {} Map.empty Map.empty Map.empty Map.empty
     Map.empty [] [] {} Map.empty)"

definition demandMsg :: "string \<Rightarrow> string \<Rightarrow> i64 \<Rightarrow> message" where
  "demandMsg i h t = \<lparr>ID = i, Sender = ''op'',
     Payload = Some (JObj [(''task_hash'', JStr h), (''buyer_key'', JStr ''bob'')]),
     Tags = [TagBuyMiss, TagMatch, TagDemandOnly], Antecedents = [], Timestamp = t, Instance = ''''\<rparr>"

theorem demand_signal_exact_witness:
  "HasDemandOnly (foldl applyDemandOnly noOrders [demandMsg ''d1'' ''h1'' 5, demandMsg ''d2'' ''h2'' 7, demandMsg ''d1'' ''h1'' 5]) ''h1'' 9
   \<and> DemandOnlyTotal (foldl applyDemandOnly noOrders [demandMsg ''d1'' ''h1'' 5, demandMsg ''d2'' ''h2'' 7, demandMsg ''d1'' ''h1'' 5]) 9
     = card {h. \<exists>x. lastExpiry (demandLog {} [demandMsg ''d1'' ''h1'' 5, demandMsg ''d2'' ''h2'' 7, demandMsg ''d1'' ''h1'' 5]) h = Some x \<and> x > 9}
   \<and> DemandOnlyCountForSender (foldl applyDemandOnly noOrders [demandMsg ''d1'' ''h1'' 5, demandMsg ''d2'' ''h2'' 7, demandMsg ''d1'' ''h1'' 5])
       ''bob'' 9 DemandOnlyPerSenderWindow = 2"
proof -
  let ?ms = "[demandMsg ''d1'' ''h1'' 5, demandMsg ''d2'' ''h2'' 7, demandMsg ''d1'' ''h1'' 5]"
  have s: "demandOnlyTaskHashes noOrders = []" "demandOnlySenderTimes noOrders = []" "demandOnlyCounted noOrders = {}"
    by (simp_all add: noOrders_def order_state.defs put_state.defs)
  have ts: "list_all (\<lambda>m. 0 \<le> Timestamp m \<and> Timestamp m \<le> 9) ?ms" by (simp add: demandMsg_def)
  have "lastExpiry (demandLog {} ?ms) ''h1'' = Some 86400000000005" by code_simp
  moreover have "length (filter (\<lambda>t. 9 - DemandOnlyPerSenderWindow \<le> t) (timesOf (demandLog {} ?ms) ''bob'')) = 2"
    by code_simp
  ultimately show ?thesis
    using demand_signal_exact[OF s ts, of "''bob''" "''h1''"] by simp
qed

end
