(* ===== verification/State_Settle.thy ===== *)
theory State_Settle
  imports State_Orders "HOL-Library.Signed_Division"
begin

text \<open>
  The rest of the exchange state: settlement phases (\<open>pkg/exchange/state_settle.go\<close>), the indexes of
  scrip holds and settlements and the consume signal (\<open>state_core.go\<close>), reprice events
  (\<open>reprice.go\<close>), provenance depth and federation profiles (\<open>state_federation.go\<close>), and the read
  accessors that follow the antecedent chain of a delivery (\<open>state_accessors.go\<close>).
\<close>

section \<open>State\<close>

record PriceRecord =
  pr_EntryID :: string
  pr_ContentType :: string
  pr_Domains :: "string list"
  pr_PutPrice :: i64
  pr_SalePrice :: i64
  pr_Timestamp :: i64

record RepriceRecord =
  rr_EntryID :: string
  OldPrice :: i64
  NewPrice :: i64
  Basis :: string
  RulingRef :: string
  rr_Timestamp :: i64

record SellerStats =
  SuccessCount :: int
  SmallContentRefundCount :: int
  RepeatBuyerMap :: "(string \<times> int) list"
  EntryBuyerMap :: "(string \<times> string set) list"
  PreviewCount :: int
  ConversionCount :: int

record FederationNodeProfile =
  SenderKey :: string
  TrustScore :: rat
  HopDepth :: i64
  FirstSeenAt :: gtime
  TransactionCount :: int

text \<open>The multiplier is a finite number.\<close>

record PriceAdjustment =
  Multiplier :: rat
  pa_ExpiresAt :: gtime
  VelocityPerHour :: rat
  VolumeSurplus :: rat

text \<open>
  A map of maps is a function of two keys, its absent cells 0 or the empty string as in Go. The
  counters are Go \<open>int\<close>s that only grow by one and are kept unbounded.
\<close>

record exchange_state = order_state +
  priceHistory :: "PriceRecord list"
  sellers :: "string \<rightharpoonup> SellerStats"
  acceptedOrders :: "(string \<times> string) list"
  buyerAcceptToMatch :: "string \<rightharpoonup> string"
  deliveredOrders :: "string set"
  deliverToMatch :: "string \<rightharpoonup> string"
  deliverTimeByMatch :: "string \<rightharpoonup> i64"
  completedEntries :: "string \<rightharpoonup> string"
  completedSettlements :: "string list"
  previewsByEntry :: "string \<Rightarrow> string \<Rightarrow> string"
  previewCountByMatch :: "string \<Rightarrow> int"
  previewRequestToMatch :: "string \<rightharpoonup> string"
  previewToMatch :: "string \<rightharpoonup> string"
  smallContentDisputes :: "string \<Rightarrow> int"
  entryPreviewCount :: "string \<Rightarrow> int"
  entryConversionCount :: "string \<Rightarrow> int"
  entryConsumeCount :: "string \<Rightarrow> int"
  entryDeliverCount :: "string \<Rightarrow> int"
  buyerDeliverCount :: "string \<Rightarrow> int"
  buyerConsumeCount :: "string \<Rightarrow> int"
  entryDeliverBuyerCount :: "string \<Rightarrow> string \<Rightarrow> int"
  entryConsumeBuyerCount :: "string \<Rightarrow> string \<Rightarrow> int"
  matchToBuyHold :: "string \<rightharpoonup> string"
  matchToBuyHoldAmount :: "string \<rightharpoonup> i64"
  settledMatches :: "string set"
  brokerMatchIDs :: "string set"
  brokeredAcceptedOrders :: int
  brokeredCompletions :: int
  disputeCounted :: "string set"
  consumeCounted :: "string set"
  repriceEvents :: "string \<Rightarrow> RepriceRecord list"
  repriceCounted :: "string set"
  senderHopDepth :: "string \<Rightarrow> i64 list"
  hopDepthCounted :: "string set"
  federationProfiles :: "string \<rightharpoonup> FederationNodeProfile"
  priceAdjustments :: "string \<rightharpoonup> PriceAdjustment"
  debtorScores :: "string \<rightharpoonup> rat"
  coOccurrence :: "string \<rightharpoonup> (string \<times> int) list"

definition bump :: "'k \<Rightarrow> ('k \<Rightarrow> int) \<Rightarrow> ('k \<Rightarrow> int)" where
  "bump k f = f(k := f k + 1)"

definition bump2 :: "'k \<Rightarrow> 'j \<Rightarrow> ('k \<Rightarrow> 'j \<Rightarrow> int) \<Rightarrow> ('k \<Rightarrow> 'j \<Rightarrow> int)" where
  "bump2 k j f = f(k := (f k)(j := f k j + 1))"

section \<open>Sellers\<close>

definition zeroStats :: SellerStats where
  "zeroStats = \<lparr>SuccessCount = 0, SmallContentRefundCount = 0, RepeatBuyerMap = [], EntryBuyerMap = [],
     PreviewCount = 0, ConversionCount = 0\<rparr>"

text \<open>\<open>sellerStats\<close> creates the record of a seller it has not seen; the caller writes through it.\<close>

definition sellerStats :: "string \<Rightarrow> (SellerStats \<Rightarrow> SellerStats) \<Rightarrow> exchange_state \<Rightarrow> exchange_state" where
  "sellerStats k f s = s\<lparr>sellers := (sellers s)(k \<mapsto> f (getd zeroStats (sellers s) k))\<rparr>"

definition f64_round :: "rat \<Rightarrow> rat" where
  "f64_round r = (case quotient_of r of (n, d) \<Rightarrow> f64_div n d)"

definition truncate_rat :: "rat \<Rightarrow> int" where
  "truncate_rat r = (if r \<ge> 0 then \<lfloor>r\<rfloor> else \<lceil>r\<rceil>)"

definition Reputation :: "SellerStats \<Rightarrow> int" where
  "Reputation st =
     (let bonus = (if PreviewCount st \<ge> 10
            then let rate = f64_div (f64_of_int (ConversionCount st)) (f64_of_int (PreviewCount st))
                 in truncate_rat (f64_round (f64_round (rate - 1/2) * 20))
            else 0);
          score = 50 + bonus + SuccessCount st
            + 2 * int (length (filter (\<lambda>(_, c). c > 1) (RepeatBuyerMap st)))
            + 3 * int (length (filter (\<lambda>(_, bs). card bs \<ge> 3) (EntryBuyerMap st)))
            - SmallContentRefundCount st * 3
      in if score < 0 then 0 else if score > 100 then 100 else score)"

definition SellerReputation :: "exchange_state \<Rightarrow> string \<Rightarrow> int" where
  "SellerReputation s k = (case sellers s k of None \<Rightarrow> 50 | Some st \<Rightarrow> Reputation st)"

section \<open>Provenance depth and federation profiles\<close>

abbreviation SenderHopDepthWindowSize :: nat where "SenderHopDepthWindowSize \<equiv> 1000"

text \<open>The double nearest to 0.4.\<close>

definition NewNodeTrustScoreStart :: rat where
  "NewNodeTrustScoreStart = 3602879701896397 / 9007199254740992"

definition medianInt :: "i64 list \<Rightarrow> i64" where
  "medianInt vals =
     (if vals = [] then 0
      else let cp = insertion_sort (<) vals; mid = length cp div 2
        in if even (length cp) then wrap64 (cp ! (mid - 1) + cp ! mid) sdiv 2 else cp ! mid)"

definition newProfile :: "string \<Rightarrow> gtime \<Rightarrow> FederationNodeProfile" where
  "newProfile k t = \<lparr>SenderKey = k, TrustScore = NewNodeTrustScoreStart, HopDepth = 0, FirstSeenAt = t,
     TransactionCount = 0\<rparr>"

definition addHopDepth :: "string \<Rightarrow> i64 \<Rightarrow> gtime \<Rightarrow> exchange_state \<Rightarrow> exchange_state" where
  "addHopDepth k d t s =
     (let w = senderHopDepth s k @ [d];
          w' = (if length w > SenderHopDepthWindowSize then drop (length w - SenderHopDepthWindowSize) w else w);
          prof = (case federationProfiles s k of Some p \<Rightarrow> p | None \<Rightarrow> newProfile k t)
      in s\<lparr>senderHopDepth := (senderHopDepth s)(k := w'),
           federationProfiles := (federationProfiles s)(k \<mapsto> prof\<lparr>HopDepth := medianInt w'\<rparr>)\<rparr>)"

definition trackSenderHopDepth :: "exchange_state \<Rightarrow> message \<Rightarrow> exchange_state" where
  "trackSenderHopDepth s msg =
     (if ID msg \<in> hopDepthCounted s then s
      else addHopDepth (Sender msg) (int (length (Antecedents msg))) (Timestamp msg)
        (s\<lparr>hopDepthCounted := insert (ID msg) (hopDepthCounted s)\<rparr>))"

definition UpdateFederationProfile :: "gtime \<Rightarrow> string \<Rightarrow> i64 \<Rightarrow> exchange_state \<Rightarrow> exchange_state" where
  "UpdateFederationProfile now k d s = (if k = '''' then s else addHopDepth k d now s)"

text \<open>A score that is a number; the clamp lets a NaN through unchanged.\<close>

definition SetFederationTrustScore :: "gtime \<Rightarrow> string \<Rightarrow> rat \<Rightarrow> exchange_state \<Rightarrow> exchange_state" where
  "SetFederationTrustScore now k score s =
     (if k = '''' then s
      else let sc = (if score < 0 then 0 else if score > 1 then 1 else score);
               prof = (case federationProfiles s k of Some p \<Rightarrow> p | None \<Rightarrow> newProfile k now)
           in s\<lparr>federationProfiles := (federationProfiles s)(k \<mapsto> prof\<lparr>TrustScore := sc\<rparr>)\<rparr>)"

definition incrementFederationTransactionCount :: "string \<Rightarrow> exchange_state \<Rightarrow> exchange_state" where
  "incrementFederationTransactionCount k s =
     (if k = '''' then s
      else case federationProfiles s k of None \<Rightarrow> s
      | Some p \<Rightarrow> s\<lparr>federationProfiles := (federationProfiles s)(k \<mapsto> p\<lparr>TransactionCount := TransactionCount p + 1\<rparr>)\<rparr>)"

definition IsNewNode :: "FederationNodeProfile \<Rightarrow> gtime \<Rightarrow> bool" where
  "IsNewNode p now = (if TransactionCount p < 50 then True else now - FirstSeenAt p < 30 * 24 * hour)"

text \<open>The median is that of the sorted window.\<close>

lemma medianInt_sort: "medianInt vals = (if vals = [] then 0
    else if even (length vals) then wrap64 (sort vals ! (length vals div 2 - 1) + sort vals ! (length vals div 2)) sdiv 2
    else sort vals ! (length vals div 2))"
proof -
  have "insertion_sort (<) vals = sort_key (\<lambda>x. x) vals" by (rule insertion_sort_eq_sort_key) simp
  then show ?thesis by (simp add: medianInt_def Let_def)
qed

section \<open>Settlement phases\<close>

definition entryIdFields :: "string fields" where
  "entryIdFields = [(''entry_id'', dec_string)]"

definition priceFields :: "i64 fields" where
  "priceFields = [(''price'', dec_i64)]"

definition acceptedMatch :: "exchange_state \<Rightarrow> string \<Rightarrow> string" where
  "acceptedMatch s ant = (case previewToMatch s ant of Some m \<Rightarrow> m | None \<Rightarrow> ant)"

text \<open>The entry a buyer-accept selects: one of the offered results, else the one recorded so far.\<close>

definition selectedEntry :: "exchange_state \<Rightarrow> message \<Rightarrow> string \<Rightarrow> string" where
  "selectedEntry s msg m =
     (case unmarshal entryIdFields (Payload msg) '''' of (e, ok) \<Rightarrow>
        if ok \<and> e \<noteq> '''' \<and> e \<in> set (getd [] (matchToResults s) m) then e
        else getd '''' (matchToEntry s) m)"

definition applySettleBuyerAccept :: "exchange_state \<Rightarrow> message \<Rightarrow> exchange_state" where
  "applySettleBuyerAccept s msg = (case Antecedents msg of [] \<Rightarrow> s
   | a # _ \<Rightarrow>
     let ant = resolveAlias s a; m = acceptedMatch s ant in
     case matchToBuyer s m of None \<Rightarrow> s
     | Some buyer \<Rightarrow>
       if Sender msg \<noteq> buyer then recordFoldDenial foldDenialBuyerIdentity s msg
       else if buyerAcceptToMatch s (ID msg) \<noteq> None then s
       else let sel = selectedEntry s msg m;
              s1 = (if sel \<noteq> '''' then s\<lparr>acceptedOrders := AList.update m sel (acceptedOrders s),
                      matchToEntry := (matchToEntry s)(m \<mapsto> sel),
                      brokeredAcceptedOrders := brokeredAcceptedOrders s + (if m \<in> brokerMatchIDs s then 1 else 0)\<rparr>
                    else s);
              s2 = s1\<lparr>buyerAcceptToMatch := (buyerAcceptToMatch s1)(ID msg \<mapsto> m)\<rparr>
         in if previewToMatch s ant \<noteq> None \<and> sel \<noteq> ''''
            then (let s3 = s2\<lparr>entryConversionCount := bump sel (entryConversionCount s2)\<rparr>
                  in case map_of (inventory s3) sel of None \<Rightarrow> s3
                     | Some e \<Rightarrow> sellerStats (SellerKey e) (\<lambda>st. st\<lparr>ConversionCount := ConversionCount st + 1\<rparr>) s3)
            else s2)"

definition applySettleBuyerReject :: "exchange_state \<Rightarrow> message \<Rightarrow> exchange_state" where
  "applySettleBuyerReject s msg = (case Antecedents msg of [] \<Rightarrow> s
   | a # _ \<Rightarrow>
     let m = resolveAlias s a in
     case matchToBuyer s m of None \<Rightarrow> s
     | Some buyer \<Rightarrow>
       if Sender msg \<noteq> buyer then recordFoldDenial foldDenialBuyerIdentity s msg
       else s\<lparr>acceptedOrders := AList.delete m (acceptedOrders s)\<rparr>)"

text \<open>A delivery counts for its entry, its buyer and the pair of them.\<close>

definition countDelivery :: "string \<Rightarrow> string \<Rightarrow> exchange_state \<Rightarrow> exchange_state" where
  "countDelivery e b s =
     (if e = '''' then s
      else let s2 = s\<lparr>entryDeliverCount := bump e (entryDeliverCount s)\<rparr>
        in if b = '''' then s2
           else s2\<lparr>buyerDeliverCount := bump b (buyerDeliverCount s2),
                  entryDeliverBuyerCount := bump2 e b (entryDeliverBuyerCount s2)\<rparr>)"

definition applySettleDeliver :: "exchange_state \<Rightarrow> message \<Rightarrow> exchange_state" where
  "applySettleDeliver s msg =
     (if notOperator s msg then recordFoldDenial foldDenialNotOperator s msg
      else if deliverToMatch s (ID msg) \<noteq> None then s
      else case Antecedents msg of [] \<Rightarrow> s
      | a # _ \<Rightarrow>
        let m = getd '''' (buyerAcceptToMatch s) a in
        if m = '''' then s
        else let s1 = s\<lparr>deliveredOrders := insert m (deliveredOrders s),
                   deliverToMatch := (deliverToMatch s)(ID msg \<mapsto> m),
                   deliverTimeByMatch := (deliverTimeByMatch s)(m \<mapsto> Timestamp msg)\<rparr>
          in countDelivery (getd '''' (matchToEntry s1) m) (getd '''' (matchToBuyer s1) m) s1)"

definition creditSale :: "string \<Rightarrow> string \<Rightarrow> SellerStats \<Rightarrow> SellerStats" where
  "creditSale e b st = st\<lparr>SuccessCount := SuccessCount st + 1,
     RepeatBuyerMap := AList.update b ((case map_of (RepeatBuyerMap st) b of None \<Rightarrow> 0 | Some n \<Rightarrow> n) + 1) (RepeatBuyerMap st),
     EntryBuyerMap := AList.update e (insert b (case map_of (EntryBuyerMap st) e of None \<Rightarrow> {} | Some bs \<Rightarrow> bs)) (EntryBuyerMap st)\<rparr>"

definition recordCompletion :: "string \<Rightarrow> string \<Rightarrow> string \<Rightarrow> message \<Rightarrow> exchange_state \<Rightarrow> exchange_state" where
  "recordCompletion d m e msg s =
     (let s1 = s\<lparr>completedSettlements := completedSettlements s @ [ID msg],
            brokeredCompletions := brokeredCompletions s + (if m \<in> brokerMatchIDs s then 1 else 0)\<rparr>;
          s2 = incrementFederationTransactionCount (Sender msg) s1
      in s2\<lparr>completedEntries := (completedEntries s2)(d \<mapsto> Sender msg),
           buyerConsumeCount := bump (Sender msg) (buyerConsumeCount s2),
           entryConsumeBuyerCount := bump2 e (Sender msg) (entryConsumeBuyerCount s2)\<rparr>)"

definition recordSale :: "string \<Rightarrow> i64 \<Rightarrow> message \<Rightarrow> exchange_state \<Rightarrow> exchange_state" where
  "recordSale e price msg s = (case map_of (inventory s) e of None \<Rightarrow> s
     | Some en \<Rightarrow>
       let s4 = sellerStats (SellerKey en) (creditSale e (Sender msg)) s
       in s4\<lparr>priceHistory := priceHistory s4 @ [\<lparr>pr_EntryID = e, pr_ContentType = ContentType en,
            pr_Domains = Domains en, pr_PutPrice = PutPrice en, pr_SalePrice = price,
            pr_Timestamp = Timestamp msg\<rparr>]\<rparr>)"

definition applySettleComplete :: "exchange_state \<Rightarrow> message \<Rightarrow> exchange_state" where
  "applySettleComplete s msg =
     (if ID msg \<in> set (completedSettlements s) then s
      else case Antecedents msg of [] \<Rightarrow> s
      | a # _ \<Rightarrow>
        let d = resolveAlias s a; m = getd '''' (deliverToMatch s) d in
        if m = '''' then s
        else let e = getd '''' (matchToEntry s) m in
          if e = '''' then s
          else case matchToBuyer s m of None \<Rightarrow> s
          | Some buyer \<Rightarrow>
            if Sender msg \<noteq> buyer then recordFoldDenial foldDenialBuyerIdentity s msg
            else case unmarshal priceFields (Payload msg) 0 of (price, ok) \<Rightarrow>
              if \<not> ok then s
              else recordSale e price msg (recordCompletion d m e msg s))"

abbreviation SmallContentThreshold :: i64 where "SmallContentThreshold \<equiv> 500"

definition isSmallContent :: "InventoryEntry \<Rightarrow> bool" where
  "isSmallContent e \<longleftrightarrow> TokenCost e < SmallContentThreshold \<or> ContentSize e < SmallContentThreshold * 4"

definition applySettleSmallContentDispute :: "exchange_state \<Rightarrow> message \<Rightarrow> exchange_state" where
  "applySettleSmallContentDispute s msg = (case Antecedents msg of [] \<Rightarrow> s
   | a # _ \<Rightarrow>
     let d = resolveAlias s a in
     case deliverToMatch s d of None \<Rightarrow> s
     | Some m \<Rightarrow>
       if m = '''' then s
       else case matchToBuyer s m of None \<Rightarrow> s
       | Some buyer \<Rightarrow>
         if Sender msg \<noteq> buyer then recordFoldDenial foldDenialBuyerIdentity s msg
         else if ID msg \<in> disputeCounted s then s
         else if \<not> snd (unmarshal entryIdFields (Payload msg) '''') then s
         else let e = getd '''' (matchToEntry s) m in
           if e = '''' then s
           else case map_of (inventory s) e of None \<Rightarrow> s
           | Some en \<Rightarrow>
             if \<not> isSmallContent en then s
             else sellerStats (SellerKey en) (\<lambda>st. st\<lparr>SmallContentRefundCount := SmallContentRefundCount st + 1\<rparr>)
               (s\<lparr>disputeCounted := insert (ID msg) (disputeCounted s),
                  smallContentDisputes := bump e (smallContentDisputes s)\<rparr>))"

definition applySettlePreviewRequest :: "exchange_state \<Rightarrow> message \<Rightarrow> exchange_state" where
  "applySettlePreviewRequest s msg = (case Antecedents msg of [] \<Rightarrow> s
   | a # _ \<Rightarrow>
     let m = resolveAlias s a in
     case matchToBuyer s m of None \<Rightarrow> s
     | Some buyer \<Rightarrow>
       if Sender msg \<noteq> buyer then recordFoldDenial foldDenialBuyerIdentity s msg
       else case unmarshal entryIdFields (Payload msg) '''' of (e, ok) \<Rightarrow>
         if \<not> ok \<or> e = '''' then s
         else if previewsByEntry s e (Sender msg) = m then s
         else let s1 = s\<lparr>previewsByEntry := (previewsByEntry s)(e := (previewsByEntry s e)(Sender msg := m)),
                previewCountByMatch := bump m (previewCountByMatch s),
                previewRequestToMatch := (previewRequestToMatch s)(ID msg \<mapsto> m),
                entryPreviewCount := bump e (entryPreviewCount s)\<rparr>
           in case map_of (inventory s1) e of None \<Rightarrow> s1
              | Some en \<Rightarrow> sellerStats (SellerKey en) (\<lambda>st. st\<lparr>PreviewCount := PreviewCount st + 1\<rparr>) s1)"

definition applySettlePreview :: "exchange_state \<Rightarrow> message \<Rightarrow> exchange_state" where
  "applySettlePreview s msg =
     (if notOperator s msg then recordFoldDenial foldDenialNotOperator s msg
      else case Antecedents msg of [] \<Rightarrow> s
      | a # _ \<Rightarrow>
        (case previewRequestToMatch s a of None \<Rightarrow> s
         | Some m \<Rightarrow> s\<lparr>previewToMatch := (previewToMatch s)(ID msg \<mapsto> m)\<rparr>))"

definition applySettle :: "exchange_state \<Rightarrow> message \<Rightarrow> exchange_state" where
  "applySettle s msg =
     (let phase = settlePhaseFromTags (Tags msg) in
      if phase = ''put-accept'' then applySettlePutAccept s msg
      else if phase = ''put-reject'' then applySettlePutReject s msg
      else if phase = ''buyer-accept'' then applySettleBuyerAccept s msg
      else if phase = ''buyer-reject'' then applySettleBuyerReject s msg
      else if phase = ''deliver'' then applySettleDeliver s msg
      else if phase = ''complete'' then applySettleComplete s msg
      else if phase = ''preview-request'' then applySettlePreviewRequest s msg
      else if phase = ''preview'' then applySettlePreview s msg
      else if phase = ''small-content-dispute'' then applySettleSmallContentDispute s msg
      else s)"

section \<open>Scrip holds, settlements, the consume signal and reprices\<close>

record BuyHoldPayload =
  bh_Buyer :: string
  bh_Amount :: i64
  bh_Price :: i64
  bh_Fee :: i64
  bh_ReservationID :: string
  bh_BuyMsg :: string
  bh_ExpiresAt :: string

definition buyHoldZero :: BuyHoldPayload where
  "buyHoldZero = \<lparr>bh_Buyer = '''', bh_Amount = 0, bh_Price = 0, bh_Fee = 0, bh_ReservationID = '''',
     bh_BuyMsg = '''', bh_ExpiresAt = ''''\<rparr>"

definition buyHoldFields :: "BuyHoldPayload fields" where
  "buyHoldFields = [(''buyer'', on_field dec_string bh_Buyer bh_Buyer_update),
     (''amount'', on_field dec_i64 bh_Amount bh_Amount_update),
     (''price'', on_field dec_i64 bh_Price bh_Price_update),
     (''fee'', on_field dec_i64 bh_Fee bh_Fee_update),
     (''reservation_id'', on_field dec_string bh_ReservationID bh_ReservationID_update),
     (''buy_msg'', on_field dec_string bh_BuyMsg bh_BuyMsg_update),
     (''expires_at'', on_field dec_string bh_ExpiresAt bh_ExpiresAt_update)]"

text \<open>No sender is checked here.\<close>

definition applyScripBuyHold :: "exchange_state \<Rightarrow> message \<Rightarrow> exchange_state" where
  "applyScripBuyHold s msg = (case unmarshal buyHoldFields (Payload msg) buyHoldZero of (p, ok) \<Rightarrow>
     if \<not> ok then s
     else if bh_BuyMsg p = '''' \<or> bh_ReservationID p = '''' then s
     else s\<lparr>matchToBuyHold := (matchToBuyHold s)(bh_BuyMsg p \<mapsto> bh_ReservationID p),
            matchToBuyHoldAmount := (matchToBuyHoldAmount s)(bh_BuyMsg p \<mapsto> bh_Amount p)\<rparr>)"

definition GetBuyHoldReservation :: "exchange_state \<Rightarrow> string \<Rightarrow> string" where
  "GetBuyHoldReservation s m = getd '''' (matchToBuyHold s) m"

definition GetBuyHoldAmount :: "exchange_state \<Rightarrow> string \<Rightarrow> i64 option" where
  "GetBuyHoldAmount s m = matchToBuyHoldAmount s m"

definition markMatchSettled :: "string \<Rightarrow> exchange_state \<Rightarrow> exchange_state" where
  "markMatchSettled m s =
     (if m = '''' then s
      else s\<lparr>settledMatches := insert m (settledMatches s),
             matchToBuyHold := (matchToBuyHold s)(m := None),
             matchToBuyHoldAmount := (matchToBuyHoldAmount s)(m := None)\<rparr>)"

definition IsMatchSettled :: "exchange_state \<Rightarrow> string \<Rightarrow> bool" where
  "IsMatchSettled s m \<longleftrightarrow> m \<in> settledMatches s"

record ScripSettlePayload =
  ss_ReservationID :: string
  ss_Seller :: string
  ss_Residual :: i64
  ss_FeeBurned :: i64
  ss_ExchangeRevenue :: i64
  ss_MatchMsg :: string
  ss_ResultHash :: string

definition scripSettleZero :: ScripSettlePayload where
  "scripSettleZero = \<lparr>ss_ReservationID = '''', ss_Seller = '''', ss_Residual = 0, ss_FeeBurned = 0,
     ss_ExchangeRevenue = 0, ss_MatchMsg = '''', ss_ResultHash = ''''\<rparr>"

definition scripSettleFields :: "ScripSettlePayload fields" where
  "scripSettleFields = [(''reservation_id'', on_field dec_string ss_ReservationID ss_ReservationID_update),
     (''seller'', on_field dec_string ss_Seller ss_Seller_update),
     (''residual'', on_field dec_i64 ss_Residual ss_Residual_update),
     (''fee_burned'', on_field dec_i64 ss_FeeBurned ss_FeeBurned_update),
     (''exchange_revenue'', on_field dec_i64 ss_ExchangeRevenue ss_ExchangeRevenue_update),
     (''match_msg'', on_field dec_string ss_MatchMsg ss_MatchMsg_update),
     (''result_hash'', on_field dec_string ss_ResultHash ss_ResultHash_update)]"

definition applyScripSettle :: "exchange_state \<Rightarrow> message \<Rightarrow> exchange_state" where
  "applyScripSettle s msg =
     (if notOperator s msg then recordFoldDenial foldDenialNotOperator s msg
      else case unmarshal scripSettleFields (Payload msg) scripSettleZero of (p, ok) \<Rightarrow>
        if \<not> ok \<or> ss_MatchMsg p = '''' then s else markMatchSettled (ss_MatchMsg p) s)"

definition applyConsume :: "exchange_state \<Rightarrow> message \<Rightarrow> exchange_state" where
  "applyConsume s msg =
     (if notOperator s msg then recordFoldDenial foldDenialNotOperator s msg
      else if ID msg \<in> consumeCounted s then s
      else case unmarshal entryIdFields (Payload msg) '''' of (e, ok) \<Rightarrow>
        if \<not> ok \<or> e = '''' then s
        else s\<lparr>consumeCounted := insert (ID msg) (consumeCounted s),
               entryConsumeCount := bump e (entryConsumeCount s)\<rparr>)"

record RepricePayload =
  rp_EntryID :: string
  rp_OldPrice :: i64
  rp_NewPrice :: i64
  rp_Basis :: string
  rp_RulingRef :: string

definition repriceFields :: "RepricePayload fields" where
  "repriceFields = [(''entry_id'', on_field dec_string rp_EntryID rp_EntryID_update),
     (''old_price'', on_field dec_i64 rp_OldPrice rp_OldPrice_update),
     (''new_price'', on_field dec_i64 rp_NewPrice rp_NewPrice_update),
     (''basis'', on_field dec_string rp_Basis rp_Basis_update),
     (''ruling_ref'', on_field dec_string rp_RulingRef rp_RulingRef_update)]"

definition applyReprice :: "exchange_state \<Rightarrow> message \<Rightarrow> exchange_state" where
  "applyReprice s msg =
     (if notOperator s msg then recordFoldDenial foldDenialNotOperator s msg
      else if ID msg \<in> repriceCounted s then s
      else case unmarshal repriceFields (Payload msg)
          \<lparr>rp_EntryID = '''', rp_OldPrice = 0, rp_NewPrice = 0, rp_Basis = '''', rp_RulingRef = ''''\<rparr> of (p, ok) \<Rightarrow>
        if \<not> ok \<or> rp_EntryID p = '''' then s
        else s\<lparr>repriceCounted := insert (ID msg) (repriceCounted s),
               repriceEvents := (repriceEvents s)(rp_EntryID p := repriceEvents s (rp_EntryID p) @
                 [\<lparr>rr_EntryID = rp_EntryID p, OldPrice = rp_OldPrice p, NewPrice = rp_NewPrice p,
                   Basis = rp_Basis p, RulingRef = rp_RulingRef p, rr_Timestamp = Timestamp msg\<rparr>])\<rparr>)"

definition HasReprice :: "exchange_state \<Rightarrow> string \<Rightarrow> string \<Rightarrow> bool" where
  "HasReprice s e ruling = list_ex (\<lambda>r. RulingRef r = ruling) (repriceEvents s e)"

definition Reprices :: "exchange_state \<Rightarrow> string \<Rightarrow> RepriceRecord list" where
  "Reprices s e = repriceEvents s e"

text \<open>The old price of the first event of an entry under the ruling.\<close>

definition RollbackReprice :: "exchange_state \<Rightarrow> string \<Rightarrow> (string \<rightharpoonup> i64)" where
  "RollbackReprice s ruling = (\<lambda>e. map_option OldPrice (find (\<lambda>r. RulingRef r = ruling) (repriceEvents s e)))"

section \<open>Accessors over the antecedent chain\<close>

definition MatchForDeliver :: "exchange_state \<Rightarrow> string \<Rightarrow> string option" where
  "MatchForDeliver s d0 = (let m = getd '''' (deliverToMatch s) (resolveAlias s d0)
     in if m = '''' then None else Some m)"

definition EntryForDeliver :: "exchange_state \<Rightarrow> string \<Rightarrow> InventoryEntry option" where
  "EntryForDeliver s d0 = (case MatchForDeliver s d0 of None \<Rightarrow> None
     | Some m \<Rightarrow> let e = getd '''' (matchToEntry s) m in
       if e = '''' then None else map_of (inventory s) e)"

definition SellerKeyForDeliver :: "exchange_state \<Rightarrow> string \<Rightarrow> string option" where
  "SellerKeyForDeliver s d0 = map_option SellerKey (EntryForDeliver s d0)"

definition ResolveMatchFromAntecedent :: "exchange_state \<Rightarrow> string \<Rightarrow> string \<times> string \<times> bool" where
  "ResolveMatchFromAntecedent s a0 =
     (let a = resolveAlias s a0 in
      case previewToMatch s a of
        Some m \<Rightarrow> (m, getd '''' (matchToBuyer s) m, True)
      | None \<Rightarrow> (a, getd '''' (matchToBuyer s) a, matchToBuyer s a \<noteq> None))"

definition MatchInfo :: "exchange_state \<Rightarrow> string \<Rightarrow> string \<Rightarrow> string \<times> string \<times> bool \<times> bool" where
  "MatchInfo s m0 previewReq = (let m = resolveAlias s m0 in
     (getd '''' (matchToBuyer s) m, getd '''' (matchToEntry s) m, matchToBuyer s m \<noteq> None,
      previewRequestToMatch s previewReq \<noteq> None))"

definition IsMatchAccepted :: "exchange_state \<Rightarrow> string \<Rightarrow> bool" where
  "IsMatchAccepted s m \<longleftrightarrow> map_of (acceptedOrders s) m \<noteq> None"

definition IsMatchDelivered :: "exchange_state \<Rightarrow> string \<Rightarrow> bool" where
  "IsMatchDelivered s m \<longleftrightarrow> m \<in> deliveredOrders s"

definition DeliverTimeForMatch :: "exchange_state \<Rightarrow> string \<Rightarrow> i64 option" where
  "DeliverTimeForMatch s m = deliverTimeByMatch s m"

definition EntryDemandCount :: "exchange_state \<Rightarrow> string \<Rightarrow> nat" where
  "EntryDemandCount s e = (case map_of (inventory s) e of None \<Rightarrow> 0
     | Some en \<Rightarrow> (case sellers s (SellerKey en) of None \<Rightarrow> 0
       | Some st \<Rightarrow> (case map_of (EntryBuyerMap st) e of None \<Rightarrow> 0 | Some bs \<Rightarrow> card bs)))"

definition RegisterBrokerMatch :: "string \<Rightarrow> exchange_state \<Rightarrow> exchange_state" where
  "RegisterBrokerMatch m s = s\<lparr>brokerMatchIDs := insert m (brokerMatchIDs s)\<rparr>"

definition TaskCompletionRate :: "exchange_state \<Rightarrow> rat" where
  "TaskCompletionRate s = (let accepted = int (length (acceptedOrders s)) in
     if accepted = 0 then 1 else f64_div (int (length (completedSettlements s))) accepted)"

definition BrokeredMatchCompletionRate :: "exchange_state \<Rightarrow> rat" where
  "BrokeredMatchCompletionRate s = (if brokeredAcceptedOrders s = 0 then 1
     else f64_div (f64_of_int (brokeredCompletions s)) (f64_of_int (brokeredAcceptedOrders s)))"

end
