(* ===== verification/Exchange.thy ===== *)
theory Exchange
  imports State_Settle
begin

text \<open>
  The exchange as a whole (\<open>pkg/exchange/state_core.go\<close>): the empty state, the dispatch of one message,
  live application and the replay of a log in windows, with the properties that span the handlers.
\<close>

section \<open>The empty state\<close>

definition NewState :: exchange_state where
  "NewState = \<lparr>OperatorKey = '''', encryptedRequired = False, onFoldDenialWired = False, denials = [],
     replaying = False, replayPutAccepts = {}, replayMsgIDs = None, wireToStore = Map.empty,
     foldDenialCounted = {},
     assignsByEntry = Map.empty, assignByID = [], claimedAssigns = Map.empty,
     pendingAssignResults = [], claimMsgToAssign = Map.empty, completeMsgToAssign = Map.empty,
     brokerAssigns = Map.empty,
     inventory = [], pendingPuts = [], putToEntry = Map.empty, heldForReview = {}, contentHashIndex = {},
     activeOrders = [], matchedOrders = {}, matchToBuyer = Map.empty, matchToEntry = Map.empty,
     matchToResults = Map.empty, matchToBuyMsgID = Map.empty, matchGuarantee = Map.empty,
     demandOnlyTaskHashes = [], demandOnlySenderTimes = [], demandOnlyCounted = {}, buyMissOffers = Map.empty,
     priceHistory = [], sellers = Map.empty, acceptedOrders = [], buyerAcceptToMatch = Map.empty,
     deliveredOrders = {}, deliverToMatch = Map.empty, deliverTimeByMatch = Map.empty,
     completedEntries = Map.empty, completedSettlements = [], previewsByEntry = (\<lambda>_ _. ''''),
     previewCountByMatch = (\<lambda>_. 0), previewRequestToMatch = Map.empty, previewToMatch = Map.empty,
     smallContentDisputes = (\<lambda>_. 0), entryPreviewCount = (\<lambda>_. 0), entryConversionCount = (\<lambda>_. 0),
     entryConsumeCount = (\<lambda>_. 0), entryDeliverCount = (\<lambda>_. 0), buyerDeliverCount = (\<lambda>_. 0),
     buyerConsumeCount = (\<lambda>_. 0), entryDeliverBuyerCount = (\<lambda>_ _. 0), entryConsumeBuyerCount = (\<lambda>_ _. 0),
     matchToBuyHold = Map.empty, matchToBuyHoldAmount = Map.empty, settledMatches = {},
     brokerMatchIDs = {}, brokeredAcceptedOrders = 0, brokeredCompletions = 0, disputeCounted = {},
     consumeCounted = {}, repriceEvents = (\<lambda>_. []), repriceCounted = {}, senderHopDepth = (\<lambda>_. []),
     hopDepthCounted = {}, federationProfiles = Map.empty,
     priceAdjustments = Map.empty, debtorScores = Map.empty, coOccurrence = Map.empty\<rparr>"

section \<open>One message\<close>

definition canonMsg :: "exchange_state \<Rightarrow> message \<Rightarrow> message" where
  "canonMsg s msg = (let canon = resolveAlias s (Sender msg)
     in if canon \<noteq> Sender msg then msg\<lparr>Sender := canon\<rparr> else msg)"

definition dispatch :: "put_env \<Rightarrow> gtime \<Rightarrow> exchange_state \<Rightarrow> message \<Rightarrow> (string \<rightharpoonup> string) \<Rightarrow> exchange_state" where
  "dispatch env now s msg blobs =
     (let op = exchangeOp (Tags msg) in
      if op = TagPut then applyPut env s msg blobs
      else if op = TagBuy then applyBuy now s msg
      else if op = TagMatch then applyMatch s msg
      else if op = TagSettle then applySettle s msg
      else if op = TagAssign then applyAssign s msg
      else if op = TagAssignClaim then applyAssignClaim s msg
      else if op = TagAssignComplete then applyAssignComplete s msg
      else if op = TagAssignAccept then applyAssignAccept s msg
      else if op = TagAssignReject then applyAssignReject s msg
      else if op = TagAssignExpire then applyAssignExpire s msg
      else if op = TagAssignAuctionClose then applyAssignAuctionClose s msg
      else if op = TagReprice then applyReprice s msg
      else if op = TagScripBuyHold then applyScripBuyHold s msg
      else if op = TagScripSettle then applyScripSettle s msg
      else if op = TagConsume then applyConsume s msg
      else s)"

definition applyLocked :: "put_env \<Rightarrow> gtime \<Rightarrow> exchange_state \<Rightarrow> message \<Rightarrow> (string \<rightharpoonup> string) \<Rightarrow> exchange_state" where
  "applyLocked env now s msg0 blobs =
     (let msg = canonMsg s msg0;
          s1 = (if Sender msg \<noteq> '''' then trackSenderHopDepth s msg else s)
      in dispatch env now s1 msg blobs)"

text \<open>\<open>store\<close> is the configured blob store's bounded fetch, \<open>None\<close> when there is none.\<close>

definition Apply :: "put_env \<Rightarrow> gtime \<Rightarrow> (string \<Rightarrow> string option) option \<Rightarrow> exchange_state \<Rightarrow> message \<Rightarrow> exchange_state" where
  "Apply env now store s msg = applyLocked env now s msg (prefetchPutBlobs store [msg])"

section \<open>Replay\<close>

definition putAcceptsOf :: "exchange_state \<Rightarrow> message list \<Rightarrow> string set" where
  "putAcceptsOf s msgs = set (map (hd \<circ> Antecedents) (filter (\<lambda>m.
     exchangeOp (Tags m) = TagSettle \<and> settlePhaseFromTags (Tags m) = ''put-accept''
     \<and> \<not> (OperatorKey s \<noteq> '''' \<and> resolveAlias s (Sender m) \<noteq> OperatorKey s) \<and> Antecedents m \<noteq> []) msgs))"

text \<open>
  The reset: every field that the log determines. What stays is the configuration, the denials already
  raised, the wire aliases, the puts held for review, the brokered matches, the federation profiles, the
  price adjustments and the debtor scores.
\<close>

definition beginReplay :: "message list \<Rightarrow> exchange_state \<Rightarrow> exchange_state" where
  "beginReplay msgs s = NewState\<lparr>
     OperatorKey := OperatorKey s, encryptedRequired := encryptedRequired s,
     onFoldDenialWired := onFoldDenialWired s, denials := denials s, wireToStore := wireToStore s,
     heldForReview := heldForReview s, brokerMatchIDs := brokerMatchIDs s,
     federationProfiles := federationProfiles s, priceAdjustments := priceAdjustments s,
     debtorScores := debtorScores s,
     replaying := True, replayMsgIDs := Some (ID ` set msgs), replayPutAccepts := putAcceptsOf s msgs\<rparr>"

definition endReplay :: "exchange_state \<Rightarrow> exchange_state" where
  "endReplay s = s\<lparr>replaying := False, replayPutAccepts := {}, replayMsgIDs := None\<rparr>"

abbreviation replayFoldWindow :: nat where "replayFoldWindow \<equiv> 128"

function replayWindows :: "put_env \<Rightarrow> gtime \<Rightarrow> (string \<Rightarrow> string option) option \<Rightarrow> exchange_state
    \<Rightarrow> message list \<Rightarrow> exchange_state" where
  "replayWindows env now store s msgs =
     (if msgs = [] then s
      else let batch = take replayFoldWindow msgs; blobs = prefetchPutBlobs store batch
        in replayWindows env now store (foldl (\<lambda>st m. applyLocked env now st m blobs) s batch)
             (drop replayFoldWindow msgs))"
  by pat_completeness auto

termination
  by (relation "measure (\<lambda>(env, now, store, s, msgs). length msgs)") auto

declare replayWindows.simps [simp del]

definition Replay :: "put_env \<Rightarrow> gtime \<Rightarrow> (string \<Rightarrow> string option) option \<Rightarrow> exchange_state \<Rightarrow> message list \<Rightarrow> exchange_state" where
  "Replay env now store s msgs = endReplay (replayWindows env now store (beginReplay msgs s) msgs)"

text \<open>What the same log does when every message is folded by itself.\<close>

definition storeMap :: "(string \<Rightarrow> string option) option \<Rightarrow> (string \<rightharpoonup> string)" where
  "storeMap store = (case store of None \<Rightarrow> Map.empty | Some fetch \<Rightarrow> fetch)"

section \<open>Windows are invisible\<close>

lemma Tags_canonMsg [simp]: "Tags (canonMsg s msg) = Tags msg" "ID (canonMsg s msg) = ID msg"
  "Payload (canonMsg s msg) = Payload msg" "Antecedents (canonMsg s msg) = Antecedents msg"
  "Timestamp (canonMsg s msg) = Timestamp msg" "Sender (canonMsg s msg) = resolveAlias s (Sender msg)"
  by (simp_all add: canonMsg_def Let_def)

lemma putPointer_cong: "Tags m = Tags m' \<Longrightarrow> Payload m = Payload m' \<Longrightarrow> putPointer m = putPointer m'"
  by (simp add: putPointer_def)

lemma prefetchLoop_cong:
  "map putPointer ms = map putPointer ms' \<Longrightarrow> prefetchLoop fetch att out ms = prefetchLoop fetch att out ms'"
proof (induction ms arbitrary: ms' att out)
  case (Cons m ms)
  then obtain m' r' where "ms' = m' # r'" "putPointer m' = putPointer m" "map putPointer ms = map putPointer r'"
    by (cases ms') auto
  with Cons.IH show ?case by (simp split: option.split)
qed simp

lemma applyLocked_prefetch:
  assumes "msg \<in> set msgs"
  shows "applyLocked env now s msg (prefetchPutBlobs store msgs) = applyLocked env now s msg (storeMap store)"
proof (cases store)
  case (Some fetch)
  have put: "applyPut env st (canonMsg s msg) (prefetchPutBlobs (Some fetch) msgs) = applyPut env st (canonMsg s msg) fetch"
    if "exchangeOp (Tags msg) = TagPut" for st :: exchange_state
  proof -
    have "putPointer (canonMsg s msg) = putPointer msg" by (rule putPointer_cong) simp_all
    then have "prefetchPutBlobs (Some fetch) msgs = prefetchPutBlobs (Some fetch) (canonMsg s msg # msgs)"
      using assms by (auto simp: prefetchPutBlobs_apply fun_eq_iff image_iff)
    then show ?thesis using that by (simp add: applyPut_prefetch)
  qed
  then show ?thesis by (simp add: applyLocked_def dispatch_def Some storeMap_def Let_def)
qed (simp add: prefetchPutBlobs_def storeMap_def)

lemma foldl_window:
  "set ms \<subseteq> set batch \<Longrightarrow> foldl (\<lambda>st m. applyLocked env now st m (prefetchPutBlobs store batch)) s ms
    = foldl (\<lambda>st m. applyLocked env now st m (storeMap store)) s ms"
  by (induction ms arbitrary: s) (simp_all add: applyLocked_prefetch)

lemma replayWindows_fold:
  "replayWindows env now store s msgs = foldl (\<lambda>st m. applyLocked env now st m (storeMap store)) s msgs"
proof (induction env now store s msgs rule: replayWindows.induct)
  case (1 env now store s msgs)
  show ?case
  proof (cases "msgs = []")
    case False
    have "foldl (\<lambda>st m. applyLocked env now st m (storeMap store)) s msgs
        = foldl (\<lambda>st m. applyLocked env now st m (storeMap store))
            (foldl (\<lambda>st m. applyLocked env now st m (storeMap store)) s (take replayFoldWindow msgs))
            (drop replayFoldWindow msgs)"
      by (metis append_take_drop_id foldl_append)
    with 1 False show ?thesis by (subst replayWindows.simps) (simp add: Let_def foldl_window)
  qed (simp add: replayWindows.simps)
qed

text \<open>
  C27: the windows of Replay cannot be seen. Replay folds the log in windows of 128 messages and fetches
  the blobs of a window before it folds it. Over a store that answers a pointer consistently the result
  is that of resetting the state and applying the messages one by one, live, each fetching its own blobs.
\<close>

theorem replay_equals_apply:
  "Replay env now store s msgs
     = endReplay (foldl (Apply env now store) (beginReplay msgs s) msgs)"
proof -
  have "Apply env now store = (\<lambda>st m. applyLocked env now st m (storeMap store))"
    by (intro ext) (simp add: Apply_def applyLocked_prefetch)
  then show ?thesis by (simp add: Replay_def replayWindows_fold)
qed

section \<open>The buyer's phases are the buyer's\<close>

text \<open>The match a message of a buyer's phase refers to.\<close>

definition phaseMatch :: "exchange_state \<Rightarrow> message \<Rightarrow> string option" where
  "phaseMatch s msg = (case Antecedents msg of [] \<Rightarrow> None
     | a # _ \<Rightarrow> let phase = settlePhaseFromTags (Tags msg); a' = resolveAlias s a in
       if phase = ''buyer-accept'' then Some (acceptedMatch s a')
       else if phase \<in> {''buyer-reject'', ''preview-request''} then Some a'
       else if phase \<in> {''complete'', ''small-content-dispute''} then deliverToMatch s a'
       else None)"

definition buyerPhases :: "string set" where
  "buyerPhases = {''buyer-accept'', ''buyer-reject'', ''preview-request'', ''complete'', ''small-content-dispute''}"

text \<open>
  C28: the buyer identity gate. In every buyer's phase (accept, reject, preview request, completion,
  small-content dispute) a message from anyone but the buyer of the match it refers to changes nothing
  but the denial counters: no order, no settlement, no seller's reputation and no price history.
\<close>

theorem buyer_phase_gate:
  assumes "settlePhaseFromTags (Tags msg) \<in> buyerPhases"
    and "\<And>m. phaseMatch s msg = Some m \<Longrightarrow> matchToBuyer s m \<noteq> Some (Sender msg)"
  shows "applySettle s msg = s \<or> applySettle s msg = recordFoldDenial foldDenialBuyerIdentity s msg"
proof (cases "Antecedents msg")
  case Nil
  then show ?thesis using assms(1)
    by (auto simp: applySettle_def buyerPhases_def Let_def applySettleBuyerAccept_def applySettleBuyerReject_def
        applySettleComplete_def applySettleSmallContentDispute_def applySettlePreviewRequest_def)
next
  case (Cons a rest)
  define a' where "a' = resolveAlias s a"
  have acc: "applySettleBuyerAccept s msg = s \<or> applySettleBuyerAccept s msg = recordFoldDenial foldDenialBuyerIdentity s msg"
    if "settlePhaseFromTags (Tags msg) = ''buyer-accept''"
    using assms(2)[of "acceptedMatch s a'"] that Cons
    by (auto simp: applySettleBuyerAccept_def phaseMatch_def Let_def a'_def split: option.split)
  have rej: "applySettleBuyerReject s msg = s \<or> applySettleBuyerReject s msg = recordFoldDenial foldDenialBuyerIdentity s msg"
    if "settlePhaseFromTags (Tags msg) = ''buyer-reject''"
    using assms(2)[of a'] that Cons
    by (auto simp: applySettleBuyerReject_def phaseMatch_def Let_def a'_def split: option.split)
  have req: "applySettlePreviewRequest s msg = s \<or> applySettlePreviewRequest s msg = recordFoldDenial foldDenialBuyerIdentity s msg"
    if "settlePhaseFromTags (Tags msg) = ''preview-request''"
    using assms(2)[of a'] that Cons
    by (auto simp: applySettlePreviewRequest_def phaseMatch_def Let_def a'_def split: option.split)
  have com: "applySettleComplete s msg = s \<or> applySettleComplete s msg = recordFoldDenial foldDenialBuyerIdentity s msg"
    if "settlePhaseFromTags (Tags msg) = ''complete''"
    using assms(2) that Cons
    by (auto simp: applySettleComplete_def phaseMatch_def Let_def a'_def getd_def split: option.split)
  have dis: "applySettleSmallContentDispute s msg = s \<or> applySettleSmallContentDispute s msg = recordFoldDenial foldDenialBuyerIdentity s msg"
    if "settlePhaseFromTags (Tags msg) = ''small-content-dispute''"
    using assms(2) that Cons
    by (auto simp: applySettleSmallContentDispute_def phaseMatch_def Let_def a'_def split: option.split)
  show ?thesis using assms(1) acc rej req com dis
    by (auto simp: applySettle_def buyerPhases_def Let_def)
qed

definition gateMsg :: "string \<Rightarrow> string \<Rightarrow> message" where
  "gateMsg phase sender = \<lparr>ID = ''x1'', Sender = sender, Payload = None, Tags = [TagSettle, TagPhasePrefix @ phase],
     Antecedents = [''m1''], Timestamp = 5, Instance = ''''\<rparr>"

definition gateState :: exchange_state where
  "gateState = NewState\<lparr>onFoldDenialWired := True, matchToBuyer := [''m1'' \<mapsto> ''alice''],
     acceptedOrders := [(''m1'', ''e1'')]\<rparr>"

theorem buyer_phase_gate_witness:
  "applySettle gateState (gateMsg ''buyer-reject'' ''eve'') = gateState
   \<or> applySettle gateState (gateMsg ''buyer-reject'' ''eve'')
       = recordFoldDenial foldDenialBuyerIdentity gateState (gateMsg ''buyer-reject'' ''eve'')"
proof (rule buyer_phase_gate)
  show "settlePhaseFromTags (Tags (gateMsg ''buyer-reject'' ''eve'')) \<in> buyerPhases"
    by (simp add: gateMsg_def buyerPhases_def hasPrefix_def)
next
  fix m assume "phaseMatch gateState (gateMsg ''buyer-reject'' ''eve'') = Some m"
  then have "m = ''m1''" by (simp add: phaseMatch_def gateMsg_def gateState_def NewState_def resolveAlias_def hasPrefix_def)
  then show "matchToBuyer gateState m \<noteq> Some (Sender (gateMsg ''buyer-reject'' ''eve''))"
    by (simp add: gateState_def gateMsg_def NewState_def)
qed

end
