(* ===== verification/State_Behavioral.thy ===== *)
theory State_Behavioral
  imports Exchange
begin

text \<open>
  Signals derived from completed purchases (\<open>pkg/exchange/state_behavioral.go\<close> and the accessors of
  \<open>state_accessors.go\<close> that serve the pricing loops): the bounded co-occurrence maps behind next-work
  prediction, the open prediction assigns, price adjustments, debtor scores, completion rates and the
  false-positive expiry criterion. Where the code ranges over a Go map and the order shows, the order is the
  argument \<open>ord\<close>, any permutation of the entries it is given; runs may use another at every update.
\<close>

section \<open>Co-occurrence\<close>

definition CoOccurrenceK :: nat where "CoOccurrenceK = 20"

definition minPeer :: "(string \<times> int) list \<Rightarrow> string \<times> int" where
  "minPeer kvs = foldl (\<lambda>(minKey, minVal) (k, v). if v < minVal then (k, v) else (minKey, minVal))
     ('''', 9223372036854775807) kvs"

definition increment :: "((string \<times> int) list \<Rightarrow> (string \<times> int) list) \<Rightarrow> string \<Rightarrow> (string \<times> int) list
    \<Rightarrow> (string \<times> int) list" where
  "increment ord peer m = (case map_of m peer of
       Some c \<Rightarrow> AList.update peer (c + 1) m
     | None \<Rightarrow>
         let m1 = (if length m \<ge> CoOccurrenceK then AList.delete (fst (minPeer (ord m))) m else m)
         in AList.update peer 1 m1)"

definition topK :: "((string \<times> int) list \<Rightarrow> (string \<times> int) list) \<Rightarrow> nat \<Rightarrow> (string \<times> int) list \<Rightarrow> string list" where
  "topK ord k m = (if m = [] then [] else map fst (take k (insertion_sort (\<lambda>a b. snd a > snd b) (ord m))))"

definition coIncrement :: "((string \<times> int) list \<Rightarrow> (string \<times> int) list) \<Rightarrow> string \<Rightarrow> string
    \<Rightarrow> (string \<rightharpoonup> (string \<times> int) list) \<Rightarrow> (string \<rightharpoonup> (string \<times> int) list)" where
  "coIncrement ord a b co = co(a \<mapsto> increment ord b (getd [] co a))"

definition UpdateCoOccurrence :: "((string \<times> int) list \<Rightarrow> (string \<times> int) list) \<Rightarrow> string \<Rightarrow> string
    \<Rightarrow> exchange_state \<Rightarrow> exchange_state" where
  "UpdateCoOccurrence ord a b s = (if a = '''' \<or> b = '''' \<or> a = b then s
     else s\<lparr>coOccurrence := coIncrement ord b a (coIncrement ord a b (coOccurrence s))\<rparr>)"

definition PredictNext :: "((string \<times> int) list \<Rightarrow> (string \<times> int) list) \<Rightarrow> exchange_state \<Rightarrow> string \<Rightarrow> string list" where
  "PredictNext ord s e = (case coOccurrence s e of None \<Rightarrow> [] | Some m \<Rightarrow> topK ord CoOccurrenceK m)"

section \<open>Prediction assigns\<close>

definition OpenPredictionAssignsForEntry :: "gtime \<Rightarrow> 'z assign_state_scheme \<Rightarrow> string \<Rightarrow> nat" where
  "OpenPredictionAssignsForEntry now s e = length (filter
     (\<lambda>r. TaskType r = ''brokered-match'' \<and> activeStatus r \<and> (is_zero (DeadlineAt r) \<or> \<not> now > DeadlineAt r))
     (map (\<lambda>a. the (assign s a)) (getd [] (assignsByEntry s) e)))"

definition StalePredictionAssigns :: "gtime \<Rightarrow> 'z assign_state_scheme \<Rightarrow> string list" where
  "StalePredictionAssigns now s = map fst (filter
     (\<lambda>(a, r). TaskType r = ''brokered-match'' \<and> Status r = AssignOpen \<and> \<not> is_zero (DeadlineAt r) \<and> now > DeadlineAt r)
     (assignByID s))"

section \<open>Price adjustments and debtor scores\<close>

definition paExpired :: "gtime \<Rightarrow> PriceAdjustment \<Rightarrow> bool" where
  "paExpired now a \<longleftrightarrow> \<not> is_zero (pa_ExpiresAt a) \<and> now > pa_ExpiresAt a"

definition SetPriceAdjustment :: "string \<Rightarrow> PriceAdjustment \<Rightarrow> exchange_state \<Rightarrow> exchange_state" where
  "SetPriceAdjustment e a s = s\<lparr>priceAdjustments := (priceAdjustments s)(e \<mapsto> a)\<rparr>"

definition neutralAdjustment :: PriceAdjustment where
  "neutralAdjustment = \<lparr>Multiplier = 1, pa_ExpiresAt = zero_time, VelocityPerHour = 0, VolumeSurplus = 0\<rparr>"

definition GetPriceAdjustment :: "gtime \<Rightarrow> exchange_state \<Rightarrow> string \<Rightarrow> PriceAdjustment" where
  "GetPriceAdjustment now s e = (case priceAdjustments s e of
       None \<Rightarrow> neutralAdjustment
     | Some a \<Rightarrow> if paExpired now a \<or> Multiplier a \<le> 0 then neutralAdjustment else a)"

definition AllPriceAdjustments :: "gtime \<Rightarrow> exchange_state \<Rightarrow> (string \<rightharpoonup> PriceAdjustment)" where
  "AllPriceAdjustments now s = (\<lambda>e. case priceAdjustments s e of
       None \<Rightarrow> None | Some a \<Rightarrow> if \<not> paExpired now a \<and> Multiplier a > 0 then Some a else None)"

definition SetDebtorScore :: "string \<Rightarrow> rat \<Rightarrow> exchange_state \<Rightarrow> exchange_state" where
  "SetDebtorScore k score s = (let s1 = (if score < 0 then 0 else score); s2 = (if s1 > 1 then 1 else s1)
     in s\<lparr>debtorScores := (debtorScores s)(k \<mapsto> s2)\<rparr>)"

definition DebtorScore :: "exchange_state \<Rightarrow> string \<Rightarrow> rat" where
  "DebtorScore s k = (case debtorScores s k of None \<Rightarrow> 1 | Some v \<Rightarrow> v)"

section \<open>Completion rates\<close>

definition CombinedCompletionRate :: "exchange_state \<Rightarrow> rat" where
  "CombinedCompletionRate s =
     (let tot = int (length (acceptedOrders s)) in
      if tot = 0 then 1
      else let inl = max 0 (tot - brokeredAcceptedOrders s);
               inlineRate = (if inl = 0 then 1
                 else f64_div (f64_of_int (max 0 (int (length (completedSettlements s)) - brokeredCompletions s)))
                        (f64_of_int inl));
               brokerRate = (if brokeredAcceptedOrders s = 0 then 1
                 else f64_div (f64_of_int (brokeredCompletions s)) (f64_of_int (brokeredAcceptedOrders s)));
               inlineWeight = f64_div (f64_of_int inl) (f64_of_int tot);
               brokerWeight = f64_div (f64_of_int (brokeredAcceptedOrders s)) (f64_of_int tot)
           in f64_round (f64_round (inlineRate * inlineWeight) + f64_round (brokerRate * brokerWeight)))"

definition PurchaseCount :: "exchange_state \<Rightarrow> string \<Rightarrow> nat" where
  "PurchaseCount s e = EntryDemandCount s e"

text \<open>One sample per assign: task type, completed, latency in nanoseconds (0 where none is recorded).\<close>

record AssignCompletionSample =
  as_TaskType :: string
  as_Completed :: bool
  as_Latency :: i64

definition AssignCompletionSamples :: "'z assign_state_scheme \<Rightarrow> AssignCompletionSample list" where
  "AssignCompletionSamples s = map (\<lambda>(a, r).
     let completed = \<not> is_zero (ClaimedAt r) \<and> \<not> is_zero (CompletedAt r)
           \<and> Status r \<notin> {AssignOpen, AssignClaimed};
         latency = CompletedAt r - ClaimedAt r
     in \<lparr>as_TaskType = TaskType r, as_Completed = completed,
         as_Latency = (if completed \<and> latency > 0 then latency else 0)\<rparr>) (assignByID s)"

section \<open>False-positive expiry\<close>

text \<open>\<open>IsFalsePositiveExpiry\<close> of \<open>pkg/matching/ranking.go\<close> on a deliver and a consume count.\<close>

definition IsFalsePositiveExpiry :: "int \<Rightarrow> int \<Rightarrow> bool" where
  "IsFalsePositiveExpiry deliver consume \<longleftrightarrow>
     deliver \<ge> 3 \<and> f64_div (f64_of_int deliver) (f64_of_int (max 1 consume)) \<ge> 5"

text \<open>\<open>buyers\<close> lists the buyers the entry was delivered to, in the order the map is ranged over.\<close>

definition abandonRate :: "exchange_state \<Rightarrow> string \<Rightarrow> string \<Rightarrow> rat" where
  "abandonRate s e b =
     (let extDeliver = buyerDeliverCount s b - entryDeliverBuyerCount s e b;
          extConsume = buyerConsumeCount s b - entryConsumeBuyerCount s e b
      in if extDeliver > 0 then max 0 (min 1 (f64_div (f64_of_int extConsume) (f64_of_int extDeliver))) else 1)"

definition entryDeliverAbandonWeight :: "exchange_state \<Rightarrow> string \<Rightarrow> string list \<Rightarrow> rat" where
  "entryDeliverAbandonWeight s e buyers =
     (if buyers = [] then 1
      else let cnt = (\<lambda>b. of_int (f64_of_int (entryDeliverBuyerCount s e b)) :: rat);
               weighted = foldl (\<lambda>acc b. f64_round (acc + f64_round (abandonRate s e b * cnt b))) 0 buyers;
               tot = foldl (\<lambda>acc b. f64_round (acc + cnt b)) 0 buyers
           in if tot = 0 then 1 else f64_round (weighted / tot))"

definition expiryCandidate :: "exchange_state \<Rightarrow> string list \<Rightarrow> string \<Rightarrow> bool" where
  "expiryCandidate s buyers e =
     (let deliver = entryDeliverCount s e; weight = entryDeliverAbandonWeight s e buyers;
          effective = truncate_rat (f64_round (f64_round (of_int (f64_of_int deliver) * weight) + 1/2))
      in IsFalsePositiveExpiry effective (entryConsumeCount s e))"

section \<open>What the maps keep\<close>

definition co_ok :: "int \<Rightarrow> string \<Rightarrow> (string \<times> int) list \<Rightarrow> bool" where
  "co_ok n e m \<longleftrightarrow> map_ok m \<and> length m \<le> CoOccurrenceK \<and> list_all (\<lambda>(k, c). 1 \<le> c \<and> c \<le> n \<and> k \<noteq> e) m"

lemma minPeer_fold:
  "foldl (\<lambda>(mk, mv) (k, v). if v < mv then (k, v) else (mk, mv)) (k0, v0 :: int) kvs = (k, v) \<Longrightarrow>
    v \<le> v0 \<and> ((k, v) = (k0, v0) \<or> (k, v) \<in> set kvs) \<and> (\<forall>(j, w) \<in> set kvs. v \<le> w)"
proof (induction kvs arbitrary: k0 v0)
  case Nil
  then show ?case by simp
next
  case (Cons kv kvs)
  obtain j w where kv: "kv = (j, w)" by fastforce
  show ?case
  proof (cases "w < v0")
    case True
    then show ?thesis using Cons.prems Cons.IH[of j w] by (auto simp: kv)
  next
    case False
    then show ?thesis using Cons.prems Cons.IH[of k0 v0] by (auto simp: kv)
  qed
qed

text \<open>A map whose counts are below the largest int has a peer of least count, and that is the one found.\<close>

lemma minPeer_least:
  assumes "kvs \<noteq> []" "\<forall>(j, w) \<in> set kvs. w < 9223372036854775807" "minPeer kvs = (k, v)"
  shows "(k, v) \<in> set kvs" "\<forall>(j, w) \<in> set kvs. v \<le> w"
proof -
  note f = minPeer_fold[OF assms(3)[unfolded minPeer_def]]
  then show "\<forall>(j, w) \<in> set kvs. v \<le> w" by simp
  obtain j w where "(j, w) \<in> set kvs" using assms(1) by (metis list.set_intros(1) neq_Nil_conv surj_pair)
  with f assms(2) show "(k, v) \<in> set kvs" by fastforce
qed

lemma delete_length: "map_ok m \<Longrightarrow> k \<in> fst ` set m \<Longrightarrow> Suc (length (AList.delete k m)) = length m"
proof (induction m)
  case (Cons kv m)
  then show ?case by (cases "fst kv = k") (auto simp: map_ok_def)
qed simp

lemma length_AList_update: "length (AList.update k v m) = (if k \<in> fst ` set m then length m else Suc (length m))"
  using arg_cong[OF update_keys[of k v m], of length] by (auto split: if_splits)

lemma increment_ok:
  assumes ok: "co_ok n e m" and ord: "\<And>xs. mset (ord xs) = mset xs" and n: "0 \<le> n" "n < 9223372036854775807"
    and peer: "peer \<noteq> e"
  shows "co_ok (n + 1) e (increment ord peer m)"
proof (cases "map_of m peer")
  case (Some c)
  have "length (AList.update peer (c + 1) m) = length m"
    using map_of_SomeD[OF Some] by (force simp: length_AList_update)
  moreover have "(peer, c) \<in> set m" using Some by (rule map_of_SomeD)
  moreover have "set (AList.update peer (c + 1) m) \<subseteq> insert (peer, c + 1) (set m)" by (rule set_update_subset)
  ultimately show ?thesis
    using ok Some peer by (fastforce simp: co_ok_def increment_def list_all_iff)
next
  case None
  define m1 where "m1 = (if length m \<ge> CoOccurrenceK then AList.delete (fst (minPeer (ord m))) m else m)"
  have m: "map_ok m" "length m \<le> CoOccurrenceK" "\<forall>(k, c) \<in> set m. 1 \<le> c \<and> c \<le> n \<and> k \<noteq> e"
    using ok by (auto simp: co_ok_def list_all_iff)
  have so: "set (ord m) = set m" using ord[of m] by (metis set_mset_mset)
  have len: "length m1 < CoOccurrenceK"
  proof (cases "length m \<ge> CoOccurrenceK")
    case True
    then have ne: "ord m \<noteq> []" using so by (auto simp: CoOccurrenceK_def)
    obtain k v where kv: "minPeer (ord m) = (k, v)" by fastforce
    have "(k, v) \<in> set m" using minPeer_least(1)[OF ne _ kv] m(3) n(2) so by fastforce
    then have "Suc (length (AList.delete k m)) = length m" using m(1) by (intro delete_length) force+
    then show ?thesis using True m(2) kv by (simp add: m1_def)
  qed (simp add: m1_def)
  have sub: "set m1 \<subseteq> set m" by (auto simp: m1_def AList.delete_eq)
  have ok1: "map_ok m1" using m(1) by (simp add: m1_def)
  have "peer \<notin> fst ` set m1" using None sub by (auto simp: map_of_eq_None_iff)
  then have l: "length (AList.update peer 1 m1) = Suc (length m1)" by (simp add: length_AList_update)
  have s: "set (AList.update peer 1 m1) \<subseteq> insert (peer, 1) (set m)"
    using set_update_subset[of peer 1 m1] sub by blast
  have "increment ord peer m = AList.update peer 1 m1" using None by (simp add: increment_def m1_def Let_def)
  moreover have "\<forall>(k, c) \<in> set (AList.update peer 1 m1). 1 \<le> c \<and> c \<le> n + 1 \<and> k \<noteq> e"
    using s m(3) peer n(1) by fastforce
  ultimately show ?thesis using l len ok1 by (simp add: co_ok_def list_all_iff)
qed

text \<open>Updates in a row, each under an order of its own.\<close>

definition coUpdates :: "(((string \<times> int) list \<Rightarrow> (string \<times> int) list) \<times> string \<times> string) list
    \<Rightarrow> exchange_state \<Rightarrow> exchange_state" where
  "coUpdates ps s = foldl (\<lambda>s (ord, a, b). UpdateCoOccurrence ord a b s) s ps"

definition permutes :: "((string \<times> int) list \<Rightarrow> (string \<times> int) list) \<Rightarrow> bool" where
  "permutes ord \<longleftrightarrow> (\<forall>xs. mset (ord xs) = mset xs)"

definition co_state_ok :: "int \<Rightarrow> exchange_state \<Rightarrow> bool" where
  "co_state_ok n s \<longleftrightarrow> (\<forall>e m. coOccurrence s e = Some m \<longrightarrow> co_ok n e m)"

lemma co_ok_mono: "co_ok n e m \<Longrightarrow> n \<le> n' \<Longrightarrow> co_ok n' e m"
  by (auto simp: co_ok_def list_all_iff)

lemma co_ok_empty [simp]: "co_ok n e []"
  by (simp add: co_ok_def)

lemma co_state_update:
  assumes ok: "co_state_ok n s" and ord: "\<And>xs. mset (ord xs) = mset xs" and n: "0 \<le> n" "n < 9223372036854775807"
  shows "co_state_ok (n + 1) (UpdateCoOccurrence ord a b s)"
proof (cases "a = '''' \<or> b = '''' \<or> a = b")
  case True
  then have "UpdateCoOccurrence ord a b s = s" by (auto simp: UpdateCoOccurrence_def)
  then show ?thesis using ok co_ok_mono[of n _ _ "n + 1"] by (auto simp: co_state_ok_def)
next
  case False
  have g: "co_ok n e (getd [] (coOccurrence s) e)" for e
    using ok by (cases "coOccurrence s e") (auto simp: co_state_ok_def getd_def)
  note inc = increment_ok[OF g ord n]
  show ?thesis unfolding co_state_ok_def
    using False ok inc[of b a] inc[of a b] co_ok_mono[of n _ _ "n + 1"]
    by (auto simp: UpdateCoOccurrence_def coIncrement_def co_state_ok_def)
qed

lemma co_state_updates:
  "co_state_ok n s \<Longrightarrow> list_all (\<lambda>p. permutes (fst p)) ps \<Longrightarrow> 0 \<le> n \<Longrightarrow> n + int (length ps) \<le> 9223372036854775807 \<Longrightarrow>
    co_state_ok (n + int (length ps)) (coUpdates ps s)"
proof (induction ps arbitrary: n s)
  case Nil
  then show ?case by (simp add: coUpdates_def)
next
  case (Cons p ps)
  obtain ord a b where p: "p = (ord, a, b)" by (cases p)
  have "co_state_ok (n + 1) (UpdateCoOccurrence ord a b s)"
    using Cons.prems by (intro co_state_update) (auto simp: p permutes_def)
  from Cons.IH[OF this] Cons.prems(2,3,4)
  show ?case by (simp add: coUpdates_def p algebra_simps)
qed

lemma topK_spec:
  assumes m: "map_ok m" and ord: "mset (ord m) = mset m"
  shows "distinct (topK ord k m) \<and> set (topK ord k m) \<subseteq> fst ` set m \<and> length (topK ord k m) = min k (length m)
    \<and> sorted_wrt (\<lambda>a b. getd 0 (map_of m) a \<ge> getd 0 (map_of m) b) (topK ord k m)"
proof (cases "m = []")
  case True
  then show ?thesis by (simp add: topK_def)
next
  case False
  let ?s = "sort_key (\<lambda>p. - snd p) (ord m)"
  have t: "topK ord k m = map fst (take k ?s)"
    using False insertion_sort_eq_sort_key[of "\<lambda>a b. snd a > snd b" "\<lambda>p. - snd p" "ord m"] by (simp add: topK_def)
  have ms: "mset ?s = mset m" using ord by simp
  then have st: "set ?s = set m" by (metis set_mset_mset)
  have "mset (map fst ?s) = mset (map fst m)" using ms by (simp only: mset_map)
  from mset_eq_imp_distinct_iff[OF this] have d: "distinct (map fst ?s)" using m by (simp add: map_ok_def)
  have val: "getd 0 (map_of m) (fst p) = snd p" if "p \<in> set (take k ?s)" for p
  proof -
    have "p \<in> set m" using in_set_takeD[OF that] st by simp
    then have "map_of m (fst p) = Some (snd p)" using m by (simp add: map_ok_def)
    then show ?thesis by simp
  qed
  have "sorted_wrt (\<lambda>p q. snd p \<ge> snd q) ?s"
    using sorted_sort_key[of "\<lambda>p. - snd p" "ord m"] by (simp add: sorted_map)
  then have "sorted_wrt (\<lambda>p q. snd p \<ge> snd q) (take k ?s)" by (rule sorted_wrt_take)
  then have "sorted_wrt (\<lambda>p q. getd 0 (map_of m) (fst p) \<ge> getd 0 (map_of m) (fst q)) (take k ?s)"
    using val by (rule_tac sorted_wrt_mono_rel[rotated]) auto
  moreover have "distinct (map fst (take k ?s))" using d by (simp add: take_map[symmetric])
  moreover have "length ?s = length m" using ms by (metis size_mset)
  ultimately show ?thesis using st unfolding t
    by (auto simp: sorted_wrt_map dest!: in_set_takeD)
qed

section \<open>Properties\<close>

text \<open>
  C39: next-work prediction stays bounded. After fewer than 2^63 recorded pairs, whatever order Go ranges over the
  maps in, at each update and at the prediction, an entry's prediction has at most 20 distinct entries, never the
  entry itself, the most frequent first, and every predicted entry was recorded with it.
\<close>

theorem prediction_bounded:
  assumes "coOccurrence s = Map.empty" "permutes ord" "list_all (\<lambda>p. permutes (fst p)) ps"
    "length ps < 9223372036854775807"
  shows "length (PredictNext ord (coUpdates ps s) e) \<le> 20 \<and> distinct (PredictNext ord (coUpdates ps s) e)
    \<and> e \<notin> set (PredictNext ord (coUpdates ps s) e)
    \<and> sorted_wrt (\<lambda>a b. getd 0 (map_of (getd [] (coOccurrence (coUpdates ps s)) e)) a
        \<ge> getd 0 (map_of (getd [] (coOccurrence (coUpdates ps s)) e)) b) (PredictNext ord (coUpdates ps s) e)
    \<and> list_all (\<lambda>p. getd 0 (map_of (getd [] (coOccurrence (coUpdates ps s)) e)) p \<ge> 1)
        (PredictNext ord (coUpdates ps s) e)"
proof (cases "coOccurrence (coUpdates ps s) e")
  case None
  then show ?thesis by (simp add: PredictNext_def)
next
  case (Some m)
  have "co_state_ok (0 + int (length ps)) (coUpdates ps s)"
    by (rule co_state_updates) (use assms in \<open>auto simp: co_state_ok_def\<close>)
  then have "co_ok (int (length ps)) e m" using Some by (simp add: co_state_ok_def)
  then have ok: "map_ok m" "list_all (\<lambda>(k, c). 1 \<le> c \<and> k \<noteq> e) m"
    by (auto simp: co_ok_def list_all_iff)
  note t = topK_spec[of m ord CoOccurrenceK, OF ok(1) assms(2)[unfolded permutes_def, THEN spec]]
  have "getd 0 (map_of m) p \<ge> 1 \<and> p \<noteq> e" if "p \<in> fst ` set m" for p
    using that ok by (auto simp: list_all_iff map_ok_def split: prod.splits)
  then have "\<forall>p \<in> set (topK ord CoOccurrenceK m). getd 0 (map_of m) p \<ge> 1 \<and> p \<noteq> e" using t by blast
  then show ?thesis using t Some by (auto simp: PredictNext_def CoOccurrenceK_def list_all_iff)
qed

text \<open>Four purchases in one session, one update ranging backwards: the pair that came twice is predicted first.\<close>

definition coPairs :: "(((string \<times> int) list \<Rightarrow> (string \<times> int) list) \<times> string \<times> string) list" where
  "coPairs = [(\<lambda>x. x, ''a'', ''b''), (rev, ''a'', ''c''), (\<lambda>x. x, ''b'', ''c''), (\<lambda>x. x, ''a'', ''c'')]"

lemma prediction_bounded_witness:
  "PredictNext (\<lambda>x. x) (coUpdates coPairs NewState) ''a'' = [''c'', ''b'']
    \<and> distinct (PredictNext (\<lambda>x. x) (coUpdates coPairs NewState) ''a'')"
proof
  show "PredictNext (\<lambda>x. x) (coUpdates coPairs NewState) ''a'' = [''c'', ''b'']"
    by (simp add: PredictNext_def coUpdates_def coPairs_def UpdateCoOccurrence_def coIncrement_def increment_def
        NewState_def topK_def insertion_sort_def isort_loop.simps CoOccurrenceK_def getd_def)
  show "distinct (PredictNext (\<lambda>x. x) (coUpdates coPairs NewState) ''a'')"
    using prediction_bounded[of NewState "\<lambda>x. x" coPairs "''a''"] by (simp add: NewState_def coPairs_def permutes_def)
qed

end
