(* ===== verification/Engine_Derivative.thy ===== *)
theory Engine_Derivative
  imports State_Behavioral
begin

text \<open>
  The derivative of an accepted compression task (\<open>createCompressionDerivative\<close> of \<open>pkg/exchange/engine_core.go\<close>,
  \<open>InsertDerivativePut\<close>): the one way an entry comes into stock without a put. The completion's result either
  names a put the worker has published, which is then linked to the original, or carries the bytes, from which
  the engine builds an entry. The match index, which is told of both, is not part of the state.
\<close>

section \<open>The result of a compression task\<close>

record compressionResult =
  cr_ContentHash :: string
  cr_ContentSize :: i64
  cr_Content :: string
  cr_PutEvent :: string

definition compressionFields :: "compressionResult fields" where
  "compressionFields = [(''content_hash'', on_field dec_string cr_ContentHash cr_ContentHash_update),
     (''content_size'', on_field dec_i64 cr_ContentSize cr_ContentSize_update),
     (''content'', on_field dec_string cr_Content cr_Content_update),
     (''put_event'', on_field dec_string cr_PutEvent cr_PutEvent_update)]"

datatype derivative_err = NoOriginal | BadResult | NoSuchPut | NoHash | BadHashPrefix | BadBase64 | NoContent | HashMismatch

text \<open>The entry: identity and content are its own, the rest is the original's; fields not named are zero.\<close>

definition newDerivative :: "InventoryEntry \<Rightarrow> string \<Rightarrow> string \<Rightarrow> string \<Rightarrow> InventoryEntry" where
  "newDerivative orig acceptMsg h b = \<lparr>EntryID = derivativeID acceptMsg, PutMsgID = acceptMsg, SellerKey = SellerKey orig,
     Description = Description orig, ContentHash = h, ContentType = ContentType orig, Domains = Domains orig,
     TokenCost = TokenCost orig, ContentSize = int (length b), PutPrice = PutPrice orig, ExpiresAt = zero_time,
     PutTimestamp = PutTimestamp orig, AcceptedProvenanceLevel = 0, NeedsRevalidation = False,
     CompressedFrom = EntryID orig, CompressionTier = '''', Content = b, BlobPointer = '''', WrappedCEKOperator = '''',
     CiphertextHash = '''', Teaser = '''', LegacyPlaintext = False, HighReuseCoherent = False\<rparr>"

text \<open>The bytes of an inline result, decoded and hashed again by the operator.\<close>

definition inlineContent :: "compressionResult \<Rightarrow> derivative_err + string" where
  "inlineContent res =
    (if cr_ContentHash res = '''' then Inl NoHash
     else if \<not> hasPrefix (cr_ContentHash res) ''sha256:'' then Inl BadHashPrefix
     else (case b64_decode (cr_Content res) of None \<Rightarrow> Inl BadBase64
       | Some b \<Rightarrow>
         if b = '''' then Inl NoContent
         else if sha256Ref b \<noteq> cr_ContentHash res then Inl HashMismatch
         else Inr b))"

definition createCompressionDerivative :: "AssignRecord \<Rightarrow> string \<Rightarrow> exchange_state \<Rightarrow> exchange_state \<times> derivative_err option" where
  "createCompressionDerivative r acceptMsg s = (case GetInventoryEntry s (AssignEntryID r) of None \<Rightarrow> (s, Some NoOriginal)
     | Some orig \<Rightarrow>
       let (res, ok) = unmarshal compressionFields (case Result r of None \<Rightarrow> None | Some pl \<Rightarrow> pl)
           \<lparr>cr_ContentHash = '''', cr_ContentSize = 0, cr_Content = '''', cr_PutEvent = ''''\<rparr> in
        if \<not> ok then (s, Some BadResult)
        else if cr_PutEvent res \<noteq> '''' then
          (let (s', linked) = MarkEntryCompressedFrom (cr_PutEvent res) (AssignEntryID r) s in
             (s', if linked = None then Some NoSuchPut else None))
        else (case inlineContent res of Inl err \<Rightarrow> (s, Some err)
          | Inr b \<Rightarrow> (applyDerivativePut (newDerivative orig acceptMsg (cr_ContentHash res) b) s, None)))"

lemma derived_newDerivative: "derived (newDerivative orig i h b)"
  by (simp add: derived_def newDerivative_def)

lemma inlineContent_Inr: "inlineContent res = Inr b \<Longrightarrow> b \<noteq> '''' \<and> cr_ContentHash res = sha256Ref b"
  by (auto simp: inlineContent_def split: if_splits option.splits)

text \<open>Linking and inserting are the only effects.\<close>

lemma derivative_cases:
  obtains (same) "fst (createCompressionDerivative r i s) = s"
  | (linked) j where "fst (createCompressionDerivative r i s) = fst (MarkEntryCompressedFrom j (AssignEntryID r) s)"
  | (inserted) orig b where "map_of (inventory s) (AssignEntryID r) = Some orig" "b \<noteq> ''''"
      "fst (createCompressionDerivative r i s) = applyDerivativePut (newDerivative orig i (sha256Ref b) b) s"
proof -
  let ?j = "\<lparr>cr_ContentHash = '''', cr_ContentSize = 0, cr_Content = '''', cr_PutEvent = ''''\<rparr>"
  obtain res ok where u: "unmarshal compressionFields (case Result r of None \<Rightarrow> None | Some pl \<Rightarrow> pl) ?j = (res, ok)"
    by (cases "unmarshal compressionFields (case Result r of None \<Rightarrow> None | Some pl \<Rightarrow> pl) ?j") blast
  note d = createCompressionDerivative_def[of r i s] GetInventoryEntry_def[of s] u
  show thesis
  proof (cases "map_of (inventory s) (AssignEntryID r)")
    case None
    show ?thesis by (rule same) (simp add: d None)
  next
    case (Some orig)
    note o = this
    show ?thesis
    proof (cases "ok \<and> cr_PutEvent res = ''''")
      case False
      show ?thesis
      proof (cases ok)
        case True
        then have "cr_PutEvent res \<noteq> ''''" using False by simp
        then show ?thesis using True
          by (intro linked[of "cr_PutEvent res"]) (simp add: d o Let_def split_beta)
      qed (rule same, simp add: d o)
    next
      case True
      show ?thesis
      proof (cases "inlineContent res")
        case (Inl err)
        show ?thesis by (rule same) (use True Inl in \<open>simp add: d o\<close>)
      next
        case (Inr b)
        note i = inlineContent_Inr[OF Inr]
        show ?thesis by (rule inserted[OF o, of b]) (use i Inr True in \<open>simp_all add: d o\<close>)
      qed
    qed
  qed
qed

lemma stock_ok_createDerivative:
  assumes "stock_ok s"
  shows "stock_ok (fst (createCompressionDerivative r i s))"
proof (cases rule: derivative_cases[of r i s])
  case (inserted orig b)
  have "kept_ok orig" using assms map_of_SomeD[OF inserted(1)] by (auto simp: stock_ok_def stocked_ok_def)
  then have "kept_ok (newDerivative orig i (sha256Ref b) b)" by (simp add: kept_ok_def newDerivative_def)
  then show ?thesis using stock_ok_derivative[OF assms derived_newDerivative] inserted(3) by simp
qed (use assms stock_ok_flags(3) in auto)

end
