(* ===== verification/Exchange_Laws.thy ===== *)
theory Exchange_Laws
  imports Exchange Engine_Derivative
begin

text \<open>
  What the handlers leave alone, and the invariants of the exchange state that follow for every log:
  the stock of entries, the silence of Replay, the operator's gate and the settlement chain.
\<close>

section \<open>One message, by cases\<close>

lemma dispatch_rule:
  assumes "P s" "P (applyPut env s msg blobs)" "P (applyBuy now s msg)" "P (applyMatch s msg)"
    "P (applySettle s msg)" "P (applyAssign s msg)" "P (applyAssignClaim s msg)" "P (applyAssignComplete s msg)"
    "P (applyAssignAccept s msg)" "P (applyAssignReject s msg)" "P (applyAssignExpire s msg)"
    "P (applyAssignAuctionClose s msg)" "P (applyReprice s msg)" "P (applyScripBuyHold s msg)"
    "P (applyScripSettle s msg)" "P (applyConsume s msg)"
  shows "P (dispatch env now s msg blobs)"
  using assms by (simp add: dispatch_def Let_def)

lemma settle_rule:
  assumes "P s" "P (applySettlePutAccept s msg)" "P (applySettlePutReject s msg)" "P (applySettleBuyerAccept s msg)"
    "P (applySettleBuyerReject s msg)" "P (applySettleDeliver s msg)" "P (applySettleComplete s msg)"
    "P (applySettlePreviewRequest s msg)" "P (applySettlePreview s msg)" "P (applySettleSmallContentDispute s msg)"
  shows "P (applySettle s msg)"
  using assms by (simp add: applySettle_def Let_def)

section \<open>Frames\<close>

text \<open>The configuration, which no message changes, and the stock, which only puts and their settlement change.\<close>

definition cfg :: "'z core_state_scheme \<Rightarrow> string \<times> bool \<times> bool \<times> bool \<times> string set \<times> string set option \<times> (string \<rightharpoonup> string)" where
  "cfg s = (OperatorKey s, encryptedRequired s, onFoldDenialWired s, replaying s, replayPutAccepts s,
     replayMsgIDs s, wireToStore s)"

definition stock :: "'z put_state_scheme \<Rightarrow> (string \<times> InventoryEntry) list \<times> (string \<times> InventoryEntry) list \<times> string set" where
  "stock s = (pendingPuts s, inventory s, contentHashIndex s)"

named_theorems frames \<open>what a handler leaves alone\<close>

lemma cfg_core [frames]:
  "cfg (denials_update f0 s) = cfg s" "cfg (foldDenialCounted_update f1 s) = cfg s"
  by (simp_all add: cfg_def)

lemma cfg_assign [frames]:
  "cfg (assignsByEntry_update f0 s) = cfg s" "cfg (assignByID_update f1 s) = cfg s"
  "cfg (claimedAssigns_update f2 s) = cfg s" "cfg (pendingAssignResults_update f3 s) = cfg s"
  "cfg (claimMsgToAssign_update f4 s) = cfg s" "cfg (completeMsgToAssign_update f5 s) = cfg s"
  "cfg (brokerAssigns_update f6 s) = cfg s"
  by (simp_all add: cfg_def)

lemma cfg_put [frames]:
  "cfg (inventory_update f0 s) = cfg s" "cfg (pendingPuts_update f1 s) = cfg s" "cfg (putToEntry_update f2 s) = cfg s"
  "cfg (heldForReview_update f3 s) = cfg s" "cfg (contentHashIndex_update f4 s) = cfg s"
  by (simp_all add: cfg_def)

lemma cfg_order [frames]:
  "cfg (activeOrders_update f0 s) = cfg s" "cfg (matchedOrders_update f1 s) = cfg s"
  "cfg (matchToBuyer_update f2 s) = cfg s" "cfg (matchToEntry_update f3 s) = cfg s"
  "cfg (matchToResults_update f4 s) = cfg s" "cfg (matchToBuyMsgID_update f5 s) = cfg s"
  "cfg (matchGuarantee_update f6 s) = cfg s" "cfg (demandOnlyTaskHashes_update f7 s) = cfg s"
  "cfg (demandOnlySenderTimes_update f8 s) = cfg s" "cfg (demandOnlyCounted_update f9 s) = cfg s"
  "cfg (buyMissOffers_update f10 s) = cfg s"
  by (simp_all add: cfg_def)

lemma cfg_exchange [frames]:
  "cfg (priceHistory_update f0 s) = cfg s" "cfg (sellers_update f1 s) = cfg s"
  "cfg (acceptedOrders_update f2 s) = cfg s" "cfg (buyerAcceptToMatch_update f3 s) = cfg s"
  "cfg (deliveredOrders_update f4 s) = cfg s" "cfg (deliverToMatch_update f5 s) = cfg s"
  "cfg (deliverTimeByMatch_update f6 s) = cfg s" "cfg (completedEntries_update f7 s) = cfg s"
  "cfg (completedSettlements_update f8 s) = cfg s" "cfg (previewsByEntry_update f9 s) = cfg s"
  "cfg (previewCountByMatch_update f10 s) = cfg s" "cfg (previewRequestToMatch_update f11 s) = cfg s"
  "cfg (previewToMatch_update f12 s) = cfg s" "cfg (smallContentDisputes_update f13 s) = cfg s"
  "cfg (entryPreviewCount_update f14 s) = cfg s" "cfg (entryConversionCount_update f15 s) = cfg s"
  "cfg (entryConsumeCount_update f16 s) = cfg s" "cfg (entryDeliverCount_update f17 s) = cfg s"
  "cfg (buyerDeliverCount_update f18 s) = cfg s" "cfg (buyerConsumeCount_update f19 s) = cfg s"
  "cfg (entryDeliverBuyerCount_update f20 s) = cfg s" "cfg (entryConsumeBuyerCount_update f21 s) = cfg s"
  "cfg (matchToBuyHold_update f22 s) = cfg s" "cfg (matchToBuyHoldAmount_update f23 s) = cfg s"
  "cfg (settledMatches_update f24 s) = cfg s" "cfg (brokerMatchIDs_update f25 s) = cfg s"
  "cfg (brokeredAcceptedOrders_update f26 s) = cfg s" "cfg (brokeredCompletions_update f27 s) = cfg s"
  "cfg (disputeCounted_update f28 s) = cfg s" "cfg (consumeCounted_update f29 s) = cfg s"
  "cfg (repriceEvents_update f30 s) = cfg s" "cfg (repriceCounted_update f31 s) = cfg s"
  "cfg (senderHopDepth_update f32 s) = cfg s" "cfg (hopDepthCounted_update f33 s) = cfg s"
  "cfg (federationProfiles_update f34 s) = cfg s" "cfg (priceAdjustments_update f35 s) = cfg s"
  "cfg (debtorScores_update f36 s) = cfg s" "cfg (coOccurrence_update f37 s) = cfg s"
  by (simp_all add: cfg_def)

lemma stock_core [frames]:
  "stock (denials_update f0 s) = stock s" "stock (foldDenialCounted_update f1 s) = stock s"
  by (simp_all add: stock_def)

lemma stock_assign [frames]:
  "stock (assignsByEntry_update f0 s) = stock s" "stock (assignByID_update f1 s) = stock s"
  "stock (claimedAssigns_update f2 s) = stock s" "stock (pendingAssignResults_update f3 s) = stock s"
  "stock (claimMsgToAssign_update f4 s) = stock s" "stock (completeMsgToAssign_update f5 s) = stock s"
  "stock (brokerAssigns_update f6 s) = stock s"
  by (simp_all add: stock_def)

lemma stock_put [frames]:
  "stock (putToEntry_update f0 s) = stock s" "stock (heldForReview_update f1 s) = stock s"
  by (simp_all add: stock_def)

lemma stock_order [frames]:
  "stock (activeOrders_update f0 s) = stock s" "stock (matchedOrders_update f1 s) = stock s"
  "stock (matchToBuyer_update f2 s) = stock s" "stock (matchToEntry_update f3 s) = stock s"
  "stock (matchToResults_update f4 s) = stock s" "stock (matchToBuyMsgID_update f5 s) = stock s"
  "stock (matchGuarantee_update f6 s) = stock s" "stock (demandOnlyTaskHashes_update f7 s) = stock s"
  "stock (demandOnlySenderTimes_update f8 s) = stock s" "stock (demandOnlyCounted_update f9 s) = stock s"
  "stock (buyMissOffers_update f10 s) = stock s"
  by (simp_all add: stock_def)

lemma stock_exchange [frames]:
  "stock (priceHistory_update f0 s) = stock s" "stock (sellers_update f1 s) = stock s"
  "stock (acceptedOrders_update f2 s) = stock s" "stock (buyerAcceptToMatch_update f3 s) = stock s"
  "stock (deliveredOrders_update f4 s) = stock s" "stock (deliverToMatch_update f5 s) = stock s"
  "stock (deliverTimeByMatch_update f6 s) = stock s" "stock (completedEntries_update f7 s) = stock s"
  "stock (completedSettlements_update f8 s) = stock s" "stock (previewsByEntry_update f9 s) = stock s"
  "stock (previewCountByMatch_update f10 s) = stock s" "stock (previewRequestToMatch_update f11 s) = stock s"
  "stock (previewToMatch_update f12 s) = stock s" "stock (smallContentDisputes_update f13 s) = stock s"
  "stock (entryPreviewCount_update f14 s) = stock s" "stock (entryConversionCount_update f15 s) = stock s"
  "stock (entryConsumeCount_update f16 s) = stock s" "stock (entryDeliverCount_update f17 s) = stock s"
  "stock (buyerDeliverCount_update f18 s) = stock s" "stock (buyerConsumeCount_update f19 s) = stock s"
  "stock (entryDeliverBuyerCount_update f20 s) = stock s" "stock (entryConsumeBuyerCount_update f21 s) = stock s"
  "stock (matchToBuyHold_update f22 s) = stock s" "stock (matchToBuyHoldAmount_update f23 s) = stock s"
  "stock (settledMatches_update f24 s) = stock s" "stock (brokerMatchIDs_update f25 s) = stock s"
  "stock (brokeredAcceptedOrders_update f26 s) = stock s" "stock (brokeredCompletions_update f27 s) = stock s"
  "stock (disputeCounted_update f28 s) = stock s" "stock (consumeCounted_update f29 s) = stock s"
  "stock (repriceEvents_update f30 s) = stock s" "stock (repriceCounted_update f31 s) = stock s"
  "stock (senderHopDepth_update f32 s) = stock s" "stock (hopDepthCounted_update f33 s) = stock s"
  "stock (federationProfiles_update f34 s) = stock s" "stock (priceAdjustments_update f35 s) = stock s"
  "stock (debtorScores_update f36 s) = stock s" "stock (coOccurrence_update f37 s) = stock s"
  by (simp_all add: stock_def)

lemma denial_frame [frames]: "cfg (recordFoldDenial r s m) = cfg s" "stock (recordFoldDenial r s' m) = stock s'"
  by (simp_all add: frames recordFoldDenial_def)

lemma seller_frame [frames]: "cfg (sellerStats k f s) = cfg s" "stock (sellerStats k f s) = stock s"
  by (simp_all add: frames sellerStats_def)

lemma put_cfg [frames]: "cfg (applyPut env s m b) = cfg s"
  by (simp add: frames applyPut_def split: option.split)

lemma order_frame [frames]:
  "cfg (applyBuy now s m) = cfg s" "stock (applyBuy now s m) = stock s"
  "cfg (applyDemandOnly s m) = cfg s" "stock (applyDemandOnly s m) = stock s"
  "cfg (recordResults m s) = cfg s" "stock (recordResults m s) = stock s"
  "cfg (recordBuyer m k s) = cfg s" "stock (recordBuyer m k s) = stock s"
  by (simp_all add: frames applyBuy_def applyDemandOnly_def recordResults_def recordBuyer_def Let_def split: prod.split option.split)

lemma match_frame [frames]: "cfg (applyMatch s m) = cfg s" "stock (applyMatch s m) = stock s"
  by (simp_all add: frames applyMatch_def split: list.split)

lemma bindClaim_frame [frames]: "cfg (setAssign a r s) = cfg s" "stock (setAssign a r s') = stock s'"
  "cfg (bindClaim a r k c s) = cfg s" "stock (bindClaim a r k c s') = stock s'"
  by (simp_all add: frames setAssign_def bindClaim_def)

lemma assign_frame [frames]:
  "cfg (applyAssign s m) = cfg s" "stock (applyAssign s m) = stock s"
  "cfg (applyAuctionBid a r p s m) = cfg s" "stock (applyAuctionBid a r p s m) = stock s"
  by (simp_all add: frames applyAssign_def applyAuctionBid_def Let_def split: prod.split)

lemma claim_frame [frames]:
  "cfg (applyAssignClaim s m) = cfg s" "stock (applyAssignClaim s m) = stock s"
  "cfg (applyAssignAuctionClose s m) = cfg s" "stock (applyAssignAuctionClose s m) = stock s"
  by (simp_all add: frames applyAssignClaim_def applyAssignAuctionClose_def Let_def split: prod.split option.split list.split)

lemma complete_assign_frame [frames]:
  "cfg (applyAssignComplete s m) = cfg s" "stock (applyAssignComplete s m) = stock s"
  "cfg (applyAssignAccept s m) = cfg s" "stock (applyAssignAccept s m) = stock s"
  "cfg (applyAssignReject s m) = cfg s" "stock (applyAssignReject s m) = stock s"
  "cfg (applyAssignExpire s m) = cfg s" "stock (applyAssignExpire s m) = stock s"
  by (simp_all add: frames applyAssignComplete_def applyAssignAccept_def applyAssignReject_def applyAssignExpire_def
      Let_def split: prod.split option.split list.split)

lemma put_settle_cfg [frames]: "cfg (applySettlePutAccept s m) = cfg s" "cfg (applySettlePutReject s m) = cfg s"
  by (simp_all add: frames applySettlePutAccept_def applySettlePutReject_def Let_def
      split: prod.split option.split list.split)

lemma accept_frame [frames]:
  "cfg (applySettleBuyerAccept s m) = cfg s" "stock (applySettleBuyerAccept s m) = stock s"
  "cfg (applySettleBuyerReject s m) = cfg s" "stock (applySettleBuyerReject s m) = stock s"
  by (simp_all add: frames applySettleBuyerAccept_def applySettleBuyerReject_def Let_def
      split: prod.split option.split list.split)

lemma countDelivery_frame [frames]: "cfg (countDelivery e b s) = cfg s" "stock (countDelivery e b s) = stock s"
  by (simp_all add: frames countDelivery_def Let_def)

lemma deliver_frame [frames]:
  "cfg (applySettleDeliver s m) = cfg s" "stock (applySettleDeliver s m) = stock s"
  "cfg (applySettlePreview s m) = cfg s" "stock (applySettlePreview s m) = stock s"
  "cfg (applySettlePreviewRequest s m) = cfg s" "stock (applySettlePreviewRequest s m) = stock s"
  by (simp_all add: frames applySettleDeliver_def applySettlePreview_def applySettlePreviewRequest_def Let_def
      split: prod.split option.split list.split)

lemma txcount_frame [frames]: "cfg (incrementFederationTransactionCount k s) = cfg s"
  "stock (incrementFederationTransactionCount k s) = stock s"
  by (simp_all add: frames incrementFederationTransactionCount_def split: option.split)

lemma sale_frame [frames]: "cfg (recordCompletion d k e m s) = cfg s" "stock (recordCompletion d k e m s) = stock s"
  "cfg (recordSale e p m s) = cfg s" "stock (recordSale e p m s) = stock s"
  by (simp_all add: frames recordCompletion_def recordSale_def Let_def split: option.split)

lemma complete_frame [frames]:
  "cfg (applySettleComplete s m) = cfg s" "stock (applySettleComplete s m) = stock s"
  "cfg (applySettleSmallContentDispute s m) = cfg s" "stock (applySettleSmallContentDispute s m) = stock s"
  by (simp_all add: frames applySettleComplete_def applySettleSmallContentDispute_def Let_def
      split: prod.split option.split list.split)

lemma ledger_frame [frames]:
  "cfg (applyScripBuyHold s m) = cfg s" "stock (applyScripBuyHold s m) = stock s"
  "cfg (markMatchSettled k s) = cfg s" "stock (markMatchSettled k s) = stock s"
  "cfg (applyConsume s m) = cfg s" "stock (applyConsume s m) = stock s"
  "cfg (applyReprice s m) = cfg s" "stock (applyReprice s m) = stock s"
  by (simp_all add: frames markMatchSettled_def applyScripBuyHold_def applyConsume_def applyReprice_def
      split: prod.split)

lemma scripSettle_frame [frames]: "cfg (applyScripSettle s m) = cfg s" "stock (applyScripSettle s m) = stock s"
  by (simp_all add: frames applyScripSettle_def split: prod.split)

lemma hop_frame [frames]: "cfg (trackSenderHopDepth s m) = cfg s" "stock (trackSenderHopDepth s m) = stock s"
  by (simp_all add: frames trackSenderHopDepth_def addHopDepth_def Let_def)

lemma settle_cfg [frames]: "cfg (applySettle s m) = cfg s"
  by (rule settle_rule) (simp_all add: frames)

lemma dispatch_cfg [frames]: "cfg (dispatch env now s m b) = cfg s"
  by (rule dispatch_rule) (simp_all add: frames)

lemma applyLocked_cfg [frames]: "cfg (applyLocked env now s m b) = cfg s"
  by (simp add: applyLocked_def Let_def frames)

section \<open>The stock of every log\<close>

lemma stock_ok_frame: "stock_ok s \<Longrightarrow> stock t = stock s \<Longrightarrow> stock_ok t"
  by (simp add: stock_def stock_ok_def)

lemma stock_ok_settle:
  assumes "stock_ok s"
  shows "stock_ok (applySettle s m)"
  by (rule settle_rule)
    (simp_all add: assms stock_ok_accept stock_ok_reject frames stock_ok_frame[OF assms])

lemma stock_ok_applyLocked:
  assumes "stock_ok s"
  shows "stock_ok (applyLocked env now s m b)"
proof -
  have t: "stock_ok (if Sender m' \<noteq> '''' then trackSenderHopDepth s m' else s)" for m'
    by (simp add: assms frames stock_ok_frame[OF assms])
  have d: "stock_ok (dispatch env now t m' b)" if "stock_ok t" for t m'
    by (rule dispatch_rule)
      (simp_all add: that stock_ok_put stock_ok_settle frames stock_ok_frame[OF that])
  show ?thesis by (simp only: applyLocked_def Let_def d t)
qed

text \<open>The fold of a log under fixed surroundings: the environment, the clock and the blob store.\<close>

interpretation exst: event_fold "\<lambda>s (env, now, store, m). Apply env now store s m" stock_ok
  by unfold_locales (auto simp: Apply_def intro: stock_ok_applyLocked)

lemma stock_ok_beginReplay: "stock_ok (endReplay (beginReplay msgs s))"
  by (simp add: beginReplay_def NewState_def stock_ok_def stocked_ok_def entries_ok_def hashes_def endReplay_def map_ok_def)

section \<open>The fields of the settlement chain\<close>

definition chain :: "exchange_state \<Rightarrow> (string \<rightharpoonup> string) \<times> (string \<rightharpoonup> string) \<times> (string \<times> string) list \<times> string set \<times> (string \<rightharpoonup> string) \<times> (string \<rightharpoonup> string) \<times> string list \<times> PriceRecord list \<times> (string \<rightharpoonup> string) \<times> (string \<rightharpoonup> string)" where
  "chain s = (matchToBuyer s, buyerAcceptToMatch s, acceptedOrders s, deliveredOrders s, deliverToMatch s, completedEntries s, completedSettlements s, priceHistory s, previewRequestToMatch s, previewToMatch s)"

lemma chain_core [frames]:
  "chain (denials_update f0 s) = chain s" "chain (foldDenialCounted_update f1 s) = chain s"
  "chain (wireToStore_update f2 s) = chain s"
  by (simp_all add: chain_def)

lemma chain_assign [frames]:
  "chain (assignsByEntry_update f0 s) = chain s" "chain (assignByID_update f1 s) = chain s"
  "chain (claimedAssigns_update f2 s) = chain s" "chain (pendingAssignResults_update f3 s) = chain s"
  "chain (claimMsgToAssign_update f4 s) = chain s" "chain (completeMsgToAssign_update f5 s) = chain s"
  "chain (brokerAssigns_update f6 s) = chain s"
  by (simp_all add: chain_def)

lemma chain_put [frames]:
  "chain (inventory_update f0 s) = chain s" "chain (pendingPuts_update f1 s) = chain s"
  "chain (putToEntry_update f2 s) = chain s" "chain (heldForReview_update f3 s) = chain s"
  "chain (contentHashIndex_update f4 s) = chain s"
  by (simp_all add: chain_def)

lemma chain_order [frames]:
  "chain (activeOrders_update f0 s) = chain s" "chain (matchedOrders_update f1 s) = chain s"
  "chain (matchToEntry_update f2 s) = chain s" "chain (matchToResults_update f3 s) = chain s"
  "chain (matchToBuyMsgID_update f4 s) = chain s" "chain (matchGuarantee_update f5 s) = chain s"
  "chain (demandOnlyTaskHashes_update f6 s) = chain s" "chain (demandOnlySenderTimes_update f7 s) = chain s"
  "chain (demandOnlyCounted_update f8 s) = chain s" "chain (buyMissOffers_update f9 s) = chain s"
  by (simp_all add: chain_def)

lemma chain_exchange [frames]:
  "chain (sellers_update f0 s) = chain s" "chain (deliverTimeByMatch_update f1 s) = chain s"
  "chain (previewsByEntry_update f2 s) = chain s" "chain (previewCountByMatch_update f3 s) = chain s"
  "chain (smallContentDisputes_update f4 s) = chain s" "chain (entryPreviewCount_update f5 s) = chain s"
  "chain (entryConversionCount_update f6 s) = chain s" "chain (entryConsumeCount_update f7 s) = chain s"
  "chain (entryDeliverCount_update f8 s) = chain s" "chain (buyerDeliverCount_update f9 s) = chain s"
  "chain (buyerConsumeCount_update f10 s) = chain s" "chain (entryDeliverBuyerCount_update f11 s) = chain s"
  "chain (entryConsumeBuyerCount_update f12 s) = chain s" "chain (matchToBuyHold_update f13 s) = chain s"
  "chain (matchToBuyHoldAmount_update f14 s) = chain s" "chain (settledMatches_update f15 s) = chain s"
  "chain (brokerMatchIDs_update f16 s) = chain s" "chain (brokeredAcceptedOrders_update f17 s) = chain s"
  "chain (brokeredCompletions_update f18 s) = chain s" "chain (disputeCounted_update f19 s) = chain s"
  "chain (consumeCounted_update f20 s) = chain s" "chain (repriceEvents_update f21 s) = chain s"
  "chain (repriceCounted_update f22 s) = chain s" "chain (senderHopDepth_update f23 s) = chain s"
  "chain (hopDepthCounted_update f24 s) = chain s" "chain (federationProfiles_update f25 s) = chain s"
  "chain (priceAdjustments_update f26 s) = chain s" "chain (debtorScores_update f27 s) = chain s"
  "chain (coOccurrence_update f28 s) = chain s"
  by (simp_all add: chain_def)

lemma denial_chain [frames]: "chain (recordFoldDenial r s m) = chain s"
  by (simp add: frames recordFoldDenial_def)

lemma seller_chain [frames]: "chain (sellerStats k f s) = chain s"
  by (simp add: frames sellerStats_def)

lemma order_chain [frames]: "chain (applyPut env s m b) = chain s" "chain (applyBuy now s m) = chain s"
  "chain (applyDemandOnly s m) = chain s"
  by (simp_all add: frames applyPut_def applyBuy_def applyDemandOnly_def Let_def split: prod.split option.split)

lemma setAssign_chain [frames]: "chain (setAssign a r s) = chain s" "chain (bindClaim a r k c s) = chain s"
  by (simp_all add: frames setAssign_def bindClaim_def)

lemma assign_chain [frames]: "chain (applyAssign s m) = chain s" "chain (applyAuctionBid a r p s m) = chain s"
  by (simp_all add: frames applyAssign_def applyAuctionBid_def Let_def split: prod.split)

lemma assigns_chain [frames]: "chain (applyAssignClaim s m) = chain s" "chain (applyAssignAuctionClose s m) = chain s"
  "chain (applyAssignComplete s m) = chain s" "chain (applyAssignAccept s m) = chain s"
  "chain (applyAssignReject s m) = chain s" "chain (applyAssignExpire s m) = chain s"
  by (simp_all add: frames applyAssignClaim_def applyAssignAuctionClose_def applyAssignComplete_def
      applyAssignAccept_def applyAssignReject_def applyAssignExpire_def Let_def split: prod.split option.split list.split)

lemma put_settle_chain [frames]: "chain (applySettlePutAccept s m) = chain s" "chain (applySettlePutReject s m) = chain s"
  by (simp_all add: frames applySettlePutAccept_def applySettlePutReject_def Let_def
      split: prod.split option.split list.split)

lemma ledger_chain [frames]: "chain (applyScripBuyHold s m) = chain s" "chain (markMatchSettled k s) = chain s"
  "chain (applyConsume s m) = chain s" "chain (applyReprice s m) = chain s"
  "chain (incrementFederationTransactionCount k s) = chain s"
  by (simp_all add: frames markMatchSettled_def applyScripBuyHold_def applyConsume_def applyReprice_def
      incrementFederationTransactionCount_def split: prod.split option.split)

lemma misc_chain [frames]: "chain (applyScripSettle s m) = chain s" "chain (applySettleSmallContentDispute s m) = chain s"
  "chain (trackSenderHopDepth s m) = chain s"
  by (simp_all add: frames applyScripSettle_def applySettleSmallContentDispute_def trackSenderHopDepth_def addHopDepth_def
      Let_def split: prod.split option.split list.split)

section \<open>The settlement chain\<close>

definition chain_ok :: "exchange_state \<Rightarrow> bool" where
  "chain_ok s \<longleftrightarrow> ran (buyerAcceptToMatch s) \<subseteq> dom (matchToBuyer s)
     \<and> fst ` set (acceptedOrders s) \<subseteq> ran (buyerAcceptToMatch s)
     \<and> deliveredOrders s \<subseteq> ran (buyerAcceptToMatch s)
     \<and> ran (deliverToMatch s) \<subseteq> deliveredOrders s
     \<and> dom (completedEntries s) \<subseteq> dom (deliverToMatch s)
     \<and> ran (previewRequestToMatch s) \<subseteq> dom (matchToBuyer s) \<and> ran (previewToMatch s) \<subseteq> dom (matchToBuyer s)
     \<and> distinct (completedSettlements s) \<and> length (priceHistory s) \<le> length (completedSettlements s)"

lemma chain_ok_frame: "chain_ok s \<Longrightarrow> chain t = chain s \<Longrightarrow> chain_ok t"
  by (simp add: chain_def chain_ok_def)

lemma ran_upd: "ran (f(k \<mapsto> v)) \<subseteq> insert v (ran f)"
  by (auto simp: ran_def)

lemma set_update_fst: "fst ` set (AList.update k v m) = insert k (fst ` set m)"
  by (simp add: dom_map_of_conv_image_fst[symmetric] update_conv')

lemma set_delete_fst: "fst ` set (AList.delete k m) \<subseteq> fst ` set m"
  by (auto simp: AList.delete_eq)

lemma buyer_accept_chain:
  assumes a: "Antecedents msg = a # rest" and m: "m = acceptedMatch s (resolveAlias s a)"
    and b: "matchToBuyer s m = Some (Sender msg)" "buyerAcceptToMatch s (ID msg) = None"
  shows "chain (applySettleBuyerAccept s msg)
    = chain ((if selectedEntry s msg m \<noteq> '''' then s\<lparr>acceptedOrders := AList.update m (selectedEntry s msg m) (acceptedOrders s)\<rparr>
        else s)\<lparr>buyerAcceptToMatch := (buyerAcceptToMatch s)(ID msg \<mapsto> m)\<rparr>)"
proof -
  define sel where "sel = selectedEntry s msg m"
  show ?thesis using a b unfolding applySettleBuyerAccept_def
    by (simp add: Let_def m[symmetric] sel_def[symmetric] frames split: option.split) (simp add: chain_def)
qed

lemma chain_buyer_accept:
  assumes "chain_ok s"
  shows "chain_ok (applySettleBuyerAccept s msg)"
proof (cases "Antecedents msg")
  case (Cons a rest)
  define m where "m = acceptedMatch s (resolveAlias s a)"
  show ?thesis
  proof (cases "matchToBuyer s m = Some (Sender msg) \<and> buyerAcceptToMatch s (ID msg) = None")
    case True
    have "chain_ok ((if e \<noteq> [] then s\<lparr>acceptedOrders := AList.update m e (acceptedOrders s)\<rparr> else s)
        \<lparr>buyerAcceptToMatch := (buyerAcceptToMatch s)(ID msg \<mapsto> m)\<rparr>)" for e
      using assms True by (simp add: chain_ok_def ran_map_upd set_update_fst) blast
    then show ?thesis using buyer_accept_chain[OF Cons m_def] True by (metis chain_ok_frame)
  next
    case False
    have "chain (applySettleBuyerAccept s msg) = chain s"
      using Cons False unfolding applySettleBuyerAccept_def
      by (auto simp: Let_def m_def frames split: option.split)
    then show ?thesis using assms by (rule chain_ok_frame[rotated])
  qed
qed (simp add: applySettleBuyerAccept_def assms)

lemma chain_buyer_reject: "chain_ok s \<Longrightarrow> chain_ok (applySettleBuyerReject s msg)"
proof (cases "Antecedents msg")
  case (Cons a rest)
  assume ok: "chain_ok s"
  have "fst ` set (AList.delete m (acceptedOrders s)) \<subseteq> ran (buyerAcceptToMatch s)" for m
    using ok subset_trans[OF set_delete_fst[of m "acceptedOrders s"]] by (simp add: chain_ok_def)
  then have del: "chain_ok (s\<lparr>acceptedOrders := AList.delete m (acceptedOrders s)\<rparr>)" for m
    using ok unfolding chain_ok_def by simp
  have den: "chain_ok (recordFoldDenial r s msg)" for r by (rule chain_ok_frame[OF ok denial_chain])
  show ?thesis using Cons
    by (simp add: applySettleBuyerReject_def Let_def ok del den split: option.split)
qed (simp add: applySettleBuyerReject_def)

lemma chain_preview:
  assumes ok: "chain_ok s"
  shows "chain_ok (applySettlePreviewRequest s msg)" "chain_ok (applySettlePreview s msg)"
proof -
  have u: "ran (f(k \<mapsto> m)) \<subseteq> D" if "ran f \<subseteq> D" "m \<in> D" for f :: "string \<rightharpoonup> string" and k m D
    using that ran_upd[of f k m] by blast
  have r: "ran (previewRequestToMatch s) \<subseteq> dom (matchToBuyer s)" "ran (previewToMatch s) \<subseteq> dom (matchToBuyer s)"
    using ok by (auto simp: chain_ok_def)
  have req: "chain_ok (t\<lparr>previewRequestToMatch := (previewRequestToMatch s)(k \<mapsto> m)\<rparr>)"
    if "m \<in> dom (matchToBuyer s)" "chain t = chain s" for t k m
    using ok that u[OF r(1)] by (simp add: chain_ok_def chain_def)
  have pre: "chain_ok (s\<lparr>previewToMatch := (previewToMatch s)(k \<mapsto> m)\<rparr>)"
    if "previewRequestToMatch s a = Some m" for a k m
  proof -
    have "m \<in> dom (matchToBuyer s)" using r(1) that by (auto intro: ranI)
    then show ?thesis using ok u[OF r(2)] by (simp add: chain_ok_def)
  qed
  have d: "chain_ok (recordFoldDenial x s msg)" for x by (rule chain_ok_frame[OF ok denial_chain])
  show "chain_ok (applySettlePreview s msg)"
    using ok d pre by (auto simp: applySettlePreview_def split: list.split option.split)
  show "chain_ok (applySettlePreviewRequest s msg)"
  proof (cases "Antecedents msg")
    case (Cons a rest)
    define m where "m = resolveAlias s a"
    obtain e good where u: "unmarshal entryIdFields (Payload msg) '''' = (e, good)" by (metis surj_pair)
    show ?thesis
    proof (cases "matchToBuyer s m = Some (Sender msg) \<and> good \<and> e \<noteq> '''' \<and> previewsByEntry s e (Sender msg) \<noteq> m")
      case True
      have "chain (applySettlePreviewRequest s msg)
          = chain (s\<lparr>previewRequestToMatch := (previewRequestToMatch s)(ID msg \<mapsto> m)\<rparr>)"
        using Cons True u by (simp add: applySettlePreviewRequest_def Let_def m_def[symmetric] frames split: option.split)
          (simp add: chain_def)
      moreover have "m \<in> dom (matchToBuyer s)" using True by auto
      ultimately show ?thesis using chain_ok_frame[OF req[of m s "ID msg"]] by simp
    next
      case False
      then have "applySettlePreviewRequest s msg = s \<or> applySettlePreviewRequest s msg = recordFoldDenial foldDenialBuyerIdentity s msg"
        using Cons u by (auto simp: applySettlePreviewRequest_def Let_def m_def[symmetric] split: option.split)
      then show ?thesis using ok d by metis
    qed
  qed (simp add: applySettlePreviewRequest_def ok)
qed

lemma getd_nonempty: "getd '''' f k = v \<Longrightarrow> v \<noteq> '''' \<Longrightarrow> f k = Some v"
  by (simp add: getd_def split: option.splits)

lemma countDelivery_chain [frames]: "chain (countDelivery e b s) = chain s"
  by (simp_all add: frames countDelivery_def Let_def)

lemma chain_deliver:
  assumes ok: "chain_ok s"
  shows "chain_ok (applySettleDeliver s msg)"
proof (cases "notOperator s msg \<or> deliverToMatch s (ID msg) \<noteq> None \<or> Antecedents msg = []
    \<or> getd '''' (buyerAcceptToMatch s) (hd (Antecedents msg)) = ''''")
  case True
  then have "applySettleDeliver s msg = s \<or> applySettleDeliver s msg = recordFoldDenial foldDenialNotOperator s msg"
    by (auto simp: applySettleDeliver_def Let_def split: list.split)
  then show ?thesis using ok chain_ok_frame[OF ok denial_chain] by metis
next
  case False
  then obtain a rest where c: "Antecedents msg = a # rest" by (cases "Antecedents msg") auto
  define m where "m = getd [] (buyerAcceptToMatch s) a"
  from False c have m: "m \<noteq> []" by (simp add: m_def)
  let ?t = "s\<lparr>deliveredOrders := insert m (deliveredOrders s), deliverToMatch := (deliverToMatch s)(ID msg \<mapsto> m)\<rparr>"
  have "chain (applySettleDeliver s msg) = chain ?t"
    using False c m by (simp add: applySettleDeliver_def Let_def m_def[symmetric] frames)
  moreover have "m \<in> ran (buyerAcceptToMatch s)"
    using m getd_nonempty[OF m_def[symmetric]] by (auto intro: ranI)
  then have "chain_ok ?t" using ok False
    by (auto simp: chain_ok_def ran_map_upd)
  ultimately show ?thesis by (simp add: chain_ok_frame)
qed

lemma chain_recordCompletion:
  assumes ok: "chain_ok s" and "ID msg \<notin> set (completedSettlements s)" "d \<in> dom (deliverToMatch s)"
  shows "chain_ok (recordCompletion d m e msg s)"
proof -
  have "chain (recordCompletion d m e msg s) = chain (s\<lparr>completedSettlements := completedSettlements s @ [ID msg],
      completedEntries := (completedEntries s)(d \<mapsto> Sender msg)\<rparr>)"
    by (simp add: recordCompletion_def Let_def incrementFederationTransactionCount_def frames split: option.split)
      (simp add: chain_def)
  moreover have "chain_ok (s\<lparr>completedSettlements := completedSettlements s @ [ID msg],
      completedEntries := (completedEntries s)(d \<mapsto> Sender msg)\<rparr>)"
    using assms by (auto simp: chain_ok_def)
  ultimately show ?thesis by (simp add: chain_ok_frame)
qed

lemma completedSettlements_seller [simp]: "completedSettlements (sellerStats k f s) = completedSettlements s"
  "priceHistory (sellerStats k f s) = priceHistory s"
  by (simp_all add: sellerStats_def)

lemma chain_recordSale:
  assumes "chain_ok s" and "length (priceHistory s) < length (completedSettlements s)"
  shows "chain_ok (recordSale e price msg s)"
proof (cases "map_of (inventory s) e")
  case (Some en)
  have "chain_ok (t\<lparr>priceHistory := priceHistory s @ [p]\<rparr>)" if "chain t = chain s" for t p
    using assms that by (simp add: chain_ok_def chain_def)
  then show ?thesis by (simp add: recordSale_def Some Let_def frames)
qed (simp add: recordSale_def assms)

lemma chain_complete:
  assumes ok: "chain_ok s"
  shows "chain_ok (applySettleComplete s msg)"
proof (cases "Antecedents msg")
  case (Cons a rest)
  define d where "d = resolveAlias s a"
  define m where "m = getd [] (deliverToMatch s) d"
  define e where "e = getd [] (matchToEntry s) m"
  obtain price good where u: "unmarshal priceFields (Payload msg) 0 = (price, good)" by (metis surj_pair)
  have dn: "chain_ok (recordFoldDenial r s msg)" for r by (rule chain_ok_frame[OF ok denial_chain])
  show ?thesis
  proof (cases "ID msg \<notin> set (completedSettlements s) \<and> m \<noteq> [] \<and> e \<noteq> [] \<and> matchToBuyer s m = Some (Sender msg) \<and> good")
    case True
    have "d \<in> dom (deliverToMatch s)" using True getd_nonempty[OF m_def[symmetric]] by auto
    then have "chain_ok (recordCompletion d m e msg s)" using True ok by (intro chain_recordCompletion) auto
    moreover have "length (priceHistory (recordCompletion d m e msg s)) < length (completedSettlements (recordCompletion d m e msg s))"
      using ok by (simp add: recordCompletion_def incrementFederationTransactionCount_def Let_def chain_ok_def split: option.split)
    ultimately have "chain_ok (recordSale e price msg (recordCompletion d m e msg s))" by (rule chain_recordSale)
    then show ?thesis
      using Cons True u by (simp add: applySettleComplete_def Let_def d_def[symmetric] m_def[symmetric] e_def[symmetric])
  next
    case False
    then have "applySettleComplete s msg = s \<or> applySettleComplete s msg = recordFoldDenial foldDenialBuyerIdentity s msg"
      using Cons u by (auto simp: applySettleComplete_def Let_def d_def[symmetric] m_def[symmetric] e_def[symmetric] split: option.split)
    then show ?thesis using ok dn by metis
  qed
qed (simp add: applySettleComplete_def ok)

lemma chain_match:
  assumes ok: "chain_ok s"
  shows "chain_ok (applyMatch s msg)"
proof -
  have "chain (applyMatch s msg) = chain s \<or> (\<exists>k b. chain (applyMatch s msg) = chain (s\<lparr>matchToBuyer := (matchToBuyer s)(k \<mapsto> b)\<rparr>))"
    by (simp add: applyMatch_def recordResults_def recordBuyer_def Let_def frames split: list.split option.split prod.split)
      (auto simp: chain_def)
  moreover have "chain_ok (s\<lparr>matchToBuyer := (matchToBuyer s)(k \<mapsto> b)\<rparr>)" for k b
    using ok by (auto simp: chain_ok_def)
  ultimately show ?thesis using ok chain_ok_frame by metis
qed

lemma chain_ok_settle:
  assumes "chain_ok s"
  shows "chain_ok (applySettle s m)"
  by (rule settle_rule)
    (simp_all add: assms chain_buyer_accept chain_buyer_reject chain_preview chain_deliver chain_complete
      frames chain_ok_frame[OF assms])

lemma chain_ok_applyLocked:
  assumes "chain_ok s"
  shows "chain_ok (applyLocked env now s m b)"
proof -
  have t: "chain_ok (if Sender m' \<noteq> '''' then trackSenderHopDepth s m' else s)" for m'
    by (simp add: assms frames chain_ok_frame[OF assms])
  have d: "chain_ok (dispatch env now t m' b)" if "chain_ok t" for t m'
    by (rule dispatch_rule)
      (simp_all add: that chain_match chain_ok_settle frames chain_ok_frame[OF that])
  show ?thesis by (simp only: applyLocked_def Let_def d t)
qed

section \<open>The states of the exchange\<close>

text \<open>
  A state is reached from the empty one under any configuration by applying messages, replaying a log, and
  the writes the engine makes directly: aliases, review holds, entry marks, derivatives of compression tasks,
  assignment payments, standing offers, guarantees, broker matches, settled matches, trust and hop
  observations, price adjustments, debtor scores and co-occurrence counts. These are all the methods of
  \<open>State\<close> that write to it. The task, the completion and the message of a derivative are any.
\<close>

inductive exchange_step :: "exchange_state \<Rightarrow> exchange_state \<Rightarrow> bool" where
  apply_msg: "exchange_step s (Apply env now store s m)"
| replay_log: "exchange_step s (Replay env now store s ms)"
| wire_alias: "exchange_step s (RegisterWireAlias w i s)"
| hold_put: "exchange_step s (HoldPutForReview i s)"
| prune_held: "exchange_step s (PruneHeldForReview ids s)"
| set_level: "exchange_step s (SetEntryProvenanceLevel i lvl s)"
| flag_entry: "exchange_step s (FlagEntryForRevalidation i s)"
| mark_compressed: "exchange_step s (fst (MarkEntryCompressedFrom i j s))"
| flag_seller: "exchange_step s (fst (FlagSellerEntriesForRevalidation k s))"
| derivative: "exchange_step s (fst (createCompressionDerivative r i s))"
| adjust_price: "exchange_step s (SetPriceAdjustment i a s)"
| score_debtor: "exchange_step s (SetDebtorScore k sc s)"
| co_occur: "exchange_step s (UpdateCoOccurrence ord i j s)"
| pay_assign: "exchange_step s (fst (ClaimAssignPayment c s))"
| set_offer: "exchange_step s (fst (SetBuyMissOffer now ofr s))"
| claim_offer: "exchange_step s (fst (ClaimBuyMissOffer now h s))"
| clear_guarantee: "exchange_step s (ClearMatchGuarantee k s)"
| broker_match: "exchange_step s (RegisterBrokerMatch k s)"
| mark_settled: "exchange_step s (markMatchSettled k s)"
| set_trust: "exchange_step s (SetFederationTrustScore now k sc s)"
| observe_hops: "exchange_step s (UpdateFederationProfile now k d s)"

inductive exchange_reach :: "exchange_state \<Rightarrow> bool" where
  start: "exchange_reach (NewState\<lparr>OperatorKey := k, encryptedRequired := e, onFoldDenialWired := w\<rparr>)"
| more: "exchange_reach s \<Longrightarrow> exchange_step s t \<Longrightarrow> exchange_reach t"

inductive_cases exchange_stepE: "exchange_step s t"

lemma edit_frame [frames]: "chain (editEntry i f s) = chain s"
  by (simp add: editEntry_def frames split: option.split)

lemma engine_frame [frames]:
  "stock (RegisterWireAlias w i s) = stock s" "chain (RegisterWireAlias w i s') = chain s'"
  "stock (HoldPutForReview i s) = stock s" "chain (HoldPutForReview i s') = chain s'"
  "stock (PruneHeldForReview ids s) = stock s" "chain (PruneHeldForReview ids s') = chain s'"
  "chain (SetEntryProvenanceLevel i lvl s') = chain s'" "chain (FlagEntryForRevalidation i s') = chain s'"
  "chain (fst (MarkEntryCompressedFrom i j s')) = chain s'" "chain (fst (FlagSellerEntriesForRevalidation k s')) = chain s'"
  by (simp_all add: RegisterWireAlias_def HoldPutForReview_def PruneHeldForReview_def SetEntryProvenanceLevel_def
      FlagEntryForRevalidation_def MarkEntryCompressedFrom_def FlagSellerEntriesForRevalidation_def Let_def frames split: option.split)
    (simp_all add: stock_def)

lemma engine_frame2 [frames]:
  "stock (fst (ClaimAssignPayment c s')) = stock s'" "chain (fst (ClaimAssignPayment c s')) = chain s'"
  "stock (fst (SetBuyMissOffer now ofr s')) = stock s'" "chain (fst (SetBuyMissOffer now ofr s')) = chain s'"
  "stock (fst (ClaimBuyMissOffer now h s')) = stock s'" "chain (fst (ClaimBuyMissOffer now h s')) = chain s'"
  "stock (ClearMatchGuarantee k s') = stock s'" "chain (ClearMatchGuarantee k s') = chain s'"
  "stock (RegisterBrokerMatch k s') = stock s'" "chain (RegisterBrokerMatch k s') = chain s'"
  by (simp_all add: ClaimAssignPayment_def SetBuyMissOffer_def ClaimBuyMissOffer_def ClearMatchGuarantee_def
      RegisterBrokerMatch_def Let_def frames split: option.split)

lemma engine_frame3 [frames]:
  "stock (SetFederationTrustScore now k sc s') = stock s'" "chain (SetFederationTrustScore now k sc s') = chain s'"
  "stock (UpdateFederationProfile now k d s') = stock s'" "chain (UpdateFederationProfile now k d s') = chain s'"
  by (simp_all add: SetFederationTrustScore_def UpdateFederationProfile_def addHopDepth_def Let_def frames split: option.split)

lemma engine_frame4 [frames]:
  "stock (SetPriceAdjustment i a s') = stock s'" "chain (SetPriceAdjustment i a s') = chain s'"
  "stock (SetDebtorScore k sc s') = stock s'" "chain (SetDebtorScore k sc s') = chain s'"
  "stock (UpdateCoOccurrence ord i j s') = stock s'" "chain (UpdateCoOccurrence ord i j s') = chain s'"
  by (simp_all add: SetPriceAdjustment_def SetDebtorScore_def UpdateCoOccurrence_def Let_def stock_def chain_def)

lemma derivative_chain [frames]: "chain (fst (createCompressionDerivative r i s)) = chain s"
  by (rule derivative_cases[of r i s]) (simp_all add: frames applyDerivativePut_def split: option.split)

lemma replay_fold:
  "Replay env now store s msgs = endReplay (foldl (\<lambda>st m. applyLocked env now st m (storeMap store)) (beginReplay msgs s) msgs)"
  by (simp add: Replay_def replayWindows_fold)

lemma applyLocked_run:
  assumes "\<And>st m. P st \<Longrightarrow> P (applyLocked env now st m b)"
  shows "P st \<Longrightarrow> P (foldl (\<lambda>st m. applyLocked env now st m b) st ms)"
  using assms by (induction ms arbitrary: st) auto

lemma beginReplay_ok: "stock_ok (beginReplay ms s)" "chain_ok (beginReplay ms s)"
  by (simp_all add: beginReplay_def NewState_def stock_ok_def chain_ok_def stocked_ok_def entries_ok_def hashes_def map_ok_def)

lemma endReplay_frame [frames]: "stock (endReplay s) = stock s" "chain (endReplay s) = chain s"
  by (simp_all add: endReplay_def stock_def chain_def)

lemma stock_ok_step: "exchange_step s t \<Longrightarrow> stock_ok s \<Longrightarrow> stock_ok t"
proof (induction rule: exchange_step.induct)
  case (replay_log s env now store ms)
  have "stock_ok (foldl (\<lambda>st m. applyLocked env now st m (storeMap store)) (beginReplay ms s) ms)"
    by (rule applyLocked_run) (auto intro: stock_ok_applyLocked beginReplay_ok)
  then show ?case unfolding replay_fold by (rule stock_ok_frame) (simp add: frames)
qed (simp_all add: Apply_def stock_ok_applyLocked stock_ok_flags stock_ok_createDerivative stock_ok_frame frames)

lemma chain_ok_step: "exchange_step s t \<Longrightarrow> chain_ok s \<Longrightarrow> chain_ok t"
proof (induction rule: exchange_step.induct)
  case (replay_log s env now store ms)
  have "chain_ok (foldl (\<lambda>st m. applyLocked env now st m (storeMap store)) (beginReplay ms s) ms)"
    by (rule applyLocked_run) (auto intro: chain_ok_applyLocked beginReplay_ok)
  then show ?case unfolding replay_fold by (rule chain_ok_frame) (simp add: frames)
qed (simp_all add: Apply_def chain_ok_applyLocked chain_ok_frame frames)

lemma reach_ok: "exchange_reach s \<Longrightarrow> stock_ok s \<and> chain_ok s"
proof (induction rule: exchange_reach.induct)
  case (start k e w)
  then show ?case by (simp add: NewState_def stock_ok_def chain_ok_def stocked_ok_def entries_ok_def hashes_def map_ok_def)
qed (auto intro: stock_ok_step chain_ok_step)

lemma chain_completed: "chain_ok s \<Longrightarrow> completedEntries s d = Some b \<Longrightarrow> \<exists>m. deliverToMatch s d = Some m"
  unfolding chain_ok_def by blast

lemma chain_delivered: "chain_ok s \<Longrightarrow> deliverToMatch s d = Some m \<Longrightarrow> m \<in> deliveredOrders s"
  unfolding chain_ok_def by (meson ranI subsetD)

lemma chain_accepted: "chain_ok s \<Longrightarrow> m \<in> deliveredOrders s \<Longrightarrow> \<exists>a. buyerAcceptToMatch s a = Some m"
  unfolding chain_ok_def ran_def by blast

lemma chain_matched: "chain_ok s \<Longrightarrow> buyerAcceptToMatch s a = Some m \<Longrightarrow> matchToBuyer s m \<noteq> None"
  unfolding chain_ok_def ran_def by blast

section \<open>Replay raises no alarm\<close>

definition quiet :: "'z core_state_scheme \<Rightarrow> message \<Rightarrow> bool" where
  "quiet s m \<longleftrightarrow> replaying s \<and> isReplayMsg s (ID m)"

lemma quiet_denial: "quiet s m \<Longrightarrow> recordFoldDenial r s m = s"
  by (simp add: quiet_def recordFoldDenial_replay)

lemma quiet_cfg: "cfg t = cfg s \<Longrightarrow> quiet t m = quiet s m"
  by (simp add: cfg_def quiet_def isReplayMsg_def)

definition alarms :: "'z core_state_scheme \<Rightarrow> (foldDenialReason \<times> string) list \<times> string set" where
  "alarms s = (denials s, foldDenialCounted s)"

lemma alarms_core [frames]:
  "alarms (wireToStore_update f0 s) = alarms s" "alarms (replaying_update f1 s) = alarms s"
  "alarms (replayPutAccepts_update f2 s) = alarms s" "alarms (replayMsgIDs_update f3 s) = alarms s"
  by (simp_all add: alarms_def)

lemma alarms_assign [frames]:
  "alarms (assignsByEntry_update f0 s) = alarms s" "alarms (assignByID_update f1 s) = alarms s"
  "alarms (claimedAssigns_update f2 s) = alarms s" "alarms (pendingAssignResults_update f3 s) = alarms s"
  "alarms (claimMsgToAssign_update f4 s) = alarms s" "alarms (completeMsgToAssign_update f5 s) = alarms s"
  "alarms (brokerAssigns_update f6 s) = alarms s"
  by (simp_all add: alarms_def)

lemma alarms_put [frames]:
  "alarms (inventory_update f0 s) = alarms s" "alarms (pendingPuts_update f1 s) = alarms s"
  "alarms (putToEntry_update f2 s) = alarms s" "alarms (heldForReview_update f3 s) = alarms s"
  "alarms (contentHashIndex_update f4 s) = alarms s"
  by (simp_all add: alarms_def)

lemma alarms_order [frames]:
  "alarms (activeOrders_update f0 s) = alarms s" "alarms (matchedOrders_update f1 s) = alarms s"
  "alarms (matchToBuyer_update f2 s) = alarms s" "alarms (matchToEntry_update f3 s) = alarms s"
  "alarms (matchToResults_update f4 s) = alarms s" "alarms (matchToBuyMsgID_update f5 s) = alarms s"
  "alarms (matchGuarantee_update f6 s) = alarms s" "alarms (demandOnlyTaskHashes_update f7 s) = alarms s"
  "alarms (demandOnlySenderTimes_update f8 s) = alarms s" "alarms (demandOnlyCounted_update f9 s) = alarms s"
  "alarms (buyMissOffers_update f10 s) = alarms s"
  by (simp_all add: alarms_def)

lemma alarms_exchange [frames]:
  "alarms (priceHistory_update f0 s) = alarms s" "alarms (sellers_update f1 s) = alarms s"
  "alarms (acceptedOrders_update f2 s) = alarms s" "alarms (buyerAcceptToMatch_update f3 s) = alarms s"
  "alarms (deliveredOrders_update f4 s) = alarms s" "alarms (deliverToMatch_update f5 s) = alarms s"
  "alarms (deliverTimeByMatch_update f6 s) = alarms s" "alarms (completedEntries_update f7 s) = alarms s"
  "alarms (completedSettlements_update f8 s) = alarms s" "alarms (previewsByEntry_update f9 s) = alarms s"
  "alarms (previewCountByMatch_update f10 s) = alarms s" "alarms (previewRequestToMatch_update f11 s) = alarms s"
  "alarms (previewToMatch_update f12 s) = alarms s" "alarms (smallContentDisputes_update f13 s) = alarms s"
  "alarms (entryPreviewCount_update f14 s) = alarms s" "alarms (entryConversionCount_update f15 s) = alarms s"
  "alarms (entryConsumeCount_update f16 s) = alarms s" "alarms (entryDeliverCount_update f17 s) = alarms s"
  "alarms (buyerDeliverCount_update f18 s) = alarms s" "alarms (buyerConsumeCount_update f19 s) = alarms s"
  "alarms (entryDeliverBuyerCount_update f20 s) = alarms s" "alarms (entryConsumeBuyerCount_update f21 s) = alarms s"
  "alarms (matchToBuyHold_update f22 s) = alarms s" "alarms (matchToBuyHoldAmount_update f23 s) = alarms s"
  "alarms (settledMatches_update f24 s) = alarms s" "alarms (brokerMatchIDs_update f25 s) = alarms s"
  "alarms (brokeredAcceptedOrders_update f26 s) = alarms s" "alarms (brokeredCompletions_update f27 s) = alarms s"
  "alarms (disputeCounted_update f28 s) = alarms s" "alarms (consumeCounted_update f29 s) = alarms s"
  "alarms (repriceEvents_update f30 s) = alarms s" "alarms (repriceCounted_update f31 s) = alarms s"
  "alarms (senderHopDepth_update f32 s) = alarms s" "alarms (hopDepthCounted_update f33 s) = alarms s"
  "alarms (federationProfiles_update f34 s) = alarms s" "alarms (priceAdjustments_update f35 s) = alarms s"
  "alarms (debtorScores_update f36 s) = alarms s" "alarms (coOccurrence_update f37 s) = alarms s"
  by (simp_all add: alarms_def)

lemma seller_denials [frames]: "alarms (sellerStats k f s) = alarms s"
  by (simp add: frames sellerStats_def)

lemma bind_denials [frames]: "alarms (setAssign a r s) = alarms s" "alarms (bindClaim a r k c s) = alarms s"
  by (simp_all add: frames setAssign_def bindClaim_def)

lemma quiet_orders:
  "alarms (applyPut env s m b) = alarms s" "alarms (applyBuy now s m) = alarms s"
  "alarms (applyDemandOnly s m) = alarms s" "alarms (applyMatch s m) = alarms s"
  by (simp_all add: frames applyPut_def applyBuy_def applyDemandOnly_def applyMatch_def recordResults_def recordBuyer_def Let_def
      split: option.split list.split prod.split)

lemma quiet_assigns:
  assumes "quiet s m"
  shows "alarms (applyAssign s m) = alarms s" "alarms (applyAssignClaim s m) = alarms s"
    "alarms (applyAssignComplete s m) = alarms s" "alarms (applyAssignAccept s m) = alarms s"
    "alarms (applyAssignReject s m) = alarms s" "alarms (applyAssignExpire s m) = alarms s"
    "alarms (applyAssignAuctionClose s m) = alarms s"
  by (simp_all add: frames quiet_denial[OF assms] applyAssign_def applyAssignClaim_def applyAuctionBid_def applyAssignComplete_def
      applyAssignAccept_def applyAssignReject_def applyAssignExpire_def applyAssignAuctionClose_def Let_def
      split: option.split list.split prod.split)

lemma quiet_stock_settle:
  assumes "quiet s m"
  shows "alarms (applySettlePutAccept s m) = alarms s" "alarms (applySettlePutReject s m) = alarms s"
  by (simp_all add: frames quiet_denial[OF assms] applySettlePutAccept_def applySettlePutReject_def Let_def
      split: option.split list.split prod.split)

lemma quiet_accept:
  assumes "quiet s m"
  shows "alarms (applySettleBuyerAccept s m) = alarms s" "alarms (applySettleBuyerReject s m) = alarms s"
  by (simp_all add: frames quiet_denial[OF assms] applySettleBuyerAccept_def applySettleBuyerReject_def Let_def
      split: option.split list.split)

lemma countDelivery_alarms [frames]: "alarms (countDelivery e b s) = alarms s"
  by (simp add: frames countDelivery_def Let_def)

lemma quiet_deliver:
  assumes "quiet s m"
  shows "alarms (applySettleDeliver s m) = alarms s" "alarms (applySettlePreview s m) = alarms s"
    "alarms (applySettlePreviewRequest s m) = alarms s"
  by (simp_all add: frames quiet_denial[OF assms] applySettleDeliver_def applySettlePreviewRequest_def applySettlePreview_def Let_def
      split: option.split list.split prod.split)

lemma txcount_denials [frames]: "alarms (incrementFederationTransactionCount k s) = alarms s"
  by (simp add: frames incrementFederationTransactionCount_def split: option.split)

lemma sale_alarms [frames]: "alarms (recordCompletion d k e m s) = alarms s" "alarms (recordSale e p m s) = alarms s"
  by (simp_all add: frames recordCompletion_def recordSale_def Let_def split: option.split)

lemma quiet_complete:
  assumes q: "quiet s m"
  shows "alarms (applySettleComplete s m) = alarms s"
  by (simp add: frames applySettleComplete_def Let_def quiet_denial[OF q] split: option.split list.split prod.split)

lemma quiet_dispute:
  assumes q: "quiet s m"
  shows "alarms (applySettleSmallContentDispute s m) = alarms s"
  by (simp add: frames applySettleSmallContentDispute_def Let_def quiet_denial[OF q]
      split: option.split list.split prod.split)

lemma quiet_settle:
  assumes "quiet s m"
  shows "alarms (applySettle s m) = alarms s"
  by (rule settle_rule[of "\<lambda>u. alarms u = alarms s"]) (simp_all only: quiet_stock_settle[OF assms] quiet_accept[OF assms]
      quiet_deliver[OF assms] quiet_complete[OF assms] quiet_dispute[OF assms])

lemma quiet_ledger:
  assumes "quiet s m"
  shows "alarms (applyReprice s m) = alarms s" "alarms (applyScripBuyHold s m) = alarms s"
    "alarms (applyScripSettle s m) = alarms s" "alarms (applyConsume s m) = alarms s"
  by (simp_all add: frames quiet_denial[OF assms] applyReprice_def applyScripBuyHold_def applyScripSettle_def applyConsume_def
      markMatchSettled_def split: prod.split)

lemma quiet_applyLocked:
  assumes "quiet s m"
  shows "alarms (applyLocked env now s m b) = alarms s"
proof -
  have c: "cfg (if Sender (canonMsg s m) \<noteq> [] then trackSenderHopDepth s (canonMsg s m) else s) = cfg s" (is "cfg ?t = _")
    by (simp add: frames)
  have "quiet ?t m = quiet s m" by (rule quiet_cfg) (rule c)
  then have q: "quiet ?t (canonMsg s m)" using assms by (simp add: quiet_def)
  have "alarms (dispatch env now ?t (canonMsg s m) b) = alarms ?t"
    by (rule dispatch_rule[of "\<lambda>u. alarms u = alarms ?t"])
      (simp_all only: q quiet_orders quiet_assigns quiet_settle quiet_ledger)
  also have "alarms ?t = alarms s" by (simp add: frames trackSenderHopDepth_def addHopDepth_def Let_def)
  finally show ?thesis by (simp only: applyLocked_def Let_def)
qed

section \<open>What only the operator can do\<close>

definition operatorOp :: "message \<Rightarrow> bool" where
  "operatorOp msg \<longleftrightarrow>
     exchangeOp (Tags msg) \<in> {TagMatch, TagAssign, TagAssignAccept, TagAssignReject, TagAssignExpire,
       TagAssignAuctionClose, TagReprice, TagScripSettle, TagConsume}
     \<or> exchangeOp (Tags msg) = TagSettle
       \<and> settlePhaseFromTags (Tags msg) \<in> {''put-accept'', ''put-reject'', ''deliver'', ''preview''}"

definition tracked :: "exchange_state \<Rightarrow> message \<Rightarrow> exchange_state" where
  "tracked s msg = (let m = canonMsg s msg in if Sender m \<noteq> '''' then trackSenderHopDepth s m else s)"

lemma Apply_tracked: "Apply env now store s msg
    = dispatch env now (tracked s msg) (canonMsg s msg) (prefetchPutBlobs store [msg])"
  by (simp add: Apply_def applyLocked_def tracked_def Let_def)

lemma tracked_cfg [frames]: "cfg (tracked s msg) = cfg s"
  by (simp add: tracked_def Let_def frames)

lemma tracked_stock [frames]: "stock (tracked s msg) = stock s"
  by (simp add: tracked_def Let_def frames)

lemma notOperator_cfg: "cfg t = cfg s \<Longrightarrow> notOperator t m = notOperator s m"
  by (simp add: notOperator_def cfg_def)

lemma gated_assigns:
  assumes "notOperator s m"
  shows "applyMatch s m = s" "applyAssign s m = recordFoldDenial foldDenialNotOperator s m"
    "applyAssignAccept s m = recordFoldDenial foldDenialNotOperator s m"
    "applyAssignReject s m = recordFoldDenial foldDenialNotOperator s m"
    "applyAssignExpire s m = recordFoldDenial foldDenialNotOperator s m"
    "applyAssignAuctionClose s m = recordFoldDenial foldDenialNotOperator s m"
  using assms by (simp_all add: applyMatch_def applyAssign_def applyAssignAccept_def applyAssignReject_def
      applyAssignExpire_def applyAssignAuctionClose_def)

lemma gated_others:
  assumes "notOperator s m"
  shows "applyReprice s m = recordFoldDenial foldDenialNotOperator s m"
    "applyScripSettle s m = recordFoldDenial foldDenialNotOperator s m"
    "applyConsume s m = recordFoldDenial foldDenialNotOperator s m"
    "applySettlePutAccept s m = recordFoldDenial foldDenialNotOperator s m"
    "applySettlePutReject s m = recordFoldDenial foldDenialNotOperator s m"
    "applySettleDeliver s m = recordFoldDenial foldDenialNotOperator s m"
    "applySettlePreview s m = recordFoldDenial foldDenialNotOperator s m"
  using assms by (simp_all add: applyReprice_def applyScripSettle_def applyConsume_def applySettlePutAccept_def
      applySettlePutReject_def applySettleDeliver_def applySettlePreview_def)

section \<open>Properties\<close>

text \<open>
  C23: the stock of every state the exchange reaches. Whatever messages are applied or replayed, and whatever
  the engine writes, every entry is filed under its own ID, its declared cost lies between the floor and the
  ceiling, and content kept inline hashes to the entry's content hash and has the recorded size. An entry of
  its own (a put, not the derivative of an accepted compression task) moreover has no more tokens than its
  size allows, and no two such entries, pending or live, carry the same content. A derivative is only held to
  the former: it takes the cost of its original and enters without the deduplication.
\<close>

theorem stock_invariant:
  assumes "exchange_reach s"
  shows "distinct (map (ContentHash \<circ> snd) (pendingPuts s @ filter (\<lambda>x. \<not> derived (snd x)) (inventory s)))
    \<and> list_all (\<lambda>x. EntryID (snd x) = fst x \<and> MinTokenCost \<le> TokenCost (snd x) \<and> TokenCost (snd x) \<le> MaxTokenCost
        \<and> (Content (snd x) = '''' \<or> ContentHash (snd x) = sha256Ref (Content (snd x))
             \<and> ContentSize (snd x) = int (length (Content (snd x)))))
      (pendingPuts s @ inventory s)
    \<and> list_all (\<lambda>x. TokenCost (snd x) \<le> ContentSize (snd x) * MaxTokensPerByte)
      (pendingPuts s @ filter (\<lambda>x. \<not> derived (snd x)) (inventory s))"
proof -
  have ok: "stock_ok s" using reach_ok[OF assms] by blast
  then have d: "distinct (map (ContentHash \<circ> snd) (pendingPuts s @ filter (\<lambda>x. \<not> derived (snd x)) (inventory s)))"
    by (simp add: stock_ok_def hashes_def own_def)
  have p: "EntryID (snd x) = fst x \<and> entry_ok (snd x)" if "x \<in> set (pendingPuts s)" for x
    using ok that unfolding stock_ok_def entries_ok_def by blast
  have i: "EntryID (snd x) = fst x \<and> kept_ok (snd x) \<and> (derived (snd x) \<or> entry_ok (snd x))"
    if "x \<in> set (inventory s)" for x
    using ok that unfolding stock_ok_def stocked_ok_def by blast
  have k: "EntryID (snd x) = fst x \<and> kept_ok (snd x)" if "x \<in> set (pendingPuts s @ inventory s)" for x
    using that p[of x] i[of x] entry_kept[of "snd x"] by auto
  have c: "TokenCost (snd x) \<le> ContentSize (snd x) * MaxTokensPerByte"
    if "x \<in> set (pendingPuts s @ filter (\<lambda>x. \<not> derived (snd x)) (inventory s))" for x
    using that p[of x] i[of x] by (auto simp: entry_ok_def)
  show ?thesis
  proof (intro conjI d)
    show "list_all (\<lambda>x. TokenCost (snd x) \<le> ContentSize (snd x) * MaxTokensPerByte)
        (pendingPuts s @ filter (\<lambda>x. \<not> derived (snd x)) (inventory s))"
      unfolding list_all_iff using c by blast
  qed (use k in \<open>auto simp: list_all_iff kept_ok_def\<close>)
qed

text \<open>
  C22: nothing is settled out of order. In every state the exchange reaches, a completed delivery is one the
  operator delivered, for a match its buyer had accepted and that an operator's match message had bound to a
  buyer; and there are no more recorded sales than completions.
\<close>

theorem settlement_chain:
  assumes "exchange_reach s"
  shows "(\<forall>d b. completedEntries s d = Some b \<longrightarrow>
      (\<exists>m a. deliverToMatch s d = Some m \<and> m \<in> deliveredOrders s \<and> buyerAcceptToMatch s a = Some m
        \<and> matchToBuyer s m \<noteq> None))
    \<and> length (priceHistory s) \<le> card (set (completedSettlements s))"
proof (intro conjI allI impI)
  have ok: "chain_ok s" using reach_ok[OF assms] by blast
  show "length (priceHistory s) \<le> card (set (completedSettlements s))"
    using ok by (simp add: chain_ok_def distinct_card)
  fix d b assume "completedEntries s d = Some b"
  then obtain m where m: "deliverToMatch s d = Some m" using chain_completed[OF ok] by blast
  then have dm: "m \<in> deliveredOrders s" by (rule chain_delivered[OF ok])
  then obtain a where a: "buyerAcceptToMatch s a = Some m" using chain_accepted[OF ok] by blast
  have "matchToBuyer s m \<noteq> None" using a by (rule chain_matched[OF ok])
  then show "\<exists>m a. deliverToMatch s d = Some m \<and> m \<in> deliveredOrders s \<and> buyerAcceptToMatch s a = Some m
      \<and> matchToBuyer s m \<noteq> None" using m dm a by blast
qed

text \<open>
  C26: a replay is silent. Rebuilding the state from any log raises no fold denial: the alarm counters are
  those of before, however many forged messages the log holds.
\<close>

theorem replay_silent: "denials (Replay env now store s msgs) = denials s"
proof -
  define b where "b = beginReplay msgs s"
  have run: "alarms (foldl (\<lambda>st m. applyLocked env now st m (storeMap store)) t ms) = alarms t"
    if "set ms \<subseteq> set msgs" "cfg t = cfg b" for t ms
    using that
  proof (induction ms arbitrary: t)
    case (Cons m ms)
    have "replaying t \<and> isReplayMsg t (ID m)"
      using Cons.prems by (auto simp: cfg_def b_def beginReplay_def isReplayMsg_def)
    then have "alarms (applyLocked env now t m (storeMap store)) = alarms t"
      by (intro quiet_applyLocked) (simp add: quiet_def)
    then show ?case using Cons by (simp add: frames)
  qed simp
  from run[of msgs b] have "alarms (foldl (\<lambda>st m. applyLocked env now st m (storeMap store)) b msgs) = alarms b" by simp
  then show ?thesis by (simp add: replay_fold b_def alarms_def endReplay_def beginReplay_def)
qed


section \<open>A log run through\<close>

text \<open>A buy, its match, the acceptance, the delivery and the completion.\<close>

definition saleMsg :: "string \<Rightarrow> string \<Rightarrow> string list \<Rightarrow> string list \<Rightarrow> json \<Rightarrow> message" where
  "saleMsg i sender tags ants pl = \<lparr>ID = i, Sender = sender, Payload = Some pl, Tags = tags, Antecedents = ants,
     Timestamp = 7, Instance = ''''\<rparr>"

definition saleLog :: "message list" where
  "saleLog = [saleMsg ''b1'' ''bob'' [TagBuy] [] (JObj [(''task'', JStr ''t''), (''budget'', JInt 10)]),
     saleMsg ''m1'' ''op'' [TagMatch] [''b1''] (JObj [(''results'', JArr [JObj [(''entry_id'', JStr ''e1'')]])]),
     saleMsg ''a1'' ''bob'' [TagSettle, TagPhasePrefix @ ''buyer-accept''] [''m1''] (JObj [(''entry_id'', JStr ''e1'')]),
     saleMsg ''d1'' ''op'' [TagSettle, TagPhasePrefix @ ''deliver''] [''a1''] (JObj []),
     saleMsg ''c1'' ''bob'' [TagSettle, TagPhasePrefix @ ''complete''] [''d1''] (JObj [(''price'', JInt 10)])]"

definition saleStart :: exchange_state where
  "saleStart = NewState\<lparr>OperatorKey := ''op'', encryptedRequired := False, onFoldDenialWired := True\<rparr>"

definition saleEnd :: "put_env \<Rightarrow> exchange_state" where
  "saleEnd env = foldl (Apply env 9 None) saleStart saleLog"

lemma sale_run: "completedEntries (saleEnd demoEnv) ''d1'' = Some ''bob''"
  by code_simp

lemma sale_reach: "exchange_reach (saleEnd env)"
proof -
  have "exchange_reach (foldl (Apply env 9 None) s ms)" if "exchange_reach s" for s ms
    using that by (induction ms arbitrary: s) (auto intro: exchange_reach.more exchange_step.apply_msg)
  moreover have "exchange_reach saleStart" unfolding saleStart_def by (rule exchange_reach.start)
  ultimately show ?thesis by (simp add: saleEnd_def)
qed

theorem settlement_chain_witness:
  "completedEntries (saleEnd demoEnv) ''d1'' = Some ''bob''
   \<and> (\<exists>m a. deliverToMatch (saleEnd demoEnv) ''d1'' = Some m \<and> m \<in> deliveredOrders (saleEnd demoEnv)
      \<and> buyerAcceptToMatch (saleEnd demoEnv) a = Some m \<and> matchToBuyer (saleEnd demoEnv) m \<noteq> None)
   \<and> length (priceHistory (saleEnd demoEnv)) \<le> card (set (completedSettlements (saleEnd demoEnv)))"
  using settlement_chain[OF sale_reach[of demoEnv]] sale_run by blast

text \<open>A put, its acceptance, and the derivative of a compression task accepted on it.\<close>

definition plainPut :: message where
  "plainPut = saleMsg ''p1'' ''seller'' [TagPut] [] (JObj [(''description'', JStr ''answer''), (''token_cost'', JInt 200),
     (''content'', JStr (b64_encode ''body''))])"

definition compressTask :: AssignRecord where
  "compressTask = \<lparr>AssignID = ''t1'', AssignEntryID = ''p1'', TaskType = ''compress'', Reward = 1, Status = AssignAccepted,
     ClaimantKey = ''w'', ClaimMsgID = ''k1'', ClaimExpiresAt = zero_time, CompleteMsgID = ''c1'',
     Result = Some (Some (JObj [(''content_hash'', JStr (sha256Ref ''b'')), (''content'', JStr (b64_encode ''b''))])),
     ExclusiveSender = '''', ClaimTimeoutMinutes = 0, AssignReceivedAt = zero_time, AuctionDeadline = zero_time,
     AuctionBids = [], DifficultyTier = '''', VickreyPrice = 0, AssignBuyMsgID = '''', DeadlineAt = zero_time,
     ClaimedAt = zero_time, CompletedAt = zero_time\<rparr>"

definition stockPut :: exchange_state where
  "stockPut = Apply demoEnv 9 None saleStart plainPut"

definition stockAccepted :: exchange_state where
  "stockAccepted = Apply demoEnv 9 None stockPut
     (saleMsg ''q1'' ''op'' [TagSettle, TagPhasePrefix @ ''put-accept''] [''p1''] (JObj [(''price'', JInt 20)]))"

definition stockEnd :: exchange_state where
  "stockEnd = fst (createCompressionDerivative compressTask ''acc'' stockAccepted)"

lemma stockEnd_reach: "exchange_reach stockEnd"
proof -
  have "exchange_reach saleStart" unfolding saleStart_def by (rule exchange_reach.start)
  then show ?thesis unfolding stockEnd_def stockAccepted_def stockPut_def
    by (intro exchange_reach.more[OF _ exchange_step.derivative] exchange_reach.more[OF _ exchange_step.apply_msg])
qed

lemma plain_entry:
  assumes "\<not> encryptedRequired t" "contentHashIndex t = {}"
  shows "\<exists>e. putEntry demoEnv t plainPut b = Some e"
proof -
  define c where "c = b64_encode ''body''"
  have c: "b64_decode c = Some ''body''" "length c = 8" "c \<noteq> ''''"
    using length_b64_encode[of "''body''"] by (auto simp: c_def simp del: b64_encode.simps)
  let ?p = "putZero\<lparr>pp_Description := ''answer'', pp_TokenCost := 200, pp_Content := c\<rparr>"
  have u: "unmarshal putFields (Payload plainPut) putZero = (?p, True)"
    by (simp add: plainPut_def saleMsg_def unmarshal_def find_field_def putFields_def putZero_def on_field_def int64_def
        flip: c_def del: b64_encode.simps)
  have "\<not> isTestLikeDescription ''answer''" by code_simp
  then have g: "putGates ?p ''body''" by (simp add: putGates_def putZero_def)
  have "putPlaintext demoEnv plainPut ?p b = Some (''body'', '''', '''')"
    using c by (simp add: putPlaintext_def putZero_def)
  moreover have "placeContent demoEnv ?p ''body'' = Some (''body'', '''')" by (simp add: placeContent_def putZero_def demoEnv_def)
  ultimately show ?thesis using assms g by (simp add: putEntry_def u putAdmission_def)
qed

lemma plain_stocked: "\<exists>e. map_of (pendingPuts stockPut) ''p1'' = Some e"
proof -
  let ?t = "tracked saleStart plainPut"
  have t: "\<not> encryptedRequired ?t" "contentHashIndex ?t = {}"
    using tracked_cfg[of saleStart plainPut] tracked_stock[of saleStart plainPut]
    by (simp_all add: cfg_def stock_def saleStart_def NewState_def)
  have m: "canonMsg saleStart plainPut = plainPut"
    by (simp add: canonMsg_def plainPut_def saleMsg_def saleStart_def NewState_def)
  have "exchangeOp (Tags plainPut) = TagPut"
    by (simp add: plainPut_def saleMsg_def exchangeOp_def isExchangeOpTag_def)
  then have run: "stockPut = applyPut demoEnv ?t plainPut (prefetchPutBlobs None [plainPut])"
    by (simp add: stockPut_def Apply_tracked m dispatch_def)
  obtain e where "putEntry demoEnv ?t plainPut (prefetchPutBlobs None [plainPut]) = Some e"
    using plain_entry[OF t] by blast
  moreover have "ID plainPut = ''p1''" by (simp add: plainPut_def saleMsg_def)
  ultimately have "pendingPuts stockPut = AList.update ''p1'' e (pendingPuts ?t)" unfolding run by (simp add: applyPut_def)
  then show ?thesis by (simp add: update_conv')
qed

lemma accept_stocked: "\<exists>e. map_of (inventory stockAccepted) ''p1'' = Some e"
proof -
  obtain e where e: "map_of (pendingPuts stockPut) ''p1'' = Some e" using plain_stocked by blast
  then have "e \<in> snd ` set (pendingPuts stockPut)" "(''p1'', e) \<in> set (pendingPuts stockPut)"
    by (auto dest: map_of_SomeD intro: rev_image_eqI)
  moreover have "exchange_reach stockPut" unfolding stockPut_def
    by (rule exchange_reach.more[OF _ exchange_step.apply_msg]) (simp add: saleStart_def exchange_reach.start)
  ultimately have i: "EntryID e = ''p1''" using reach_ok[of stockPut] by (auto simp: stock_ok_def entries_ok_def)
  define m where "m = saleMsg ''q1'' ''op'' [TagSettle, TagPhasePrefix @ ''put-accept''] [''p1''] (JObj [(''price'', JInt 20)])"
  have c: "cfg stockPut = cfg saleStart"
    by (simp add: stockPut_def Apply_def frames)
  then have o: "canonMsg stockPut m = m"
    by (simp add: canonMsg_def m_def saleMsg_def cfg_def saleStart_def NewState_def)
  have op: "exchangeOp (Tags m) = TagSettle" "settlePhaseFromTags (Tags m) = ''put-accept''" "Antecedents m = [''p1'']"
    by (simp_all add: m_def saleMsg_def exchangeOp_def isExchangeOpTag_def hasPrefix_def scripTags_def)
  have "cfg (tracked stockPut m) = cfg saleStart" "stock (tracked stockPut m) = stock stockPut" by (simp_all add: frames c)
  moreover have "\<not> notOperator (tracked stockPut m) m"
    using calculation by (simp add: notOperator_def cfg_def m_def saleMsg_def saleStart_def NewState_def)
  moreover have run: "stockAccepted = applySettlePutAccept (tracked stockPut m) m"
    unfolding stockAccepted_def m_def[symmetric] Apply_tracked o by (simp add: dispatch_def op applySettle_def)
  ultimately show ?thesis using e i
    unfolding run by (simp add: applySettlePutAccept_def stock_def op update_conv')
qed

lemma derivative_stocked: "map_of (inventory stockEnd) (derivativeID ''acc'') \<noteq> None"
proof -
  obtain e where e: "map_of (inventory stockAccepted) ''p1'' = Some e" using accept_stocked by blast
  define h where "h = sha256Ref ''b''"
  define c where "c = b64_encode ''b''"
  have c: "b64_decode c = Some ''b''" by (simp add: c_def del: b64_encode.simps)
  let ?r = "\<lparr>cr_ContentHash = h, cr_ContentSize = 0, cr_Content = c, cr_PutEvent = ''''\<rparr>"
  have u: "unmarshal compressionFields (case Result compressTask of None \<Rightarrow> None | Some pl \<Rightarrow> pl)
      \<lparr>cr_ContentHash = '''', cr_ContentSize = 0, cr_Content = '''', cr_PutEvent = ''''\<rparr> = (?r, True)"
    by (simp add: compressTask_def unmarshal_def find_field_def compressionFields_def on_field_def
        flip: h_def c_def del: b64_encode.simps)
  have "inlineContent ?r = Inr ''b''"
    using c by (auto simp: inlineContent_def h_def sha256Ref_def hasPrefix_def)
  moreover have "AssignEntryID compressTask = ''p1''" by (simp add: compressTask_def)
  ultimately have run: "stockEnd = applyDerivativePut (newDerivative e ''acc'' h ''b'') stockAccepted"
    by (simp add: stockEnd_def createCompressionDerivative_def GetInventoryEntry_def e u)
  show ?thesis unfolding run by (simp add: applyDerivativePut_def newDerivative_def update_conv' split: option.split)
qed

lemma derivative_keeps:
  assumes "map_of (inventory s) k \<noteq> None"
  shows "map_of (inventory (fst (createCompressionDerivative r i s))) k \<noteq> None"
proof (cases rule: derivative_cases[of r i s])
  case (linked j)
  show ?thesis unfolding linked
    using assms by (simp add: MarkEntryCompressedFrom_def editEntry_def update_conv' Let_def split: option.split)
next
  case (inserted orig b)
  show ?thesis unfolding inserted(3)
    using assms by (simp add: applyDerivativePut_def update_conv' split: option.split)
qed (use assms in simp)

lemma original_stocked: "map_of (inventory stockEnd) ''p1'' \<noteq> None"
  unfolding stockEnd_def by (rule derivative_keeps) (use accept_stocked in blast)

theorem stock_invariant_witness:
  "\<exists>e d. map_of (inventory stockEnd) ''p1'' = Some e \<and> map_of (inventory stockEnd) (derivativeID ''acc'') = Some d
   \<and> MinTokenCost \<le> TokenCost d \<and> TokenCost d \<le> MaxTokenCost
   \<and> distinct (map (ContentHash \<circ> snd) (pendingPuts stockEnd @ filter (\<lambda>x. \<not> derived (snd x)) (inventory stockEnd)))"
proof -
  obtain e d where e: "map_of (inventory stockEnd) ''p1'' = Some e" and d: "map_of (inventory stockEnd) (derivativeID ''acc'') = Some d"
    using derivative_stocked original_stocked by blast
  note inv = stock_invariant[OF stockEnd_reach]
  have "MinTokenCost \<le> TokenCost d \<and> TokenCost d \<le> MaxTokenCost"
    using inv[THEN conjunct2, THEN conjunct1] map_of_SomeD[OF d] unfolding list_all_iff set_append by (metis UnI2 snd_conv)
  then show ?thesis using e d inv[THEN conjunct1] by blast
qed


end
