(* ===== verification/Exchange_Redelivery.thy ===== *)
theory Exchange_Redelivery
  imports Exchange_Laws
begin

text \<open>
  At-least-once delivery: the relay may hand the same message to the fold again. Each handler recognises a
  message it has just folded, so a second delivery changes nothing.
\<close>

section \<open>The handlers, one by one\<close>

lemma denial_idem: "recordFoldDenial r (recordFoldDenial r s m) m = recordFoldDenial r s m"
  by (simp add: recordFoldDenial_def isReplayMsg_def)

lemma notOperator_denial [simp]: "notOperator (recordFoldDenial r s m) x = notOperator s x"
  by (simp add: notOperator_def)

lemma consume_idem: "applyConsume (applyConsume s m) m = applyConsume s m"
  by (simp add: applyConsume_def denial_idem split: prod.split) (simp add: notOperator_def)

lemma reprice_idem: "applyReprice (applyReprice s m) m = applyReprice s m"
  by (simp add: applyReprice_def denial_idem split: prod.split) (simp add: notOperator_def)

lemma buy_hold_idem: "applyScripBuyHold (applyScripBuyHold s m) m = applyScripBuyHold s m"
  by (simp add: applyScripBuyHold_def split: prod.split)

lemma scrip_settle_idem: "applyScripSettle (applyScripSettle s m) m = applyScripSettle s m"
  by (simp add: applyScripSettle_def denial_idem markMatchSettled_def split: prod.split) (simp add: notOperator_def)

lemma put_idem: "applyPut env (applyPut env s m b) m b = applyPut env s m b"
proof (cases "putEntry env s m b")
  case (Some e)
  from putEntry_Some[OF Some] obtain p gf x w c content ptr where
    u: "unmarshal putFields (Payload m) putZero = (p, True)" and x: "putPlaintext env m p b = Some (x, w, c)"
    and e: "e = newEntry env m p gf (x, w, c) (content, ptr)" by metis
  have "putEntry env (applyPut env s m b) m b = None"
  proof (rule ccontr)
    assume "putEntry env (applyPut env s m b) m b \<noteq> None"
    then obtain e' where "putEntry env (applyPut env s m b) m b = Some e'" by blast
    from putEntry_Some[OF this] obtain p' x' w' c' where
      "unmarshal putFields (Payload m) putZero = (p', True)" "putPlaintext env m p' b = Some (x', w', c')"
      "sha256Ref x' \<notin> contentHashIndex (applyPut env s m b)" by metis
    then have "sha256Ref x \<notin> contentHashIndex (applyPut env s m b)" using u x by simp
    then show False by (simp add: applyPut_def Some e)
  qed
  then show ?thesis by (simp add: applyPut_None)
qed (simp add: applyPut_None)

lemma buy_idem: "applyBuy now (applyBuy now s m) m = applyBuy now s m"
  by (simp add: applyBuy_def split: prod.split)

lemma demand_seen: "ID m \<in> demandOnlyCounted s \<or> demandOf m = None \<Longrightarrow> applyDemandOnly s m = s"
  by (auto simp: applyDemandOnly_def)

lemma demand_idem: "applyDemandOnly (applyDemandOnly s m) m = applyDemandOnly s m"
proof (cases "demandOf m")
  case (Some d)
  then have "ID m \<in> demandOnlyCounted (applyDemandOnly s m)"
    by (simp add: applyDemandOnly_def split: prod.split)
  then show ?thesis by (simp add: demand_seen)
qed (simp add: demand_seen)

lemma notOperator_orders [simp]: "notOperator (applyDemandOnly s m) x = notOperator s x"
  by (rule notOperator_cfg) (simp add: frames)

lemma match_idem: "applyMatch (applyMatch s m) m = applyMatch s m"
proof (cases "notOperator s m \<or> tagsContain (Tags m) TagDemandOnly \<or> Antecedents m = []")
  case True
  then show ?thesis by (auto simp: applyMatch_def demand_idem split: list.split)
next
  case False
  then obtain k r where a: "Antecedents m = k # r" by (cases "Antecedents m") auto
  obtain rs ok where u: "unmarshal matchFields (Payload m) [] = (rs, ok)" by (metis surj_pair)
  have op: "\<not> (OperatorKey s \<noteq> [] \<and> Sender m \<noteq> OperatorKey s)" "\<not> tagsContain (Tags m) TagDemandOnly"
    using False by (simp_all add: notOperator_def)
  show ?thesis
  proof (cases "map_of (activeOrders s) k")
    case None
    then show ?thesis using op a u
      by (cases "ok \<and> rs \<noteq> []") (simp_all add: applyMatch_def recordResults_def recordBuyer_def notOperator_def)
  next
    case (Some ord)
    then show ?thesis using op a u
      by (cases "ok \<and> rs \<noteq> []"; cases "is_zero (GuaranteeDeadline ord)")
        (simp_all add: applyMatch_def recordResults_def recordBuyer_def notOperator_def Let_def)
  qed
qed

lemma assign_seen: "assign s (ID m) \<noteq> None \<Longrightarrow> \<not> notOperator s m \<Longrightarrow> applyAssign s m = s"
  by (simp add: applyAssign_def)

lemma assign_post_idem:
  fixes s :: exchange_state
  shows "applyAssign (applyAssign s m) m = applyAssign s m"
proof -
  obtain p ok where u: "unmarshal assignFields (Payload m) assignZero = (p, ok)" by (metis surj_pair)
  show ?thesis
  proof (cases "notOperator s m \<or> assign s (ID m) \<noteq> None \<or> \<not> ok")
    case True
    then show ?thesis using u by (auto simp: applyAssign_def denial_idem)
  next
    case False
    then have "assign (applyAssign s m) (ID m) \<noteq> None" using u by (simp add: applyAssign_def Let_def setAssign_def update_conv')
    moreover have "notOperator (applyAssign s m) m = notOperator s m" by (rule notOperator_cfg) (simp add: frames)
    ultimately show ?thesis using False by (simp add: assign_seen)
  qed
qed

lemma addBid_idem: "addBid w amt t (addBid w amt t bs) = addBid w amt t bs"
  by (induction bs) auto

lemma setAssign_twice [simp]: "setAssign a r (setAssign a r' s) = setAssign a r s"
  by (simp add: setAssign_def)

lemma auction_bid_idem:
  assumes r: "assign s a = Some r" and r': "assign (applyAuctionBid a r p s m) a = Some r'"
  shows "applyAuctionBid a r' p (applyAuctionBid a r p s m) m = applyAuctionBid a r p s m
    \<and> Status r' = Status r \<and> ExclusiveSender r' = ExclusiveSender r \<and> AuctionDeadline r' = AuctionDeadline r"
proof (cases "applyAuctionBid a r p s m = s")
  case True
  then show ?thesis using r r' by simp
next
  case False
  define bid where "bid = (case cp_Bid p of Some b \<Rightarrow> b | None \<Rightarrow> Reward r)"
  let ?r = "r\<lparr>AuctionBids := addBid (Sender m) bid (foldTime m) (AuctionBids r)\<rparr>"
  from False have g: "foldTime m < AuctionDeadline r" "\<not> (Reward r > 0 \<and> bid > wrap64 (Reward r * AuctionBidCeilMultiplier))"
    "\<not> bid \<le> 0" by (auto simp: applyAuctionBid_def Let_def bid_def split: if_splits)
  then have t: "applyAuctionBid a r p s m = setAssign a ?r s"
    unfolding applyAuctionBid_def Let_def bid_def[symmetric] by auto
  then have "r' = ?r" using r' by simp
  then have b: "(case cp_Bid p of Some b \<Rightarrow> b | None \<Rightarrow> Reward r') = bid" "Reward r' = Reward r"
      "AuctionDeadline r' = AuctionDeadline r" "r'\<lparr>AuctionBids := addBid (Sender m) bid (foldTime m) (AuctionBids r')\<rparr> = ?r"
    by (simp_all add: bid_def addBid_idem split: option.split)
  have "applyAuctionBid a r' p (setAssign a ?r s) m = setAssign a ?r s"
    using g unfolding applyAuctionBid_def Let_def unfolding b(1) unfolding b(2-4) by auto
  then show ?thesis unfolding t using \<open>r' = ?r\<close> by simp
qed

lemma claim_idem:
  fixes s :: exchange_state
  shows "applyAssignClaim (applyAssignClaim s m) m = applyAssignClaim s m"
proof (cases "Antecedents m")
  case (Cons x rest)
  define a where "a = resolveAlias s x"
  obtain p ok where u: "unmarshal claimFields (Payload m) claimZero = (p, ok)" by (metis surj_pair)
  have al: "resolveAlias (applyAssignClaim s m) x = a"
    using claim_frame(1)[of s m] by (simp add: cfg_def a_def resolveAlias_def)
  show ?thesis
  proof (cases "assign s a")
    case None
    then show ?thesis using Cons by (simp add: applyAssignClaim_def a_def)
  next
    case (Some r)
    have eq: "applyAssignClaim s m = (if Status r \<noteq> AssignOpen then s
        else if ExclusiveSender r \<noteq> [] \<and> Sender m \<noteq> ExclusiveSender r then recordFoldDenial foldDenialAssignExclusive s m
        else if \<not> is_zero (AuctionDeadline r) then applyAuctionBid a r p s m
        else if getd [] (claimedAssigns s) (Sender m) \<noteq> [] then s
        else bindClaim a (r\<lparr>Status := AssignClaimed, ClaimantKey := Sender m, ClaimMsgID := ID m,
            ClaimExpiresAt := claimExpiry r p, ClaimedAt := foldTime m\<rparr>) (Sender m) (ID m) s)"
      using Cons Some u unfolding applyAssignClaim_def by (simp add: a_def Let_def)
    let ?bad = "ExclusiveSender r \<noteq> [] \<and> Sender m \<noteq> ExclusiveSender r"
    consider "applyAssignClaim s m = s" | "Status r = AssignOpen" ?bad
      | "Status r = AssignOpen" "\<not> ?bad" "\<not> is_zero (AuctionDeadline r)"
      | "Status r = AssignOpen" "\<not> ?bad" "is_zero (AuctionDeadline r)" "getd [] (claimedAssigns s) (Sender m) = []"
      using eq by argo
    then show ?thesis
    proof cases
      case 2
      then have "applyAssignClaim s m = recordFoldDenial foldDenialAssignExclusive s m" unfolding eq by simp
      then show ?thesis using Cons Some 2 by (simp add: applyAssignClaim_def a_def[symmetric] denial_idem)
    next
      case 3
      then have t: "applyAssignClaim s m = applyAuctionBid a r p s m" unfolding eq by argo
      have "assign (applyAuctionBid a r p s m) a \<noteq> None" using Some
        by (simp add: applyAuctionBid_def Let_def)
      then obtain r' where r': "assign (applyAuctionBid a r p s m) a = Some r'" by blast
      have "resolveAlias (applyAuctionBid a r p s m) x = a" using al unfolding t .
      then show ?thesis unfolding t using auction_bid_idem[OF Some r'] 3 r' Cons u
        by (simp add: applyAssignClaim_def) blast
    next
      case 4
      then have "\<exists>r'. assign (applyAssignClaim s m) a = Some r' \<and> Status r' = AssignClaimed"
        unfolding eq by (simp add: bindClaim_def) blast
      then show ?thesis using al Cons by (subst (1) applyAssignClaim_def) auto
    qed simp
  qed
qed (simp add: applyAssignClaim_def)

lemma alias_frame: "cfg t = cfg s \<Longrightarrow> resolveAlias t x = resolveAlias s x"
  by (simp add: cfg_def resolveAlias_def)

lemma denial_assign [simp]: "claimMsgToAssign (recordFoldDenial r s m) = claimMsgToAssign s"
  "assignByID (recordFoldDenial r s m) = assignByID s"
  by (simp_all add: recordFoldDenial_def)

lemma assign_complete_idem:
  fixes s :: exchange_state
  shows "applyAssignComplete (applyAssignComplete s m) m = applyAssignComplete s m"
proof (cases "Antecedents m")
  case (Cons x rest)
  define c where "c = resolveAlias s x"
  have al: "resolveAlias (applyAssignComplete s m) x = c"
    unfolding c_def by (rule alias_frame) (simp add: frames)
  show ?thesis
  proof (cases "claimMsgToAssign s c")
    case None
    then show ?thesis using Cons by (simp add: applyAssignComplete_def c_def)
  next
    case (Some a)
    show ?thesis
    proof (cases "assign s a")
      case None
      then show ?thesis using Cons Some by (simp add: applyAssignComplete_def c_def)
    next
      case (Some r)
      consider "Status r \<noteq> AssignClaimed" | "Status r = AssignClaimed" "Sender m \<noteq> ClaimantKey r"
        | "Status r = AssignClaimed" "Sender m = ClaimantKey r" by blast
      then show ?thesis
      proof cases
        case 1
        then show ?thesis using Cons Some \<open>claimMsgToAssign s c = Some a\<close> by (simp add: applyAssignComplete_def c_def)
      next
        case 2
        then show ?thesis using Cons Some \<open>claimMsgToAssign s c = Some a\<close>
          by (simp add: applyAssignComplete_def c_def denial_idem)
      next
        case 3
        then have "claimMsgToAssign (applyAssignComplete s m) c = None"
          using Cons Some \<open>claimMsgToAssign s c = Some a\<close> by (simp add: applyAssignComplete_def c_def[symmetric])
        then show ?thesis using al Cons by (subst (1) applyAssignComplete_def) simp
      qed
    qed
  qed
qed (simp add: applyAssignComplete_def)

lemma pendingRecord_gone: "pendingAssignResults t = AList.delete c m \<Longrightarrow> pendingRecord t c = None"
  by (simp add: pendingRecord_def delete_conv')

lemma assign_accept_idem:
  fixes s :: exchange_state
  shows "applyAssignAccept (applyAssignAccept s m) m = applyAssignAccept s m"
proof (cases "notOperator s m \<or> Antecedents m = []")
  case True
  then show ?thesis by (auto simp: applyAssignAccept_def denial_idem split: list.split)
next
  case False
  then obtain x rest where x: "Antecedents m = x # rest" by (cases "Antecedents m") auto
  define c where "c = resolveAlias s x"
  have al: "resolveAlias (applyAssignAccept s m) x = c" "notOperator (applyAssignAccept s m) m = notOperator s m"
    unfolding c_def by (rule alias_frame notOperator_cfg, simp add: frames)+
  show ?thesis
  proof (cases "\<exists>a r. pendingRecord s c = Some (a, r) \<and> Status r = AssignCompleted")
    case True
    then have "pendingRecord (applyAssignAccept s m) c = None"
      using False x by (auto simp: applyAssignAccept_def c_def[symmetric] intro!: pendingRecord_gone)
    then show ?thesis using al x False by (subst (1) applyAssignAccept_def) simp
  next
    case no: False
    then have "applyAssignAccept s m = s"
      using False x by (auto simp: applyAssignAccept_def c_def[symmetric] split: option.split)
    then show ?thesis by simp
  qed
qed

lemma assign_reject_idem:
  fixes s :: exchange_state
  shows "applyAssignReject (applyAssignReject s m) m = applyAssignReject s m"
proof (cases "notOperator s m \<or> Antecedents m = []")
  case True
  then show ?thesis by (auto simp: applyAssignReject_def denial_idem split: list.split)
next
  case False
  then obtain x rest where x: "Antecedents m = x # rest" by (cases "Antecedents m") auto
  define c where "c = resolveAlias s x"
  have al: "resolveAlias (applyAssignReject s m) x = c" "notOperator (applyAssignReject s m) m = notOperator s m"
    unfolding c_def by (rule alias_frame notOperator_cfg, simp add: frames)+
  show ?thesis
  proof (cases "\<exists>a r. pendingRecord s c = Some (a, r) \<and> Status r = AssignCompleted")
    case True
    then have "pendingRecord (applyAssignReject s m) c = None"
      using False x by (auto simp: applyAssignReject_def c_def[symmetric] intro!: pendingRecord_gone)
    then show ?thesis using al x False by (subst (1) applyAssignReject_def) simp
  next
    case no: False
    then have "applyAssignReject s m = s"
      using False x by (auto simp: applyAssignReject_def c_def[symmetric] split: option.split)
    then show ?thesis by simp
  qed
qed

lemma auction_close_idem:
  fixes s :: exchange_state
  shows "applyAssignAuctionClose (applyAssignAuctionClose s m) m = applyAssignAuctionClose s m"
proof (cases "notOperator s m \<or> Antecedents m = []")
  case True
  then show ?thesis by (auto simp: applyAssignAuctionClose_def denial_idem split: list.split)
next
  case False
  then obtain x rest where x: "Antecedents m = x # rest" by (cases "Antecedents m") auto
  define a where "a = resolveAlias s x"
  have al: "resolveAlias (applyAssignAuctionClose s m) x = a" "notOperator (applyAssignAuctionClose s m) m = notOperator s m"
    unfolding a_def by (rule alias_frame notOperator_cfg, simp add: frames)+
  show ?thesis
  proof (cases "\<exists>r. assign s a = Some r \<and> Status r = AssignOpen \<and> AuctionBids r \<noteq> []")
    case True
    then have "\<exists>r. assign (applyAssignAuctionClose s m) a = Some r \<and> Status r = AssignClaimed"
      using False x by (auto simp: applyAssignAuctionClose_def a_def[symmetric] bindClaim_def closeAuction_def Let_def)
    then show ?thesis using al x False by (subst (1) applyAssignAuctionClose_def) auto
  next
    case no: False
    then have "applyAssignAuctionClose s m = s"
      using False x by (auto simp: applyAssignAuctionClose_def a_def[symmetric] Let_def split: option.split)
    then show ?thesis by simp
  qed
qed

text \<open>
  An expiry names a claim or an assignment. Expiring a claim forgets it, so the second delivery would read
  the same ID as that of an assignment; message IDs are unique, so there is none.
\<close>

lemma assign_expire_idem:
  fixes s :: exchange_state
  assumes "\<And>x rest. Antecedents m = x # rest \<Longrightarrow> claimMsgToAssign s (resolveAlias s x) \<noteq> None
      \<Longrightarrow> assign s (resolveAlias s x) = None"
  shows "applyAssignExpire (applyAssignExpire s m) m = applyAssignExpire s m"
proof (cases "notOperator s m \<or> Antecedents m = []")
  case True
  then show ?thesis by (auto simp: applyAssignExpire_def denial_idem split: list.split)
next
  case False
  then obtain x0 rest where x0: "Antecedents m = x0 # rest" by (cases "Antecedents m") auto
  define x where "x = resolveAlias s x0"
  have al: "resolveAlias (applyAssignExpire s m) x0 = x" "notOperator (applyAssignExpire s m) m = notOperator s m"
    unfolding x_def by (rule alias_frame notOperator_cfg, simp add: frames)+
  show ?thesis
  proof (cases "claimMsgToAssign s x")
    case None
    show ?thesis
    proof (cases "\<exists>r. assign s x = Some r \<and> Status r = AssignOpen")
      case True
      then have "claimMsgToAssign (applyAssignExpire s m) x = None"
          "\<exists>r. assign (applyAssignExpire s m) x = Some r \<and> Status r = AssignExpired"
        using False x0 None by (auto simp: applyAssignExpire_def x_def[symmetric] setAssign_def update_conv')
      then show ?thesis using al x0 False by (subst (1) applyAssignExpire_def) auto
    next
      case no: False
      then have "applyAssignExpire s m = s"
        using False x0 None by (auto simp: applyAssignExpire_def x_def[symmetric] Let_def split: option.split)
      then show ?thesis by simp
    qed
  next
    case (Some a)
    then have n: "assign s x = None" using assms[OF x0] by (simp add: x_def)
    show ?thesis
    proof (cases "\<exists>r. assign s a = Some r \<and> Status r = AssignClaimed")
      case True
      then have "claimMsgToAssign (applyAssignExpire s m) x = None" "assign (applyAssignExpire s m) x = None"
        using False x0 Some n by (auto simp: applyAssignExpire_def x_def[symmetric] setAssign_def update_conv')
      then show ?thesis using al x0 False by (subst (1) applyAssignExpire_def) simp
    next
      case no: False
      then have "applyAssignExpire s m = s"
        using False x0 Some by (auto simp: applyAssignExpire_def x_def[symmetric] Let_def split: option.split)
      then show ?thesis by simp
    qed
  qed
qed

section \<open>Settlement phases\<close>

lemma denial_put [simp]: "pendingPuts (recordFoldDenial r s m) = pendingPuts s"
  "inventory (recordFoldDenial r s m) = inventory s"
  by (simp_all add: recordFoldDenial_def)

lemma buyer_reject_idem: "applySettleBuyerReject (applySettleBuyerReject s m) m = applySettleBuyerReject s m"
proof (cases "Antecedents m")
  case (Cons a rest)
  define k where "k = resolveAlias s a"
  consider "matchToBuyer s k = None" | b where "matchToBuyer s k = Some b" "Sender m \<noteq> b" | "matchToBuyer s k = Some (Sender m)"
    by (cases "matchToBuyer s k") auto
  then show ?thesis
  proof cases
    case 2
    then have t: "applySettleBuyerReject s m = recordFoldDenial foldDenialBuyerIdentity s m"
      using Cons by (simp add: applySettleBuyerReject_def k_def)
    show ?thesis unfolding t using 2 Cons
      by (simp add: applySettleBuyerReject_def k_def denial_idem) (simp add: recordFoldDenial_def)
  next
    case 3
    have "resolveAlias (s\<lparr>acceptedOrders := x\<rparr>) a = k" for x by (simp add: resolveAlias_def k_def)
    then show ?thesis using Cons 3 by (simp add: applySettleBuyerReject_def k_def[symmetric] delete_idem)
  qed (simp add: applySettleBuyerReject_def Cons k_def)
qed (simp add: applySettleBuyerReject_def)

lemma match_denial [simp]: "matchToBuyer (recordFoldDenial r s m) = matchToBuyer s"
  "matchToEntry (recordFoldDenial r s m) = matchToEntry s"
  by (simp_all add: recordFoldDenial_def)

lemma chain_denial [simp]: "deliverToMatch (recordFoldDenial r s m) = deliverToMatch s"
  "previewToMatch (recordFoldDenial r s m) = previewToMatch s"
  "completedSettlements (recordFoldDenial r s m) = completedSettlements s"
  by (simp_all add: recordFoldDenial_def)

lemma accepted_seen: "buyerAcceptToMatch s (ID m) \<noteq> None \<Longrightarrow> Antecedents m = a # r
    \<Longrightarrow> matchToBuyer s (acceptedMatch s (resolveAlias s a)) = Some (Sender m) \<Longrightarrow> applySettleBuyerAccept s m = s"
  by (simp add: applySettleBuyerAccept_def Let_def)

lemma buyer_accept_idem: "applySettleBuyerAccept (applySettleBuyerAccept s m) m = applySettleBuyerAccept s m"
proof (cases "Antecedents m")
  case (Cons a rest)
  define k where "k = acceptedMatch s (resolveAlias s a)"
  let ?t = "applySettleBuyerAccept s m"
  consider "matchToBuyer s k = None" | b where "matchToBuyer s k = Some b" "Sender m \<noteq> b"
    | "matchToBuyer s k = Some (Sender m)" "buyerAcceptToMatch s (ID m) = None"
    | "matchToBuyer s k = Some (Sender m)" "buyerAcceptToMatch s (ID m) \<noteq> None"
    by (cases "matchToBuyer s k") auto
  then show ?thesis
  proof cases
    case 1
    then have "?t = s" using Cons by (simp add: applySettleBuyerAccept_def k_def Let_def)
    then show ?thesis by simp
  next
    case 4
    then have "?t = s" using Cons by (intro accepted_seen) (simp_all add: k_def)
    then show ?thesis by simp
  next
    case 2
    then have t: "?t = recordFoldDenial foldDenialBuyerIdentity s m" using Cons by (simp add: applySettleBuyerAccept_def k_def Let_def)
    have "acceptedMatch (recordFoldDenial r s m) x = acceptedMatch s x" for r x by (simp add: acceptedMatch_def)
    then show ?thesis unfolding t using 2 Cons
      by (simp add: applySettleBuyerAccept_def k_def denial_idem Let_def)
  next
    case 3
    have al: "resolveAlias ?t a = resolveAlias s a" by (rule alias_frame) (simp add: frames)
    have pm: "previewToMatch ?t = previewToMatch s" and mb: "matchToBuyer ?t = matchToBuyer s" "buyerAcceptToMatch ?t (ID m) \<noteq> None"
      using buyer_accept_chain[OF Cons k_def 3] by (auto simp: chain_def split: if_splits)
    have "acceptedMatch ?t (resolveAlias ?t a) = k" unfolding al k_def acceptedMatch_def pm ..
    then show ?thesis using mb 3 by (intro accepted_seen[OF _ Cons]) simp_all
  qed
qed (simp add: applySettleBuyerAccept_def)

lemma put_accept_idem:
  fixes s :: exchange_state
  shows "applySettlePutAccept (applySettlePutAccept s m) m = applySettlePutAccept s m"
proof (cases "notOperator s m \<or> Antecedents m = []")
  case True
  then show ?thesis by (auto simp: applySettlePutAccept_def denial_idem split: list.split)
next
  case False
  then obtain k r where a: "Antecedents m = k # r" by (cases "Antecedents m") auto
  have op: "notOperator (applySettlePutAccept s m) m = notOperator s m" by (rule notOperator_cfg) (simp add: frames)
  show ?thesis
  proof (cases "map_of (pendingPuts s) k")
    case None
    then show ?thesis using False a by (simp add: applySettlePutAccept_def)
  next
    case (Some e)
    then have "map_of (pendingPuts (applySettlePutAccept s m)) k = None"
      using False a by (simp add: applySettlePutAccept_def delete_conv')
    then show ?thesis using op False a by (subst (1) applySettlePutAccept_def) simp
  qed
qed

lemma put_reject_gone: "\<not> notOperator t m \<Longrightarrow> Antecedents m = k # r \<Longrightarrow> map_of (pendingPuts t) k = None
    \<Longrightarrow> applySettlePutReject t m = t\<lparr>pendingPuts := AList.delete k (pendingPuts t)\<rparr>"
  by (simp add: applySettlePutReject_def)

lemma put_reject_idem:
  fixes s :: exchange_state
  shows "applySettlePutReject (applySettlePutReject s m) m = applySettlePutReject s m"
proof (cases "notOperator s m \<or> Antecedents m = []")
  case True
  then show ?thesis by (auto simp: applySettlePutReject_def denial_idem split: list.split)
next
  case False
  then obtain k r where a: "Antecedents m = k # r" by (cases "Antecedents m") auto
  have op: "notOperator (applySettlePutReject s m) m = notOperator s m" by (rule notOperator_cfg) (simp add: frames)
  have p: "pendingPuts (applySettlePutReject s m) = AList.delete k (pendingPuts s)"
    using False a by (simp add: applySettlePutReject_def Let_def split: option.split)
  then have "map_of (pendingPuts (applySettlePutReject s m)) k = None" by (simp add: delete_conv')
  then have "applySettlePutReject (applySettlePutReject s m) m
      = (applySettlePutReject s m)\<lparr>pendingPuts := AList.delete k (pendingPuts (applySettlePutReject s m))\<rparr>"
    using op False a by (intro put_reject_gone[OF _ a]) simp_all
  also have "\<dots> = applySettlePutReject s m" by (simp add: p delete_idem)
  finally show ?thesis .
qed

lemma countDelivery_deliver [simp]: "deliverToMatch (countDelivery e b s) = deliverToMatch s"
  by (simp add: countDelivery_def Let_def)

lemma deliver_idem: "applySettleDeliver (applySettleDeliver s m) m = applySettleDeliver s m"
proof (cases "notOperator s m \<or> deliverToMatch s (ID m) \<noteq> None \<or> Antecedents m = []
    \<or> getd '''' (buyerAcceptToMatch s) (hd (Antecedents m)) = ''''")
  case True
  then show ?thesis by (auto simp: applySettleDeliver_def denial_idem Let_def split: list.split)
next
  case False
  then obtain a r where a: "Antecedents m = a # r" by (cases "Antecedents m") auto
  have op: "notOperator (applySettleDeliver s m) m = notOperator s m" by (rule notOperator_cfg) (simp add: frames)
  have "deliverToMatch (applySettleDeliver s m) (ID m) \<noteq> None"
    using False a by (simp add: applySettleDeliver_def Let_def)
  then show ?thesis using op False by (subst (1) applySettleDeliver_def) simp
qed

lemma preview_idem: "applySettlePreview (applySettlePreview s m) m = applySettlePreview s m"
proof (cases "notOperator s m \<or> Antecedents m = []")
  case True
  then show ?thesis by (auto simp: applySettlePreview_def denial_idem split: list.split)
next
  case False
  then obtain a r where a: "Antecedents m = a # r" by (cases "Antecedents m") auto
  then show ?thesis using False by (auto simp: applySettlePreview_def notOperator_def split: option.split)
qed

lemma completions_sale [simp]:
  "completedSettlements (recordSale e p m s) = completedSettlements s"
  "completedSettlements (recordCompletion d k e m s) = completedSettlements s @ [ID m]"
  by (simp_all add: recordSale_def recordCompletion_def incrementFederationTransactionCount_def Let_def split: option.split)

lemma complete_seen: "ID m \<in> set (completedSettlements s) \<Longrightarrow> applySettleComplete s m = s"
  by (simp add: applySettleComplete_def)

lemma complete_idem: "applySettleComplete (applySettleComplete s m) m = applySettleComplete s m"
proof (cases "Antecedents m")
  case (Cons a rest)
  define d where "d = resolveAlias s a"
  define k where "k = getd [] (deliverToMatch s) d"
  define e where "e = getd [] (matchToEntry s) k"
  let ?t = "applySettleComplete s m"
  obtain price good where u: "unmarshal priceFields (Payload m) 0 = (price, good)" by (metis surj_pair)
  consider "ID m \<in> set (completedSettlements s) \<or> k = [] \<or> e = [] \<or> matchToBuyer s k = None \<or> matchToBuyer s k = Some (Sender m) \<and> \<not> good"
    | b where "ID m \<notin> set (completedSettlements s)" "k \<noteq> []" "e \<noteq> []" "matchToBuyer s k = Some b" "Sender m \<noteq> b"
    | "ID m \<notin> set (completedSettlements s)" "k \<noteq> []" "e \<noteq> []" "matchToBuyer s k = Some (Sender m)" good
    by (cases "matchToBuyer s k") auto
  then show ?thesis
  proof cases
    case 1
    then have "?t = s" using Cons u
      by (auto simp: applySettleComplete_def Let_def d_def[symmetric] k_def[symmetric] e_def[symmetric])
    then show ?thesis by simp
  next
    case 2
    then have t: "?t = recordFoldDenial foldDenialBuyerIdentity s m"
      using Cons by (simp add: applySettleComplete_def Let_def d_def[symmetric] k_def[symmetric] e_def[symmetric])
    show ?thesis unfolding t using 2 Cons
      by (simp add: applySettleComplete_def Let_def d_def[symmetric] k_def[symmetric] e_def[symmetric] denial_idem)
  next
    case 3
    then have "?t = recordSale e price m (recordCompletion d k e m s)"
      using Cons u by (simp add: applySettleComplete_def Let_def d_def[symmetric] k_def[symmetric] e_def[symmetric])
    then show ?thesis by (simp add: complete_seen)
  qed
qed (simp add: applySettleComplete_def)

lemma previews_seller [simp]: "previewsByEntry (sellerStats k f s) = previewsByEntry s"
  "matchToBuyer (sellerStats k f s) = matchToBuyer s" "disputeCounted (sellerStats k f s) = disputeCounted s"
  "deliverToMatch (sellerStats k f s) = deliverToMatch s"
  by (simp_all add: sellerStats_def)

lemma preview_request_idem: "applySettlePreviewRequest (applySettlePreviewRequest s m) m = applySettlePreviewRequest s m"
proof (cases "Antecedents m")
  case (Cons a rest)
  define k where "k = resolveAlias s a"
  let ?t = "applySettlePreviewRequest s m"
  have al: "resolveAlias ?t a = k" unfolding k_def by (rule alias_frame) (simp add: frames)
  obtain e good where u: "unmarshal entryIdFields (Payload m) '''' = (e, good)" by (metis surj_pair)
  consider "matchToBuyer s k = None" | b where "matchToBuyer s k = Some b" "Sender m \<noteq> b"
    | "matchToBuyer s k = Some (Sender m)" "\<not> good \<or> e = [] \<or> previewsByEntry s e (Sender m) = k"
    | "matchToBuyer s k = Some (Sender m)" "good" "e \<noteq> []" "previewsByEntry s e (Sender m) \<noteq> k"
    by (cases "matchToBuyer s k") auto
  then show ?thesis
  proof cases
    case 1
    then have "?t = s" using Cons by (simp add: applySettlePreviewRequest_def k_def)
    then show ?thesis by simp
  next
    case 2
    then have t: "?t = recordFoldDenial foldDenialBuyerIdentity s m"
      using Cons by (simp add: applySettlePreviewRequest_def k_def)
    show ?thesis unfolding t using 2 Cons by (simp add: applySettlePreviewRequest_def k_def denial_idem)
  next
    case 3
    then have "?t = s" using Cons u by (auto simp: applySettlePreviewRequest_def k_def[symmetric])
    then show ?thesis by simp
  next
    case 4
    then have "previewsByEntry ?t e (Sender m) = k" "matchToBuyer ?t k = Some (Sender m)"
      using Cons u by (simp_all add: applySettlePreviewRequest_def k_def[symmetric] Let_def split: option.split)
    then show ?thesis using al Cons u by (subst (1) applySettlePreviewRequest_def) simp
  qed
qed (simp add: applySettlePreviewRequest_def)

lemma dispute_seen: "Antecedents m = a # r \<Longrightarrow> deliverToMatch s (resolveAlias s a) = Some k
    \<Longrightarrow> matchToBuyer s k = Some (Sender m) \<Longrightarrow> ID m \<in> disputeCounted s \<Longrightarrow> applySettleSmallContentDispute s m = s"
  by (simp add: applySettleSmallContentDispute_def)

lemma dispute_idem: "applySettleSmallContentDispute (applySettleSmallContentDispute s m) m = applySettleSmallContentDispute s m"
proof (cases "Antecedents m")
  case (Cons a rest)
  define d where "d = resolveAlias s a"
  let ?t = "applySettleSmallContentDispute s m"
  show ?thesis
  proof (cases "deliverToMatch s d")
    case None
    then show ?thesis using Cons by (simp add: applySettleSmallContentDispute_def d_def)
  next
    case (Some k)
    define e where "e = getd [] (matchToEntry s) k"
    let ?ok = "ID m \<notin> disputeCounted s \<and> snd (unmarshal entryIdFields (Payload m) '''') \<and> e \<noteq> []"
    consider "k = [] \<or> matchToBuyer s k = None \<or> matchToBuyer s k = Some (Sender m) \<and>
        (\<not> ?ok \<or> (case map_of (inventory s) e of None \<Rightarrow> True | Some en \<Rightarrow> \<not> isSmallContent en))"
      | b where "k \<noteq> []" "matchToBuyer s k = Some b" "Sender m \<noteq> b"
      | en where "k \<noteq> []" "matchToBuyer s k = Some (Sender m)" ?ok "map_of (inventory s) e = Some en" "isSmallContent en"
      by (cases "matchToBuyer s k"; cases "map_of (inventory s) e") auto
    then show ?thesis
    proof cases
      case 1
      then have "?t = s" using Cons Some
        by (auto simp: applySettleSmallContentDispute_def d_def[symmetric] e_def[symmetric] Let_def split: option.splits)
      then show ?thesis by simp
    next
      case 2
      then have t: "?t = recordFoldDenial foldDenialBuyerIdentity s m"
        using Cons Some by (simp add: applySettleSmallContentDispute_def d_def)
      show ?thesis unfolding t using 2 Cons Some by (simp add: applySettleSmallContentDispute_def d_def denial_idem)
    next
      case 3
      have t: "?t = sellerStats (SellerKey en) (\<lambda>st. st\<lparr>SmallContentRefundCount := SmallContentRefundCount st + 1\<rparr>)
               (s\<lparr>disputeCounted := insert (ID m) (disputeCounted s), smallContentDisputes := bump e (smallContentDisputes s)\<rparr>)"
        using 3 Cons Some by (simp add: applySettleSmallContentDispute_def d_def[symmetric] e_def[symmetric] Let_def)
      have "resolveAlias ?t a = d" unfolding d_def by (rule alias_frame) (simp add: frames)
      then show ?thesis using 3 Some by (intro dispute_seen[OF Cons, of _ k]) (simp_all add: t)
    qed
  qed
qed (simp add: applySettleSmallContentDispute_def)

section \<open>Hop depths are counted once\<close>

definition hops :: "exchange_state \<Rightarrow> string set" where
  "hops s = hopDepthCounted s"

lemma hops_core [frames]:
  "hops (denials_update f0 s) = hops s" "hops (foldDenialCounted_update f1 s) = hops s"
  by (simp_all add: hops_def)

lemma hops_assign [frames]:
  "hops (assignsByEntry_update f0 s) = hops s" "hops (assignByID_update f1 s) = hops s"
  "hops (claimedAssigns_update f2 s) = hops s" "hops (pendingAssignResults_update f3 s) = hops s"
  "hops (claimMsgToAssign_update f4 s) = hops s" "hops (completeMsgToAssign_update f5 s) = hops s"
  "hops (brokerAssigns_update f6 s) = hops s"
  by (simp_all add: hops_def)

lemma hops_put [frames]:
  "hops (inventory_update f0 s) = hops s" "hops (pendingPuts_update f1 s) = hops s"
  "hops (putToEntry_update f2 s) = hops s" "hops (heldForReview_update f3 s) = hops s"
  "hops (contentHashIndex_update f4 s) = hops s"
  by (simp_all add: hops_def)

lemma hops_order [frames]:
  "hops (activeOrders_update f0 s) = hops s" "hops (matchedOrders_update f1 s) = hops s"
  "hops (matchToBuyer_update f2 s) = hops s" "hops (matchToEntry_update f3 s) = hops s"
  "hops (matchToResults_update f4 s) = hops s" "hops (matchToBuyMsgID_update f5 s) = hops s"
  "hops (matchGuarantee_update f6 s) = hops s" "hops (demandOnlyTaskHashes_update f7 s) = hops s"
  "hops (demandOnlySenderTimes_update f8 s) = hops s" "hops (demandOnlyCounted_update f9 s) = hops s"
  "hops (buyMissOffers_update f10 s) = hops s"
  by (simp_all add: hops_def)

lemma hops_exchange [frames]:
  "hops (priceHistory_update f0 s) = hops s" "hops (sellers_update f1 s) = hops s"
  "hops (acceptedOrders_update f2 s) = hops s" "hops (buyerAcceptToMatch_update f3 s) = hops s"
  "hops (deliveredOrders_update f4 s) = hops s" "hops (deliverToMatch_update f5 s) = hops s"
  "hops (deliverTimeByMatch_update f6 s) = hops s" "hops (completedEntries_update f7 s) = hops s"
  "hops (completedSettlements_update f8 s) = hops s" "hops (previewsByEntry_update f9 s) = hops s"
  "hops (previewCountByMatch_update f10 s) = hops s" "hops (previewRequestToMatch_update f11 s) = hops s"
  "hops (previewToMatch_update f12 s) = hops s" "hops (smallContentDisputes_update f13 s) = hops s"
  "hops (entryPreviewCount_update f14 s) = hops s" "hops (entryConversionCount_update f15 s) = hops s"
  "hops (entryConsumeCount_update f16 s) = hops s" "hops (entryDeliverCount_update f17 s) = hops s"
  "hops (buyerDeliverCount_update f18 s) = hops s" "hops (buyerConsumeCount_update f19 s) = hops s"
  "hops (entryDeliverBuyerCount_update f20 s) = hops s" "hops (entryConsumeBuyerCount_update f21 s) = hops s"
  "hops (matchToBuyHold_update f22 s) = hops s" "hops (matchToBuyHoldAmount_update f23 s) = hops s"
  "hops (settledMatches_update f24 s) = hops s" "hops (brokerMatchIDs_update f25 s) = hops s"
  "hops (brokeredAcceptedOrders_update f26 s) = hops s" "hops (brokeredCompletions_update f27 s) = hops s"
  "hops (disputeCounted_update f28 s) = hops s" "hops (consumeCounted_update f29 s) = hops s"
  "hops (repriceEvents_update f30 s) = hops s" "hops (repriceCounted_update f31 s) = hops s"
  "hops (senderHopDepth_update f32 s) = hops s" "hops (federationProfiles_update f33 s) = hops s"
  "hops (priceAdjustments_update f34 s) = hops s" "hops (debtorScores_update f35 s) = hops s"
  "hops (coOccurrence_update f36 s) = hops s"
  by (simp_all add: hops_def)

lemma hops_parts [frames]: "hops (recordFoldDenial r s m) = hops s" "hops (sellerStats k f s) = hops s"
  "hops (setAssign a x s) = hops s" "hops (bindClaim a x k c s) = hops s" "hops (markMatchSettled k s) = hops s"
  "hops (countDelivery e k s) = hops s" "hops (applyDemandOnly s m) = hops s"
  by (simp_all add: frames recordFoldDenial_def sellerStats_def setAssign_def bindClaim_def markMatchSettled_def
      countDelivery_def applyDemandOnly_def Let_def split: prod.split option.split)

lemma hops_orders [frames]: "hops (applyPut env s m b) = hops s" "hops (applyBuy now s m) = hops s"
  "hops (recordResults m s) = hops s" "hops (recordBuyer m k s) = hops s"
  "hops (incrementFederationTransactionCount k s) = hops s"
  by (simp_all add: frames applyPut_def applyBuy_def recordResults_def recordBuyer_def
      incrementFederationTransactionCount_def Let_def split: prod.split option.split)

lemma hops_match [frames]: "hops (applyMatch s m) = hops s" "hops (applyAuctionBid a r p s m) = hops s"
  "hops (recordCompletion d k e m s) = hops s" "hops (recordSale e price m s) = hops s"
  by (simp_all add: frames applyMatch_def applyAuctionBid_def recordCompletion_def recordSale_def Let_def
      split: list.split option.split)

lemma hops_assigns [frames]: "hops (applyAssign s m) = hops s" "hops (applyAssignClaim s m) = hops s"
  "hops (applyAssignComplete s m) = hops s" "hops (applyAssignAccept s m) = hops s"
  "hops (applyAssignReject s m) = hops s" "hops (applyAssignExpire s m) = hops s"
  "hops (applyAssignAuctionClose s m) = hops s"
  by (simp_all add: frames applyAssign_def applyAssignClaim_def applyAssignComplete_def applyAssignAccept_def
      applyAssignReject_def applyAssignExpire_def applyAssignAuctionClose_def Let_def
      split: prod.split option.split list.split)

lemma hops_settles [frames]: "hops (applySettlePutAccept s m) = hops s" "hops (applySettlePutReject s m) = hops s"
  "hops (applySettleBuyerAccept s m) = hops s" "hops (applySettleBuyerReject s m) = hops s"
  "hops (applySettleDeliver s m) = hops s" "hops (applySettlePreview s m) = hops s"
  by (simp_all add: frames applySettlePutAccept_def applySettlePutReject_def applySettleBuyerAccept_def
      applySettleBuyerReject_def applySettleDeliver_def applySettlePreview_def Let_def
      split: prod.split option.split list.split)

lemma hops_settles2 [frames]: "hops (applySettleComplete s m) = hops s" "hops (applySettlePreviewRequest s m) = hops s"
  "hops (applySettleSmallContentDispute s m) = hops s"
  by (simp_all add: frames applySettleComplete_def applySettlePreviewRequest_def applySettleSmallContentDispute_def
      Let_def split: prod.split option.split list.split)

lemma hops_ledger [frames]: "hops (applyScripBuyHold s m) = hops s" "hops (applyScripSettle s m) = hops s"
  "hops (applyConsume s m) = hops s" "hops (applyReprice s m) = hops s"
  by (simp_all add: frames applyScripBuyHold_def applyScripSettle_def applyConsume_def applyReprice_def split: prod.split)

lemma hops_dispatch [frames]: "hops (dispatch env now s m b) = hops s"
proof -
  have "hops (applySettle s m) = hops s" by (rule settle_rule[of "\<lambda>u. hops u = hops s"]) (simp_all only: frames)
  then show ?thesis by (intro dispatch_rule[of "\<lambda>u. hops u = hops s"]) (simp_all only: frames)
qed

lemma track_seen: "ID m \<in> hops s \<Longrightarrow> trackSenderHopDepth s m = s"
  by (simp add: trackSenderHopDepth_def hops_def)

lemma hops_track: "ID m \<in> hops (trackSenderHopDepth s m)"
  by (simp add: trackSenderHopDepth_def hops_def addHopDepth_def Let_def)

section \<open>The fold of a message, twice\<close>

definition idem_on :: "('s \<Rightarrow> bool) \<Rightarrow> ('s \<Rightarrow> 's) \<Rightarrow> bool" where
  "idem_on P f \<longleftrightarrow> (\<forall>s. P s \<longrightarrow> f (f s) = f s)"

lemma idem_if: "idem_on P f \<Longrightarrow> idem_on P g \<Longrightarrow> idem_on P (\<lambda>s. if c then f s else g s)"
  by (simp add: idem_on_def)

lemma idem_all: "(\<And>s. f (f s) = f s) \<Longrightarrow> idem_on P f"
  by (simp add: idem_on_def)

lemma settle_idem: "applySettle (applySettle s m) m = applySettle s m"
proof -
  have "idem_on (\<lambda>_. True) (\<lambda>s. applySettle s m)" unfolding applySettle_def Let_def
    by (intro idem_if; rule idem_all; rule put_accept_idem put_reject_idem buyer_accept_idem buyer_reject_idem deliver_idem
      complete_idem preview_request_idem preview_idem dispute_idem refl)
  then show ?thesis by (simp add: idem_on_def)
qed

definition expiry_clear :: "message \<Rightarrow> exchange_state \<Rightarrow> bool" where
  "expiry_clear m s = (case Antecedents m of [] \<Rightarrow> True
     | x # _ \<Rightarrow> claimMsgToAssign s (resolveAlias s x) = None \<or> assign s (resolveAlias s x) = None)"

lemma handler_idem:
  fixes P :: "exchange_state \<Rightarrow> bool"
  shows "idem_on P (\<lambda>s. applyPut env s m b)" "idem_on P (\<lambda>s. applyBuy now s m)" "idem_on P (\<lambda>s. applyMatch s m)"
    "idem_on P (\<lambda>s. applySettle s m)" "idem_on P (\<lambda>s. applyAssign s m)" "idem_on P (\<lambda>s. applyAssignClaim s m)"
    "idem_on P (\<lambda>s. applyAssignComplete s m)" "idem_on P (\<lambda>s. applyAssignAccept s m)"
    "idem_on P (\<lambda>s. applyAssignReject s m)" "idem_on P (\<lambda>s. applyAssignAuctionClose s m)"
    "idem_on P (\<lambda>s. applyReprice s m)" "idem_on P (\<lambda>s. applyScripBuyHold s m)"
    "idem_on P (\<lambda>s. applyScripSettle s m)" "idem_on P (\<lambda>s. applyConsume s m)" "idem_on P (\<lambda>s. s)"
  by (simp_all add: idem_on_def put_idem buy_idem match_idem settle_idem assign_post_idem claim_idem
      assign_complete_idem assign_accept_idem assign_reject_idem auction_close_idem reprice_idem buy_hold_idem
      scrip_settle_idem consume_idem)

lemma dispatch_idem:
  assumes "expiry_clear m s"
  shows "dispatch env now (dispatch env now s m b) m b = dispatch env now s m b"
proof -
  have e: "idem_on (expiry_clear m) (\<lambda>s. applyAssignExpire s m)"
    unfolding idem_on_def by (auto simp: expiry_clear_def intro!: assign_expire_idem)
  have "idem_on (expiry_clear m) (\<lambda>s. dispatch env now s m b)" unfolding dispatch_def Let_def
    by (intro idem_if e handler_idem)
  then show ?thesis using assms by (simp add: idem_on_def)
qed

lemma canon_cfg:
  assumes "cfg t = cfg s"
  shows "canonMsg t m = canonMsg s m"
  unfolding canonMsg_def alias_frame[OF assms] ..

lemma tracked_parts [simp]: "claimMsgToAssign (tracked s m) = claimMsgToAssign s" "assignByID (tracked s m) = assignByID s"
  by (simp_all add: tracked_def trackSenderHopDepth_def addHopDepth_def Let_def)

text \<open>
  C25: at-least-once delivery is safe. Handing a message to the fold twice in a row leaves the exchange in
  the state the first delivery left it in, whatever the message is. (For an expiry the ID it names is not
  both a claim's and an assignment's, which unique message IDs guarantee; a message without a positive
  timestamp needs the same clock reading.)
\<close>

theorem redelivery_ignored:
  assumes "expiry_clear m s"
  shows "Apply env now store (Apply env now store s m) m = Apply env now store s m"
proof -
  define t where "t = tracked s m"
  define m' where "m' = canonMsg s m"
  define b where "b = prefetchPutBlobs store [m]"
  define u where "u = dispatch env now t m' b"
  have c: "cfg t = cfg s" "cfg u = cfg s" by (simp_all add: t_def u_def frames)
  have u: "Apply env now store s m = u" by (simp add: Apply_tracked u_def t_def m'_def b_def)
  have m'': "canonMsg u m = m'" using canon_cfg[OF c(2)] by (simp add: m'_def)
  have "tracked u m = u"
  proof (cases "Sender m' = ''''")
    case True
    then show ?thesis by (simp add: tracked_def m'' Let_def)
  next
    case False
    then have "ID m' \<in> hops u" using hops_track[of m' s] by (simp add: u_def t_def tracked_def m'_def[symmetric] Let_def frames)
    then show ?thesis using False by (simp add: tracked_def m'' Let_def track_seen)
  qed
  then have "Apply env now store u m = dispatch env now u m' b" by (simp add: Apply_tracked m'' b_def)
  moreover have "expiry_clear m' t" using assms alias_frame[OF c(1)]
    by (simp add: expiry_clear_def m'_def t_def split: list.splits)
  then have "dispatch env now u m' b = u" unfolding u_def by (rule dispatch_idem)
  ultimately show ?thesis by (simp add: u)
qed

theorem redelivery_ignored_witness:
  "Apply demoEnv 9 None (Apply demoEnv 9 None saleStart (saleLog ! 0)) (saleLog ! 0)
    = Apply demoEnv 9 None saleStart (saleLog ! 0)"
  by (rule redelivery_ignored) (simp add: expiry_clear_def saleLog_def saleMsg_def)

end
