(* ===== verification/Sequencer.thy ===== *)
theory Sequencer
  imports Message "HOL-Library.Char_ord" "HOL-Library.List_Lexorder"
begin

text \<open>
  The operator's sequencer (\<open>pkg/exchange/sequencer.go\<close>): it turns the events of a domain, delivered in any
  order and any number of times, into the one order the fold consumes. An event is buffered until its
  antecedents are released; the least ready event by (timestamp, ID) goes next.
\<close>

section \<open>State\<close>

text \<open>
  \<open>buffered\<close> is the map of waiting events, \<open>order\<close> its insertion order (with \<open>orderElem\<close> the position in
  it). A Go set is a list here, in an order the code leaves open. \<open>nextSeq\<close> and the numbers it gives are an
  \<open>int64\<close> in the code and an unbounded integer here: they wrap only after 2^63 events, and nothing reads them back.
\<close>

record sequencer =
  nextSeq :: int
  maxOrphans :: int
  emitted :: "string set"
  buffered :: "(string \<times> message) list"
  trueOrphans :: int
  missingCount :: "string \<rightharpoonup> int"
  missingWaiters :: "string \<rightharpoonup> string list"
  missingOf :: "string \<rightharpoonup> string list"
  order :: "string list"

text \<open>The error text names the events; the values that go into it are kept.\<close>

datatype seq_err = EmptyID | ErrOrphanBufferOverflow int int | ErrUnrecoverableAntecedent int "(string \<times> string) list"

record Sequenced =
  Seq :: int
  Msg :: message

abbreviation DefaultMaxOrphans :: int where "DefaultMaxOrphans \<equiv> 1000"

definition NewSequencer :: "int \<Rightarrow> sequencer" where
  "NewSequencer n = \<lparr>nextSeq = 0, maxOrphans = (if n \<le> 0 then DefaultMaxOrphans else n), emitted = {}, buffered = [],
     trueOrphans = 0, missingCount = Map.empty, missingWaiters = Map.empty, missingOf = Map.empty, order = []\<rparr>"

section \<open>Bookkeeping of missing antecedents\<close>

definition isKnown :: "sequencer \<Rightarrow> string \<Rightarrow> bool" where
  "isKnown s i \<longleftrightarrow> i \<in> emitted s \<or> map_of (buffered s) i \<noteq> None"

text \<open>The antecedents of an event, each once, the empty ones skipped: the loop with its \<open>seen\<close> set.\<close>

fun antsLoop :: "string set \<Rightarrow> string list \<Rightarrow> string list" where
  "antsLoop seen [] = []"
| "antsLoop seen (a # as) = (if a = '''' \<or> a \<in> seen then antsLoop seen as else a # antsLoop (insert a seen) as)"

definition ants :: "message \<Rightarrow> string list" where
  "ants m = antsLoop {} (Antecedents m)"

definition missingAntecedents :: "sequencer \<Rightarrow> message \<Rightarrow> string list" where
  "missingAntecedents s m = filter (\<lambda>a. \<not> isKnown s a) (ants m)"

definition resolveWaiter :: "sequencer \<Rightarrow> string \<Rightarrow> sequencer" where
  "resolveWaiter s w = (case missingCount s w of None \<Rightarrow> s
     | Some c \<Rightarrow>
       if c - 1 \<le> 0 then s\<lparr>missingCount := (missingCount s)(w := None), missingOf := (missingOf s)(w := None),
         trueOrphans := trueOrphans s - 1\<rparr>
       else s\<lparr>missingCount := (missingCount s)(w \<mapsto> c - 1)\<rparr>)"

definition resolveArrival :: "string \<Rightarrow> sequencer \<Rightarrow> sequencer" where
  "resolveArrival i s = (let ws = getd [] (missingWaiters s) i in
     if ws = [] then s
     else foldl resolveWaiter (s\<lparr>missingWaiters := (missingWaiters s)(i := None)\<rparr>) ws)"

definition addWaiter :: "string \<Rightarrow> (string \<rightharpoonup> string list) \<Rightarrow> string \<Rightarrow> (string \<rightharpoonup> string list)" where
  "addWaiter i mw a = mw(a \<mapsto> List.insert i (getd [] mw a))"

definition insertBuffered :: "message \<Rightarrow> string list \<Rightarrow> sequencer \<Rightarrow> sequencer" where
  "insertBuffered m missing s =
     (let s1 = s\<lparr>buffered := AList.update (ID m) m (buffered s), order := order s @ [ID m]\<rparr>;
          s2 = (if missing \<noteq> [] then s1\<lparr>missingCount := (missingCount s1)(ID m \<mapsto> int (length missing)),
                  trueOrphans := trueOrphans s1 + 1,
                  missingWaiters := foldl (addWaiter (ID m)) (missingWaiters s1) missing,
                  missingOf := (missingOf s1)(ID m \<mapsto> missing)\<rparr> else s1)
      in resolveArrival (ID m) s2)"

section \<open>Ingest\<close>

definition Ingest :: "message \<Rightarrow> sequencer \<Rightarrow> seq_err + sequencer" where
  "Ingest m s =
     (if ID m = '''' then Inl EmptyID
      else if ID m \<in> emitted s then Inr s
      else if map_of (buffered s) (ID m) \<noteq> None then Inr s
      else let missing = missingAntecedents s m in
        if missing \<noteq> [] \<and> trueOrphans s + 1 > maxOrphans s
        then Inl (ErrOrphanBufferOverflow (trueOrphans s + 1) (maxOrphans s))
        else Inr (insertBuffered m missing s))"

definition dropWaiter :: "string \<Rightarrow> (string \<rightharpoonup> string list) \<Rightarrow> string \<Rightarrow> (string \<rightharpoonup> string list)" where
  "dropWaiter i mw a = (case mw a of None \<Rightarrow> mw
     | Some w \<Rightarrow> let w' = removeAll i w in if w' = [] then mw(a := None) else mw(a \<mapsto> w'))"

definition evictOldest :: "sequencer \<Rightarrow> (string \<times> sequencer) option" where
  "evictOldest s = (case order s of [] \<Rightarrow> None
     | i # rest \<Rightarrow>
       let s1 = s\<lparr>order := rest, buffered := AList.delete i (buffered s)\<rparr> in
       Some (i, if missingCount s1 i = None then s1
         else s1\<lparr>missingCount := (missingCount s1)(i := None), trueOrphans := trueOrphans s1 - 1,
           missingWaiters := foldl (dropWaiter i) (missingWaiters s1) (getd [] (missingOf s1) i),
           missingOf := (missingOf s1)(i := None)\<rparr>))"

text \<open>The eviction loop; it ends because each round takes one event off the order list.\<close>

function evictLoop :: "sequencer \<Rightarrow> string list \<Rightarrow> sequencer \<times> string list" where
  "evictLoop s evicted =
     (if int (length (buffered s)) + 1 > maxOrphans s
      then (case evictOldest s of None \<Rightarrow> (s, evicted)
            | Some (i, s') \<Rightarrow> if i = '''' then (s', evicted) else evictLoop s' (evicted @ [i]))
      else (s, evicted))"
  by pat_completeness auto

termination
  by (relation "measure (\<lambda>(s, _). length (order s))") (auto simp: evictOldest_def Let_def split: list.splits if_splits)

declare evictLoop.simps [simp del]

definition IngestLive :: "message \<Rightarrow> sequencer \<Rightarrow> seq_err + (sequencer \<times> string list)" where
  "IngestLive m s =
     (if ID m = '''' then Inl EmptyID
      else if ID m \<in> emitted s then Inr (s, [])
      else if map_of (buffered s) (ID m) \<noteq> None then Inr (s, [])
      else let missing = missingAntecedents s m; (s', evicted) = evictLoop s []
        in Inr (insertBuffered m missing s', evicted))"

definition MarkEmitted :: "string list \<Rightarrow> sequencer \<Rightarrow> sequencer" where
  "MarkEmitted ids s = foldl (\<lambda>s i. if i = '''' then s
     else resolveArrival i (s\<lparr>emitted := insert i (emitted s)\<rparr>)) s ids"

section \<open>Drain\<close>

text \<open>The heap holds buffered events; \<open>heap.Pop\<close> takes out the least by (timestamp, ID).\<close>

definition msgLess :: "message \<Rightarrow> message \<Rightarrow> bool" where
  "msgLess x y \<longleftrightarrow> (if Timestamp x \<noteq> Timestamp y then Timestamp x < Timestamp y else ID x < ID y)"

fun leastMsg :: "message \<Rightarrow> message list \<Rightarrow> message" where
  "leastMsg x [] = x"
| "leastMsg x (y # ys) = leastMsg (if msgLess y x then y else x) ys"

definition heapPop :: "message list \<Rightarrow> (message \<times> message list) option" where
  "heapPop h = (case h of [] \<Rightarrow> None | x # xs \<Rightarrow> let m = leastMsg x xs in Some (m, remove1 m h))"

definition unmet :: "sequencer \<Rightarrow> message \<Rightarrow> string list" where
  "unmet s m = filter (\<lambda>a. a \<notin> emitted s) (ants m)"

definition pendingOf :: "sequencer \<Rightarrow> (string \<times> int) list" where
  "pendingOf s = map (\<lambda>(i, m). (i, int (length (unmet s m)))) (buffered s)"

definition dependentsOf :: "sequencer \<Rightarrow> string \<Rightarrow> string list" where
  "dependentsOf s a = map fst (filter (\<lambda>(i, m). a \<in> set (unmet s m)) (buffered s))"

definition readyHeap :: "sequencer \<Rightarrow> message list" where
  "readyHeap s = map snd (filter (\<lambda>(i, m). unmet s m = []) (buffered s))"

definition removeOrder :: "string \<Rightarrow> sequencer \<Rightarrow> sequencer" where
  "removeOrder i s = s\<lparr>order := removeAll i (order s)\<rparr>"

definition releaseDep :: "(string \<times> message) list \<Rightarrow> (string \<times> int) list \<times> message list \<Rightarrow> string
    \<Rightarrow> (string \<times> int) list \<times> message list" where
  "releaseDep buf ph d = (case ph of (p, h) \<Rightarrow>
     case map_of p d of None \<Rightarrow> (p, h)
     | Some l \<Rightarrow>
       if l - 1 \<le> 0 then (AList.delete d p, case map_of buf d of Some m \<Rightarrow> h @ [m] | None \<Rightarrow> h)
       else (AList.update d (l - 1) p, h))"

definition emitMsg :: "message \<Rightarrow> sequencer \<Rightarrow> sequencer" where
  "emitMsg m s = removeOrder (ID m) (s\<lparr>emitted := insert (ID m) (emitted s),
     buffered := AList.delete (ID m) (buffered s), nextSeq := nextSeq s + 1\<rparr>)"

lemma releaseDeps_size:
  "length (fst (foldl (releaseDep buf) (p, h) ds)) + length (snd (foldl (releaseDep buf) (p, h) ds)) \<le> length p + length h"
proof (induction ds arbitrary: p h)
  case (Cons d ds)
  obtain p' h' where s: "releaseDep buf (p, h) d = (p', h')" by (metis surj_pair)
  have "length p' + length h' \<le> length p + length h"
  proof (cases "map_of p d")
    case (Some l)
    then have "d \<in> fst ` set p" by (metis domI dom_map_of_conv_image_fst)
    then have "length (AList.delete d p) < length p"
      by (induction p) (auto simp: le_imp_less_Suc length_delete_le)
    moreover have "length (AList.update d x p) = length p" for x
      using \<open>d \<in> fst ` set p\<close> by (induction p) auto
    ultimately show ?thesis using s Some by (auto simp: releaseDep_def split: if_splits option.splits)
  qed (use s in \<open>simp add: releaseDep_def\<close>)
  then show ?case using Cons.IH[of p' h'] by (simp add: s)
qed simp

lemma leastMsg_mem: "leastMsg x ys \<in> set (x # ys)"
  by (induction x ys rule: leastMsg.induct) (auto split: if_splits)

lemma heapPop_Some:
  assumes "heapPop h = Some (m, h')"
  shows "m \<in> set h" "h' = remove1 m h" "length h' < length h"
proof -
  obtain x xs where h: "h = x # xs" using assms by (cases h) (auto simp: heapPop_def)
  then have m: "m = leastMsg x xs" "h' = remove1 m h" using assms by (auto simp: heapPop_def Let_def)
  then show "m \<in> set h" using leastMsg_mem[of x xs] h by simp
  then have "length (remove1 m h) = length h - 1" by (simp add: length_remove1)
  then show "length h' < length h" using m h by simp
  show "h' = remove1 m h" by (rule m(2))
qed

lemma drain_measure:
  assumes "heapPop h = Some (m, h1)"
  shows "length (fst (foldl (releaseDep buf) (AList.delete i p, h1) ds)) + length (snd (foldl (releaseDep buf) (AList.delete i p, h1) ds))
    < length p + length h"
  using releaseDeps_size[of buf "AList.delete i p" h1 ds] length_delete_le[of i p] heapPop_Some(3)[OF assms] by linarith

function drainLoop :: "(string \<Rightarrow> string list) \<Rightarrow> sequencer \<Rightarrow> (string \<times> int) list \<Rightarrow> message list \<Rightarrow> Sequenced list
    \<Rightarrow> sequencer \<times> Sequenced list" where
  "drainLoop deps s p h out = (case heapPop h of None \<Rightarrow> (s, out)
     | Some (m, h1) \<Rightarrow>
       let s1 = emitMsg m s; ph = foldl (releaseDep (buffered s1)) (AList.delete (ID m) p, h1) (deps (ID m))
       in drainLoop deps s1 (fst ph) (snd ph) (out @ [\<lparr>Seq = nextSeq s, Msg = m\<rparr>]))"
  by pat_completeness auto

termination
  by (relation "measure (\<lambda>(deps, s, p, h, out). length p + length h)") (auto simp only: drain_measure in_measure prod.case wf_measure)

declare drainLoop.simps [simp del]

text \<open>What was released comes back in the error case too, and the state has moved.\<close>

definition Drain :: "sequencer \<Rightarrow> sequencer \<times> Sequenced list \<times> seq_err option" where
  "Drain s =
     (if buffered s = [] then (s, [], None)
      else case drainLoop (dependentsOf s) s (pendingOf s) (readyHeap s) [] of (s', out) \<Rightarrow>
        (s', out, if int (length (buffered s')) > maxOrphans s'
           then Some (ErrOrphanBufferOverflow (int (length (buffered s'))) (maxOrphans s')) else None))"

section \<open>Seal and the batch entry point\<close>

fun firstMissing :: "string set \<Rightarrow> string list \<Rightarrow> string" where
  "firstMissing e [] = ''''"
| "firstMissing e (a # as) = (if a = '''' \<or> a \<in> e then firstMissing e as else a)"

definition Seal :: "sequencer \<Rightarrow> seq_err option" where
  "Seal s = (if buffered s = [] then None
     else Some (ErrUnrecoverableAntecedent (int (length (buffered s)))
       (map (\<lambda>i. (i, firstMissing (emitted s) (Antecedents (the (map_of (buffered s) i)))))
         (take 8 (sort (map fst (buffered s)))))))"

definition PendingCount :: "sequencer \<Rightarrow> int" where
  "PendingCount s = int (length (buffered s))"

definition PendingAntecedents :: "sequencer \<Rightarrow> (string \<rightharpoonup> string list)" where
  "PendingAntecedents s = foldl (\<lambda>out (i, m). foldl (\<lambda>out a. if a = '''' \<or> a \<in> emitted s then out
       else out(a \<mapsto> getd [] out a @ [i])) out (Antecedents m)) Map.empty (buffered s)"

fun ingestAll :: "message list \<Rightarrow> sequencer \<Rightarrow> seq_err + sequencer" where
  "ingestAll [] s = Inr s"
| "ingestAll (m # ms) s = (case Ingest m s of Inl e \<Rightarrow> Inl e | Inr s' \<Rightarrow> ingestAll ms s')"

definition SequenceForFold :: "message list \<Rightarrow> int \<Rightarrow> seq_err + message list" where
  "SequenceForFold msgs n =
     (let capacity = (if int (length msgs) > n then int (length msgs) else n) in
      case ingestAll msgs (NewSequencer capacity) of Inl e \<Rightarrow> Inl e
      | Inr s \<Rightarrow> (case Drain s of (s', released, err) \<Rightarrow>
          (case err of Some e \<Rightarrow> Inl e
           | None \<Rightarrow> (case Seal s' of Some e \<Rightarrow> Inl e | None \<Rightarrow> Inr (map Msg released)))))"

text \<open>Out of order, with a duplicate, and with a tie broken by ID.\<close>

definition seqMsg :: "string \<Rightarrow> string list \<Rightarrow> i64 \<Rightarrow> message" where
  "seqMsg i as t = \<lparr>ID = i, Sender = ''op'', Payload = None, Tags = [], Antecedents = as, Timestamp = t, Instance = ''''\<rparr>"

lemma sequence_example:
  "SequenceForFold [seqMsg ''c'' [''a'', ''b''] 1, seqMsg ''b'' [''a''] 9, seqMsg ''a'' [] 5, seqMsg ''b'' [''a''] 9, seqMsg ''z'' [] 7] 0
    = Inr [seqMsg ''a'' [] 5, seqMsg ''z'' [] 7, seqMsg ''b'' [''a''] 9, seqMsg ''c'' [''a'', ''b''] 1]"
  by code_simp

section \<open>The canonical order\<close>

lemma antsLoop_props: "set (antsLoop seen as) = set as - insert '''' seen" "distinct (antsLoop seen as)"
  by (induction seen as rule: antsLoop.induct) auto

lemma set_ants: "set (ants m) = set (Antecedents m) - {''''}" and distinct_ants [simp]: "distinct (ants m)"
  by (simp_all add: ants_def antsLoop_props)

definition needs :: "string set \<Rightarrow> message \<Rightarrow> string list" where
  "needs e m = filter (\<lambda>a. a \<notin> e) (ants m)"

lemma unmet_needs: "unmet s = needs (emitted s)"
  by (simp add: unmet_def needs_def fun_eq_iff)

lemma distinct_needs [simp]: "distinct (needs e m)"
  by (simp add: needs_def)

lemma needs_insert: "needs (insert i e) m = filter (\<lambda>a. a \<noteq> i) (needs e m)"
  by (simp add: needs_def conj_commute)

lemma length_needs_insert: "length (needs (insert i e) m) = length (needs e m) - (if i \<in> set (needs e m) then 1 else 0)"
proof -
  have "length (filter (\<lambda>a. a \<noteq> i) xs) = length xs - (if i \<in> set xs then 1 else 0)" if "distinct xs" for xs :: "string list"
    using that by (induction xs) (auto dest: length_pos_if_in_set)
  then show ?thesis unfolding needs_insert by simp
qed

lemma msgLess_irrefl [simp]: "\<not> msgLess x x"
  by (simp add: msgLess_def)

lemma msgLess_trans: "msgLess x y \<Longrightarrow> msgLess y z \<Longrightarrow> msgLess x z"
  by (auto simp: msgLess_def split: if_splits)

lemma msgLess_total: "ID x \<noteq> ID y \<Longrightarrow> msgLess x y \<or> msgLess y x"
  by (auto simp: msgLess_def)

lemma msgLess_cotrans: "\<not> msgLess x y \<Longrightarrow> \<not> msgLess y z \<Longrightarrow> \<not> msgLess x z"
  by (auto simp: msgLess_def split: if_splits)

lemma leastMsg_least: "y \<in> set (x # ys) \<Longrightarrow> \<not> msgLess y (leastMsg x ys)"
proof (induction x ys arbitrary: y rule: leastMsg.induct)
  case (2 x z ys)
  let ?w = "if msgLess z x then z else x"
  have w: "\<not> msgLess ?w (leastMsg ?w ys)" by (rule 2) simp
  have "\<not> msgLess x ?w" "\<not> msgLess z ?w" using msgLess_trans[of x z x] by auto
  then have "\<not> msgLess x (leastMsg ?w ys)" "\<not> msgLess z (leastMsg ?w ys)" using w msgLess_cotrans by blast+
  then show ?case using 2 by auto
qed simp

lemma heapPop_least: "heapPop h = Some (m, h') \<Longrightarrow> y \<in> set h \<Longrightarrow> \<not> msgLess y m"
  using leastMsg_least by (auto simp: heapPop_def Let_def split: list.splits)

lemma heapPop_None: "heapPop h = None \<longleftrightarrow> h = []"
  by (simp add: heapPop_def Let_def split: list.split)

text \<open>The least event of a set of events with distinct IDs does not depend on how they are listed.\<close>

lemma heapPop_unique:
  assumes "heapPop h = Some (m, h1)" "heapPop k = Some (n, k1)" "set h = set k" "inj_on ID (set h)"
  shows "m = n"
proof (rule ccontr)
  assume "m \<noteq> n"
  have "m \<in> set h" "n \<in> set h" using heapPop_Some[OF assms(1)] heapPop_Some[OF assms(2)] assms(3) by auto
  with \<open>m \<noteq> n\<close> have "msgLess m n \<or> msgLess n m" using assms(4) by (intro msgLess_total) (auto dest: inj_onD)
  then show False using heapPop_least[OF assms(1)] heapPop_least[OF assms(2)] \<open>m \<in> set h\<close> \<open>n \<in> set h\<close> assms(3) by auto
qed

text \<open>The reference: release, as long as there is one, the least event whose antecedents are all released.\<close>

function canon :: "string set \<Rightarrow> message list \<Rightarrow> message list" where
  "canon e ms = (case heapPop (filter (\<lambda>m. needs e m = []) ms) of None \<Rightarrow> []
     | Some (m, _) \<Rightarrow> m # canon (insert (ID m) e) (filter (\<lambda>x. ID x \<noteq> ID m) ms))"
  by pat_completeness auto

termination
proof (relation "measure (\<lambda>(e, ms). length ms)", simp, clarify)
  fix e :: "string set" and ms m x b
  assume "heapPop (filter (\<lambda>m. needs e m = []) ms) = Some (m, b)"
  then have "m \<in> set ms" by (auto dest: heapPop_Some(1))
  then show "((insert (ID m) e, filter (\<lambda>x. ID x \<noteq> ID m) ms), e, ms) \<in> measure (\<lambda>(e, ms). length ms)"
    by (auto intro!: length_filter_less)
qed

declare canon.simps [simp del]

lemma canon_None: "filter (\<lambda>m. needs e m = []) ms = [] \<Longrightarrow> canon e ms = []"
  by (subst canon.simps) (simp add: heapPop_def)

lemma canon_Some: "heapPop (filter (\<lambda>m. needs e m = []) ms) = Some (m, h) \<Longrightarrow>
    canon e ms = m # canon (insert (ID m) e) (filter (\<lambda>x. ID x \<noteq> ID m) ms)"
  by (subst canon.simps) simp

lemma canon_cases:
  obtains (stuck) "filter (\<lambda>m. needs e m = []) ms = []" "canon e ms = []"
  | (pick) m h where "heapPop (filter (\<lambda>m. needs e m = []) ms) = Some (m, h)" "m \<in> set ms" "needs e m = []"
      "canon e ms = m # canon (insert (ID m) e) (filter (\<lambda>x. ID x \<noteq> ID m) ms)"
proof (cases "heapPop (filter (\<lambda>m. needs e m = []) ms)")
  case None
  then show ?thesis using stuck canon_None by (simp add: heapPop_None)
next
  case (Some mh)
  obtain m h where mh: "mh = (m, h)" by fastforce
  then show ?thesis using Some pick canon_Some heapPop_Some(1)[of "filter (\<lambda>m. needs e m = []) ms" m h] by auto
qed

lemma canon_perm: "set ms = set ns \<Longrightarrow> inj_on ID (set ms) \<Longrightarrow> canon e ms = canon e ns"
proof (induction e ms arbitrary: ns rule: canon.induct)
  case (1 e ms)
  have f: "set (filter (\<lambda>m. needs e m = []) ms) = set (filter (\<lambda>m. needs e m = []) ns)" using 1(2) by simp
  show ?case
  proof (cases rule: canon_cases[of e ms])
    case stuck
    then have "filter (\<lambda>m. needs e m = []) ns = []" using f by (metis set_empty)
    then show ?thesis using stuck canon_None by simp
  next
    case (pick m h)
    then obtain n k where n: "heapPop (filter (\<lambda>m. needs e m = []) ns) = Some (n, k)"
      using f by (metis heapPop_None list.set_intros(1) not_Some_eq option.exhaust prod_cases3 set_empty surj_pair empty_iff)
    have "m = n" by (rule heapPop_unique[OF pick(1) n f]) (use 1(3) in \<open>auto intro: inj_on_subset\<close>)
    moreover have "canon (insert (ID m) e) (filter (\<lambda>x. ID x \<noteq> ID m) ms) = canon (insert (ID m) e) (filter (\<lambda>x. ID x \<noteq> ID m) ns)"
      using 1(2,3) pick(1) by (intro 1(1)[OF pick(1) refl]) (auto intro: inj_on_subset)
    ultimately show ?thesis using pick(4) canon_Some[OF n] by simp
  qed
qed

section \<open>Drain computes the canonical order\<close>

lemma releaseDeps_fold:
  assumes "distinct ds" "\<And>d. d \<in> set ds \<Longrightarrow> map_of buf d = Some (msgOf d) \<and> map_of p d = Some (cnt d)"
  shows "snd (foldl (releaseDep buf) (p, h) ds) = h @ map msgOf (filter (\<lambda>d. cnt d \<le> 1) ds)
    \<and> map_of (fst (foldl (releaseDep buf) (p, h) ds))
      = (\<lambda>d. if d \<in> set ds then (if cnt d \<le> 1 then None else Some (cnt d - 1)) else map_of p d)"
  using assms
proof (induction ds arbitrary: p h)
  case (Cons d ds)
  have d: "map_of buf d = Some (msgOf d)" "map_of p d = Some (cnt d)" using Cons.prems(2) by auto
  define p' where "p' = (if cnt d \<le> 1 then AList.delete d p else AList.update d (cnt d - 1) p)"
  define h' where "h' = (if cnt d \<le> 1 then h @ [msgOf d] else h)"
  have step: "releaseDep buf (p, h) d = (p', h')" using d by (simp add: releaseDep_def p'_def h'_def)
  have p': "map_of p' = (map_of p)(d := if cnt d \<le> 1 then None else Some (cnt d - 1))"
    by (simp add: p'_def delete_conv' update_conv')
  have "map_of buf x = Some (msgOf x) \<and> map_of p' x = Some (cnt x)" if "x \<in> set ds" for x
    using that Cons.prems by (auto simp: p')
  then show ?case using Cons.IH[of p' h'] Cons.prems(1) by (auto simp: step h'_def p' fun_eq_iff)
qed simp

definition waiting :: "sequencer \<Rightarrow> message list" where
  "waiting s = map snd (buffered s)"

text \<open>The buffer is a map keyed by event ID, apart from what has been released.\<close>

definition buffer_ok :: "sequencer \<Rightarrow> bool" where
  "buffer_ok s \<longleftrightarrow> distinct (map fst (buffered s)) \<and> (\<forall>x \<in> set (buffered s). fst x = ID (snd x))
     \<and> fst ` set (buffered s) \<inter> emitted s = {}"

lemma buffer_ids: "buffer_ok s \<Longrightarrow> map fst (buffered s) = map ID (waiting s)"
  by (auto simp: buffer_ok_def waiting_def)

lemma buffer_inj:
  assumes "buffer_ok s"
  shows "inj_on ID (set (waiting s)) \<and> distinct (waiting s)"
proof -
  have "distinct (map fst (buffered s))" using assms by (simp add: buffer_ok_def)
  then have "distinct (map ID (waiting s))" unfolding buffer_ids[OF assms] .
  then show ?thesis by (simp add: distinct_map)
qed

lemma buffer_lookup:
  assumes "buffer_ok s" "m \<in> set (waiting s)"
  shows "map_of (buffered s) (ID m) = Some m"
proof -
  have "(ID m, m) \<in> set (buffered s)" using assms by (force simp: buffer_ok_def waiting_def)
  then show ?thesis using assms(1) by (simp add: buffer_ok_def)
qed

lemma emitMsg_parts [simp]: "emitted (emitMsg m s) = insert (ID m) (emitted s)" "nextSeq (emitMsg m s) = nextSeq s + 1"
  "buffered (emitMsg m s) = AList.delete (ID m) (buffered s)" "maxOrphans (emitMsg m s) = maxOrphans s"
  "missingCount (emitMsg m s) = missingCount s" "missingOf (emitMsg m s) = missingOf s"
  "missingWaiters (emitMsg m s) = missingWaiters s" "trueOrphans (emitMsg m s) = trueOrphans s"
  "order (emitMsg m s) = removeAll (ID m) (order s)"
  by (simp_all add: emitMsg_def removeOrder_def)

lemma waiting_emit:
  assumes "buffer_ok s"
  shows "waiting (emitMsg m s) = filter (\<lambda>x. ID x \<noteq> ID m) (waiting s)"
proof -
  have "filter (\<lambda>(k, _). ID m \<noteq> k) (buffered s) = filter (\<lambda>x. ID (snd x) \<noteq> ID m) (buffered s)"
    using assms by (intro filter_cong) (auto simp: buffer_ok_def)
  then show ?thesis by (simp add: waiting_def AList.delete_eq filter_map comp_def)
qed

lemma buffer_ok_emit: "buffer_ok s \<Longrightarrow> buffer_ok (emitMsg m s)"
  unfolding buffer_ok_def by (auto simp: AList.delete_eq distinct_map_filter) (metis IntI empty_iff image_eqI snd_conv)

text \<open>
  The loop's invariant: the heap holds the ready events, each other event's counter is the number of its
  unreleased antecedents, and every unreleased antecedent knows who waits for it.
\<close>

definition drain_ok :: "(string \<Rightarrow> string list) \<Rightarrow> sequencer \<Rightarrow> (string \<times> int) list \<Rightarrow> message list \<Rightarrow> bool" where
  "drain_ok deps s p h \<longleftrightarrow> buffer_ok s \<and> distinct h
     \<and> set h = {m \<in> set (waiting s). needs (emitted s) m = []}
     \<and> (\<forall>m \<in> set (waiting s). needs (emitted s) m \<noteq> [] \<longrightarrow> map_of p (ID m) = Some (int (length (needs (emitted s) m))))
     \<and> (\<forall>a. a \<notin> emitted s \<longrightarrow> distinct (deps a)
          \<and> set (deps a) = ID ` {m \<in> set (waiting s). a \<in> set (needs (emitted s) m)})"

lemma drain_start:
  assumes "buffer_ok s"
  shows "drain_ok (dependentsOf s) s (pendingOf s) (readyHeap s)"
proof -
  have d: "distinct (map fst (buffered s))" using assms by (simp add: buffer_ok_def)
  have h: "readyHeap s = filter (\<lambda>m. needs (emitted s) m = []) (waiting s)"
    by (simp add: readyHeap_def waiting_def filter_map comp_def unmet_needs case_prod_unfold)
  have p: "map_of (pendingOf s) (ID m) = Some (int (length (needs (emitted s) m)))" if "m \<in> set (waiting s)" for m
  proof -
    have "map_of (pendingOf s) k = map_option (\<lambda>m. int (length (needs (emitted s) m))) (map_of (buffered s) k)" for k
      by (simp add: pendingOf_def unmet_needs map_of_map)
    then show ?thesis using buffer_lookup[OF assms that] by simp
  qed
  have "set (dependentsOf s a) = ID ` {m \<in> set (waiting s). a \<in> set (needs (emitted s) m)}" for a
    using assms by (force simp: dependentsOf_def waiting_def unmet_needs buffer_ok_def)
  moreover have "distinct (dependentsOf s a)" for a using d by (simp add: dependentsOf_def distinct_map_filter)
  ultimately show ?thesis using assms p buffer_inj[OF assms] by (simp add: drain_ok_def h)
qed

lemma drain_step:
  assumes ok: "drain_ok deps s p h" and pop: "heapPop h = Some (m, h1)"
  shows "drain_ok deps (emitMsg m s) (fst (foldl (releaseDep (buffered (emitMsg m s))) (AList.delete (ID m) p, h1) (deps (ID m))))
    (snd (foldl (releaseDep (buffered (emitMsg m s))) (AList.delete (ID m) p, h1) (deps (ID m))))"
proof -
  define e where "e = emitted s"
  define buf where "buf = buffered (emitMsg m s)"
  define ds where "ds = deps (ID m)"
  define cnt where "cnt = (\<lambda>d. the (map_of p d))"
  define msgOf where "msgOf = (\<lambda>d. the (map_of (buffered s) d))"
  have b: "buffer_ok s" and dh: "distinct h" and h: "set h = {m \<in> set (waiting s). needs e m = []}"
    and p: "\<And>x. x \<in> set (waiting s) \<Longrightarrow> needs e x \<noteq> [] \<Longrightarrow> map_of p (ID x) = Some (int (length (needs e x)))"
    and deps: "\<And>a. a \<notin> e \<Longrightarrow> distinct (deps a) \<and> set (deps a) = ID ` {m \<in> set (waiting s). a \<in> set (needs e m)}"
    using ok by (auto simp: drain_ok_def e_def)
  have m: "m \<in> set (waiting s)" "needs e m = []" and h1: "h1 = remove1 m h" using heapPop_Some[OF pop] h by auto
  have inj: "inj_on ID (set (waiting s))" using buffer_inj[OF b] by simp
  have new: "ID m \<notin> e" using m(1) b by (force simp: buffer_ok_def waiting_def e_def)
  have w: "set (waiting (emitMsg m s)) = set (waiting s) - {m}" using waiting_emit[OF b] inj m(1) by (auto dest: inj_onD)
  have ds: "distinct ds" "set ds = ID ` {x \<in> set (waiting s). ID m \<in> set (needs e x)}" using deps[OF new] by (auto simp: ds_def)
  have dep: "x \<noteq> m \<and> needs e x \<noteq> []" if "ID m \<in> set (needs e x)" for x using that m(2) by auto
  have look: "map_of buf (ID x) = Some x \<and> map_of (AList.delete (ID m) p) (ID x) = Some (int (length (needs e x)))"
    if "x \<in> set (waiting s)" "ID m \<in> set (needs e x)" for x
  proof -
    have x: "x \<noteq> m" "needs e x \<noteq> []" using dep[OF that(2)] by auto
    then have "ID x \<noteq> ID m" using inj that(1) m(1) by (auto dest: inj_onD)
    then show ?thesis using p[OF that(1) x(2)] buffer_lookup[OF b that(1)] by (simp add: buf_def delete_conv')
  qed
  have c: "cnt (ID x) = int (length (needs e x))" "msgOf (ID x) = x" if "x \<in> set (waiting s)" "ID m \<in> set (needs e x)" for x
    using p[OF that(1)] dep[OF that(2)] buffer_lookup[OF b that(1)] by (simp_all add: cnt_def msgOf_def)
  let ?r = "foldl (releaseDep buf) (AList.delete (ID m) p, h1) ds"
  have r: "snd ?r = h1 @ map msgOf (filter (\<lambda>d. cnt d \<le> 1) ds)
    \<and> map_of (fst ?r) = (\<lambda>d. if d \<in> set ds then (if cnt d \<le> 1 then None else Some (cnt d - 1)) else map_of (AList.delete (ID m) p) d)"
  proof (rule releaseDeps_fold[OF ds(1)])
    fix d assume "d \<in> set ds"
    then obtain x where x: "d = ID x" "x \<in> set (waiting s)" "ID m \<in> set (needs e x)" using ds(2) by blast
    show "map_of buf d = Some (msgOf d) \<and> map_of (AList.delete (ID m) p) d = Some (cnt d)"
      unfolding x(1) c[OF x(2,3)] by (rule look[OF x(2,3)])
  qed
  have rdy: "set (map msgOf (filter (\<lambda>d. cnt d \<le> 1) ds)) = {x \<in> set (waiting s). ID m \<in> set (needs e x) \<and> length (needs e x) \<le> 1}"
    (is "?L = ?R")
  proof (intro set_eqI iffI)
    fix x assume "x \<in> ?L"
    then obtain y where "x = msgOf (ID y)" "y \<in> set (waiting s)" "ID m \<in> set (needs e y)" "cnt (ID y) \<le> 1" using ds(2) by auto
    then show "x \<in> ?R" using c[of y] by auto
  next
    fix x assume "x \<in> ?R"
    then have x: "x \<in> set (waiting s)" "ID m \<in> set (needs e x)" "length (needs e x) \<le> 1" by auto
    then have "ID x \<in> set (filter (\<lambda>d. cnt d \<le> 1) ds)" using ds(2) c[OF x(1,2)] by auto
    then have "msgOf (ID x) \<in> ?L" unfolding set_map by (rule imageI)
    then show "x \<in> ?L" using c[OF x(1,2)] by simp
  qed
  have len1: "needs (insert (ID m) e) x = [] \<longleftrightarrow> needs e x = [] \<or> (ID m \<in> set (needs e x) \<and> length (needs e x) \<le> 1)" for x
  proof -
    have "length (needs (insert (ID m) e) x) = 0 \<longleftrightarrow> needs e x = [] \<or> (ID m \<in> set (needs e x) \<and> length (needs e x) \<le> 1)"
      unfolding length_needs_insert by auto
    then show ?thesis by simp
  qed
  have hs: "set (snd ?r) = {x \<in> set (waiting (emitMsg m s)). needs (insert (ID m) e) x = []}"
  proof -
    have "set (snd ?r) = (set h - {m}) \<union> {x \<in> set (waiting s). ID m \<in> set (needs e x) \<and> length (needs e x) \<le> 1}"
      using r rdy dh h1 by simp
    also have "\<dots> = {x \<in> set (waiting s) - {m}. needs (insert (ID m) e) x = []}"
      using h dep by (auto simp: len1)
    finally show ?thesis by (simp add: w)
  qed
  have dist: "distinct (snd ?r)"
  proof -
    have "inj_on msgOf (set ds)" using c(2) ds(2) by (auto simp: inj_on_def)
    then have "distinct (map msgOf (filter (\<lambda>d. cnt d \<le> 1) ds))" using ds(1)
      by (auto simp: distinct_map intro: inj_on_subset)
    moreover have "set h1 \<inter> set (map msgOf (filter (\<lambda>d. cnt d \<le> 1) ds)) = {}" using rdy h h1 dh dep by auto
    ultimately show ?thesis using r dh h1 by simp
  qed
  have cntr: "map_of (fst ?r) (ID x) = Some (int (length (needs (insert (ID m) e) x)))"
    if "x \<in> set (waiting (emitMsg m s))" "needs (insert (ID m) e) x \<noteq> []" for x
  proof -
    have x: "x \<in> set (waiting s)" "ID x \<noteq> ID m" using that(1) w inj m(1) by (auto dest: inj_onD)
    show ?thesis
    proof (cases "ID m \<in> set (needs e x)")
      case True
      then have "ID x \<in> set ds" using ds(2) x(1) by auto
      moreover have "\<not> cnt (ID x) \<le> 1" using c(1)[OF x(1) True] that(2) True len1[of x] by auto
      ultimately show ?thesis using r c(1)[OF x(1) True] True by (simp add: length_needs_insert)
    next
      case False
      then have "ID x \<notin> set ds" using ds(2) inj x(1) by (auto dest: inj_onD)
      moreover have "needs e x \<noteq> []" using that(2) len1[of x] by auto
      ultimately show ?thesis using r p[OF x(1)] x(2) False by (simp add: length_needs_insert delete_conv')
    qed
  qed
  have dps: "distinct (deps a) \<and> set (deps a) = ID ` {x \<in> set (waiting (emitMsg m s)). a \<in> set (needs (insert (ID m) e) x)}"
    if "a \<notin> insert (ID m) e" for a
  proof -
    have "{x \<in> set (waiting (emitMsg m s)). a \<in> set (needs (insert (ID m) e) x)} = {x \<in> set (waiting s). a \<in> set (needs e x)}"
      using that m(2) by (auto simp: w needs_insert)
    then show ?thesis using deps[of a] that by simp
  qed
  show ?thesis using buffer_ok_emit[OF b] dist hs cntr dps
    unfolding drain_ok_def buf_def[symmetric] ds_def[symmetric] by (simp add: e_def)
qed

fun numbered :: "int \<Rightarrow> message list \<Rightarrow> Sequenced list" where
  "numbered n [] = []"
| "numbered n (m # ms) = \<lparr>Seq = n, Msg = m\<rparr> # numbered (n + 1) ms"

lemma map_Msg_numbered [simp]: "map Msg (numbered n ms) = ms"
  by (induction ms arbitrary: n) auto

text \<open>Everything but the buffer and the released set stays; what is left is what the order does not contain.\<close>

lemma drainLoop_canon:
  assumes "drain_ok deps s p h" and "drainLoop deps s p h out = (s', out')"
  shows "out' = out @ numbered (nextSeq s) (canon (emitted s) (waiting s))
    \<and> buffer_ok s' \<and> emitted s' = emitted s \<union> ID ` set (canon (emitted s) (waiting s))
    \<and> waiting s' = filter (\<lambda>x. x \<notin> set (canon (emitted s) (waiting s))) (waiting s)
    \<and> (\<forall>m \<in> set (waiting s'). needs (emitted s') m \<noteq> [])
    \<and> maxOrphans s' = maxOrphans s"
  using assms
proof (induction deps s p h out arbitrary: s' out' rule: drainLoop.induct)
  case (1 deps s p h out)
  from 1(2) have b: "buffer_ok s" and hs: "set h = {m \<in> set (waiting s). needs (emitted s) m = []}"
    by (simp_all add: drain_ok_def)
  have inj: "inj_on ID (set (waiting s))" using buffer_inj[OF b] by simp
  let ?f = "filter (\<lambda>m. needs (emitted s) m = []) (waiting s)"
  have sf: "set ?f = set h" using hs by auto
  show ?case
  proof (cases "heapPop h")
    case None
    then have "h = []" by (simp add: heapPop_None)
    then have e: "?f = []" using sf by (metis set_empty)
    then have c: "canon (emitted s) (waiting s) = []" by (rule canon_None)
    have "needs (emitted s) m \<noteq> []" if "m \<in> set (waiting s)" for m using hs \<open>h = []\<close> that by auto
    moreover have "s' = s" "out' = out" using 1(3) None by (simp_all add: drainLoop.simps[of deps s p h out])
    ultimately show ?thesis using b by (simp add: c)
  next
    case (Some mh)
    obtain m h1 where mh: "mh = (m, h1)" by fastforce
    let ?s = "emitMsg m s"
    let ?r = "foldl (releaseDep (buffered ?s)) (AList.delete (ID m) p, h1) (deps (ID m))"
    have m: "m \<in> set (waiting s)" using heapPop_Some(1)[OF Some[unfolded mh]] hs by auto
    obtain n k where nk: "heapPop ?f = Some (n, k)"
      using sf heapPop_Some(1)[OF Some[unfolded mh]] by (metis empty_iff empty_set heapPop_None not_None_eq surj_pair)
    have "n = m" by (rule heapPop_unique[OF nk Some[unfolded mh] sf]) (use sf hs inj in \<open>auto intro: inj_on_subset\<close>)
    then have c: "canon (emitted s) (waiting s) = m # canon (emitted ?s) (waiting ?s)"
      using canon_Some[OF nk] waiting_emit[OF b] by simp
    have loop: "drainLoop deps ?s (fst ?r) (snd ?r) (out @ [\<lparr>Seq = nextSeq s, Msg = m\<rparr>]) = (s', out')"
      using 1(3) Some mh by (subst (asm) drainLoop.simps) (simp add: Let_def)
    note ih = 1(1)[OF Some mh[symmetric] refl refl drain_step[OF 1(2) Some[unfolded mh]] loop]
    have "filter (\<lambda>x. x \<notin> set (canon (emitted ?s) (waiting ?s))) (waiting ?s)
        = filter (\<lambda>x. x \<notin> set (m # canon (emitted ?s) (waiting ?s))) (waiting s)"
      unfolding waiting_emit[OF b] filter_filter using inj m by (intro filter_cong) (auto dest: inj_onD)
    then show ?thesis using ih unfolding c by auto
  qed
qed

lemma Drain_canon:
  assumes "buffer_ok s" and "Drain s = (s', out, err)"
  shows "out = numbered (nextSeq s) (canon (emitted s) (waiting s))
    \<and> emitted s' = emitted s \<union> ID ` set (canon (emitted s) (waiting s))
    \<and> waiting s' = filter (\<lambda>m. m \<notin> set (canon (emitted s) (waiting s))) (waiting s)
    \<and> list_all (\<lambda>m. needs (emitted s') m \<noteq> []) (waiting s')"
proof (cases "buffered s = []")
  case True
  then show ?thesis using assms canon_None[of "emitted s" "[]"] by (simp add: Drain_def waiting_def)
next
  case False
  obtain t o' where l: "drainLoop (dependentsOf s) s (pendingOf s) (readyHeap s) [] = (t, o')" by fastforce
  with assms(2) False have "s' = t" "out = o'" by (simp_all add: Drain_def)
  then show ?thesis using drainLoop_canon[OF drain_start[OF assms(1)] l] by (auto simp: list_all_iff)
qed

text \<open>
  C9: the heap computes the canonical order. On a buffer keyed by ID, Drain releases exactly the canonical
  linear extension of the buffered events over what was released before: the least ready event by timestamp
  and ID, again and again. They are numbered consecutively, and no event left in the buffer is ready.
\<close>

theorem drain_canonical:
  assumes "buffer_ok s" and "Drain s = (s', out, err)"
  shows "out = numbered (nextSeq s) (canon (emitted s) (waiting s))
    \<and> emitted s' = emitted s \<union> ID ` set (canon (emitted s) (waiting s))
    \<and> waiting s' = filter (\<lambda>m. m \<notin> set (canon (emitted s) (waiting s))) (waiting s)
    \<and> list_all (\<lambda>m. needs (emitted s') m \<noteq> []) (waiting s')"
  by (rule Drain_canon[OF assms])

lemma Drain_frame:
  assumes "buffer_ok s" and "Drain s = (s', out, err)"
  shows "buffer_ok s' \<and> maxOrphans s' = maxOrphans s
    \<and> err = (if buffered s \<noteq> [] \<and> int (length (buffered s')) > maxOrphans s
        then Some (ErrOrphanBufferOverflow (int (length (buffered s'))) (maxOrphans s)) else None)"
proof (cases "buffered s = []")
  case True
  then show ?thesis using assms by (simp add: Drain_def)
next
  case False
  obtain t o' where l: "drainLoop (dependentsOf s) s (pendingOf s) (readyHeap s) [] = (t, o')" by fastforce
  with assms(2) False drainLoop_canon[OF drain_start[OF assms(1)] l] show ?thesis by (auto simp: Drain_def)
qed

section \<open>Properties of the canonical order\<close>

lemma canon_sub: "set (canon e ms) \<subseteq> set ms \<and> distinct (map ID (canon e ms))"
proof (induction e ms rule: canon.induct)
  case (1 e ms)
  show ?case
  proof (cases rule: canon_cases[of e ms])
    case (pick m h)
    note ih = 1[OF pick(1) refl]
    then have "ID m \<notin> ID ` set (canon (insert (ID m) e) (filter (\<lambda>x. ID x \<noteq> ID m) ms))" by auto
    then show ?thesis using ih pick(2,4) by auto
  qed simp
qed

lemma canon_causal:
  "i < length (canon e ms) \<Longrightarrow> a \<in> set (ants (canon e ms ! i)) \<Longrightarrow> a \<in> e \<or> (\<exists>j < i. ID (canon e ms ! j) = a)"
proof (induction e ms arbitrary: i rule: canon.induct)
  case (1 e ms)
  show ?case
  proof (cases rule: canon_cases[of e ms])
    case stuck
    then show ?thesis using 1 by simp
  next
    case (pick m h)
    show ?thesis
    proof (cases i)
      case 0
      then show ?thesis using 1(3) pick(3,4) by (auto simp: needs_def filter_empty_conv)
    next
      case (Suc k)
      then have "a \<in> insert (ID m) e \<or> (\<exists>j < k. ID (canon (insert (ID m) e) (filter (\<lambda>x. ID x \<noteq> ID m) ms) ! j) = a)"
        using 1(2,3) pick(4) by (intro 1(1)[OF pick(1) refl]) auto
      then show ?thesis
      proof (elim disjE insertE exE conjE)
        assume "a = ID m"
        then show ?thesis using Suc pick(4) by (intro disjI2 exI[of _ 0]) simp
      next
        fix j assume "j < k" "ID (canon (insert (ID m) e) (filter (\<lambda>x. ID x \<noteq> ID m) ms) ! j) = a"
        then show ?thesis using Suc pick(4) by (intro disjI2 exI[of _ "Suc j"]) simp
      qed simp
    qed
  qed
qed

text \<open>The events whose causal history is complete: the least set closed under its antecedents.\<close>

inductive recoverable :: "string set \<Rightarrow> message set \<Rightarrow> message \<Rightarrow> bool" for e ms where
  step: "m \<in> ms \<Longrightarrow> \<forall>a \<in> set (ants m). a \<in> e \<or> (\<exists>m'. recoverable e ms m' \<and> ID m' = a) \<Longrightarrow> recoverable e ms m"

lemma canon_stuck: "m \<in> set ms \<Longrightarrow> m \<notin> set (canon e ms) \<Longrightarrow> inj_on ID (set ms) \<Longrightarrow> needs (e \<union> ID ` set (canon e ms)) m \<noteq> []"
proof (induction e ms rule: canon.induct)
  case (1 e ms)
  show ?case
  proof (cases rule: canon_cases[of e ms])
    case stuck
    then show ?thesis using 1(2) by (auto simp: filter_empty_conv)
  next
    case (pick n h)
    have "ID m \<noteq> ID n" using 1(2-4) pick(2,4) by (auto dest: inj_onD)
    then have "needs (insert (ID n) e \<union> ID ` set (canon (insert (ID n) e) (filter (\<lambda>x. ID x \<noteq> ID n) ms))) m \<noteq> []"
      using 1(2-4) pick(4) by (intro 1(1)[OF pick(1) refl]) (auto intro: inj_on_subset)
    then show ?thesis using pick(4) by simp
  qed
qed

lemma canon_recoverable:
  assumes "inj_on ID (set ms)"
  shows "set (canon e ms) = {m. recoverable e (set ms) m}"
proof (intro set_eqI iffI)
  fix m assume "m \<in> {m. recoverable e (set ms) m}"
  then have "recoverable e (set ms) m" by simp
  then show "m \<in> set (canon e ms)"
  proof induction
    case (step m)
    then have "needs (e \<union> ID ` set (canon e ms)) m = []" by (auto simp: needs_def filter_empty_conv)
    then show ?case using canon_stuck[of m ms e] step(1) assms by blast
  qed
next
  have "recoverable e (set ms) (canon e ms ! i)" if "i < length (canon e ms)" for i
    using that
  proof (induction i rule: less_induct)
    case (less i)
    have "canon e ms ! i \<in> set ms" using canon_sub[of e ms] nth_mem[OF less.prems] by blast
    moreover have "a \<in> e \<or> (\<exists>m'. recoverable e (set ms) m' \<and> ID m' = a)" if a: "a \<in> set (ants (canon e ms ! i))" for a
    proof -
      consider "a \<in> e" | j where "j < i" "ID (canon e ms ! j) = a" using canon_causal[OF less.prems a] by blast
      then show ?thesis using less.IH less.prems by cases (auto dest: order.strict_trans)
    qed
    ultimately show ?case by (intro recoverable.step) auto
  qed
  then show "m \<in> {m. recoverable e (set ms) m}" if "m \<in> set (canon e ms)" for m
    using that by (metis in_set_conv_nth mem_Collect_eq)
qed

section \<open>The bookkeeping of missing antecedents\<close>

text \<open>The counter of events with a missing antecedent, and the waiter lists behind it.\<close>

definition book_ok :: "sequencer \<Rightarrow> bool" where
  "book_ok s \<longleftrightarrow> finite (dom (missingCount s)) \<and> trueOrphans s = int (card (dom (missingCount s)))
     \<and> dom (missingCount s) \<subseteq> fst ` set (buffered s)"

lemma resolveWaiter_frame [simp]: "nextSeq (resolveWaiter s w) = nextSeq s" "maxOrphans (resolveWaiter s w) = maxOrphans s"
  "emitted (resolveWaiter s w) = emitted s" "buffered (resolveWaiter s w) = buffered s"
  "order (resolveWaiter s w) = order s" "missingWaiters (resolveWaiter s w) = missingWaiters s"
  by (simp_all add: resolveWaiter_def split: option.split)

lemma resolveWaiters_frame [simp]: "nextSeq (foldl resolveWaiter s ws) = nextSeq s" "maxOrphans (foldl resolveWaiter s ws) = maxOrphans s"
  "emitted (foldl resolveWaiter s ws) = emitted s" "buffered (foldl resolveWaiter s ws) = buffered s"
  "order (foldl resolveWaiter s ws) = order s" "missingWaiters (foldl resolveWaiter s ws) = missingWaiters s"
  by (induction ws arbitrary: s) simp_all

lemma resolveArrival_frame [simp]: "nextSeq (resolveArrival i s) = nextSeq s" "maxOrphans (resolveArrival i s) = maxOrphans s"
  "emitted (resolveArrival i s) = emitted s" "buffered (resolveArrival i s) = buffered s" "order (resolveArrival i s) = order s"
  by (simp_all add: resolveArrival_def Let_def)

lemma insertBuffered_frame [simp]: "nextSeq (insertBuffered m as s) = nextSeq s" "maxOrphans (insertBuffered m as s) = maxOrphans s"
  "emitted (insertBuffered m as s) = emitted s" "buffered (insertBuffered m as s) = AList.update (ID m) m (buffered s)"
  "order (insertBuffered m as s) = order s @ [ID m]"
  by (simp_all add: insertBuffered_def Let_def)

lemma book_ok_resolveWaiter: "book_ok s \<Longrightarrow> book_ok (resolveWaiter s w)"
proof (cases "missingCount s w")
  case (Some c)
  assume b: "book_ok s"
  then have "card (dom (missingCount s)) \<ge> 1" using Some by (auto simp: book_ok_def Suc_le_eq card_gt_0_iff)
  then show ?thesis using b Some by (auto simp: book_ok_def resolveWaiter_def card_Diff_singleton_if insert_absorb domI)
qed (simp add: resolveWaiter_def)

lemma book_ok_resolveArrival: "book_ok s \<Longrightarrow> book_ok (resolveArrival i s)"
proof -
  assume b: "book_ok s"
  have f: "book_ok s \<Longrightarrow> book_ok (foldl resolveWaiter s ws)" for ws s
    by (induction ws arbitrary: s) (simp_all add: book_ok_resolveWaiter)
  have "book_ok (s\<lparr>missingWaiters := (missingWaiters s)(i := None)\<rparr>)" using b by (simp add: book_ok_def)
  from f[OF this] b show ?thesis by (simp add: resolveArrival_def Let_def)
qed

declare keys_update [simp] keys_delete [simp]

lemma book_ok_insertBuffered:
  assumes "book_ok s" "ID m \<notin> fst ` set (buffered s)"
  shows "book_ok (insertBuffered m as s)"
proof -
  have "ID m \<notin> dom (missingCount s)" using assms by (auto simp: book_ok_def)
  then show ?thesis unfolding insertBuffered_def Let_def
    by (intro book_ok_resolveArrival) (use assms(1) in \<open>auto simp: book_ok_def\<close>)
qed

lemma book_ok_orphans: "book_ok s \<Longrightarrow> trueOrphans s \<le> int (length (buffered s))"
proof -
  assume b: "book_ok s"
  then have "card (dom (missingCount s)) \<le> card (fst ` set (buffered s))" by (intro card_mono) (auto simp: book_ok_def)
  also have "\<dots> \<le> length (buffered s)" by (metis card_image_le List.finite_set card_length order.trans)
  finally show ?thesis using b by (simp add: book_ok_def)
qed

lemma buffer_new: "k \<notin> fst ` set xs \<Longrightarrow> AList.update k v xs = xs @ [(k, v)]"
  by (induction xs) auto

lemma buffer_ok_insert:
  assumes "buffer_ok s" "ID m \<notin> fst ` set (buffered s)" "ID m \<notin> emitted s"
  shows "buffer_ok (insertBuffered m as s)" "waiting (insertBuffered m as s) = waiting s @ [m]"
proof -
  have b: "buffered (insertBuffered m as s) = buffered s @ [(ID m, m)]" using assms(2) by (simp add: buffer_new)
  show "waiting (insertBuffered m as s) = waiting s @ [m]" by (simp add: waiting_def b del: insertBuffered_frame(4))
  have p: "distinct (map fst (buffered s))" "\<forall>x \<in> set (buffered s). fst x = ID (snd x)"
    and e: "fst ` set (buffered s) \<inter> emitted s = {}" using assms(1) unfolding buffer_ok_def by blast+
  have "distinct (map fst (buffered s @ [(ID m, m)]))" using p(1) assms(2) by simp
  moreover have "\<forall>x \<in> set (buffered s @ [(ID m, m)]). fst x = ID (snd x)" using p(2) by simp
  moreover have "fst ` set (buffered s @ [(ID m, m)]) \<inter> emitted s = {}" using e assms(3) by simp
  ultimately show "buffer_ok (insertBuffered m as s)" unfolding buffer_ok_def b insertBuffered_frame(3) by blast
qed

lemma map_of_known: "map_of xs k \<noteq> None \<longleftrightarrow> k \<in> fst ` set xs"
  by (simp add: map_of_eq_None_iff)

lemma Ingest_room:
  assumes "book_ok s" "buffer_ok s" "ID m \<noteq> ''''" "int (length (buffered s)) < maxOrphans s"
  shows "\<exists>s'. Ingest m s = Inr s' \<and> book_ok s' \<and> buffer_ok s' \<and> emitted s' = emitted s \<and> maxOrphans s' = maxOrphans s \<and> nextSeq s' = nextSeq s
    \<and> waiting s' = (if isKnown s (ID m) then waiting s else waiting s @ [m])"
proof (cases "isKnown s (ID m)")
  case True
  then show ?thesis using assms by (auto simp: Ingest_def isKnown_def)
next
  case False
  then have n: "ID m \<notin> fst ` set (buffered s)" "ID m \<notin> emitted s" by (auto simp: isKnown_def map_of_eq_None_iff)
  moreover have "trueOrphans s + 1 \<le> maxOrphans s" using book_ok_orphans[OF assms(1)] assms(4) by simp
  ultimately show ?thesis using assms False book_ok_insertBuffered[OF assms(1) n(1)] buffer_ok_insert[OF assms(2) n]
    by (simp add: Ingest_def Let_def map_of_eq_None_iff isKnown_def del: not_None_eq)
qed

lemma known_waiting: "buffer_ok s \<Longrightarrow> isKnown s i \<longleftrightarrow> i \<in> emitted s \<or> i \<in> ID ` set (waiting s)"
  using buffer_ids[of s] by (auto simp: isKnown_def map_of_eq_None_iff waiting_def image_image buffer_ok_def)

lemma ingestAll_room:
  assumes "book_ok s" "buffer_ok s" "emitted s = {}" "int (length (buffered s)) + int (length msgs) \<le> maxOrphans s"
    "inj_on ID (set (waiting s) \<union> set msgs)" "\<forall>m \<in> set msgs. ID m \<noteq> ''''"
  shows "\<exists>s'. ingestAll msgs s = Inr s' \<and> buffer_ok s' \<and> emitted s' = {} \<and> maxOrphans s' = maxOrphans s \<and> nextSeq s' = nextSeq s
    \<and> set (waiting s') = set (waiting s) \<union> set msgs"
  using assms
proof (induction msgs arbitrary: s)
  case (Cons m ms)
  have "int (length (buffered s)) < maxOrphans s" using Cons.prems(4) by simp
  from Ingest_room[OF Cons.prems(1,2) _ this, of m] Cons.prems(6) obtain s' where s':
    "Ingest m s = Inr s'" "book_ok s'" "buffer_ok s'" "emitted s' = {}" "maxOrphans s' = maxOrphans s" "nextSeq s' = nextSeq s"
    "waiting s' = (if isKnown s (ID m) then waiting s else waiting s @ [m])" using Cons.prems(3) by auto
  have known: "isKnown s (ID m) \<longleftrightarrow> m \<in> set (waiting s)"
    using known_waiting[OF Cons.prems(2), of "ID m"] Cons.prems(3,5) by (auto dest: inj_onD)
  then have w: "set (waiting s') = insert m (set (waiting s))" using s'(7) by auto
  have "length (buffered s') = length (waiting s')" "length (buffered s) = length (waiting s)" by (simp_all add: waiting_def)
  then have "int (length (buffered s')) + int (length ms) \<le> maxOrphans s'" using s'(5,7) Cons.prems(4) by simp
  from Cons.IH[OF s'(2,3,4) this] Cons.prems(5,6) show ?case unfolding w by (simp add: s'(1,5,6))
qed simp

lemma NewSequencer_ok: "buffer_ok (NewSequencer n)" "book_ok (NewSequencer n)" "waiting (NewSequencer n) = []"
  "emitted (NewSequencer n) = {}" "nextSeq (NewSequencer n) = 0" "buffered (NewSequencer n) = []" "n > 0 \<Longrightarrow> maxOrphans (NewSequencer n) = n"
  by (simp_all add: buffer_ok_def book_ok_def waiting_def NewSequencer_def)

section \<open>The batch entry point\<close>

lemma drained_buffer:
  assumes "buffer_ok s" "buffer_ok t" "set (waiting s) = set (waiting t)"
  shows "map_of (buffered s) = map_of (buffered t)"
    "length (buffered s) = length (buffered t)" "sort (map fst (buffered s)) = sort (map fst (buffered t))"
proof -
  have pairs: "set (buffered u) = (\<lambda>m. (ID m, m)) ` set (waiting u)" if "buffer_ok u" for u
    using that by (force simp: waiting_def buffer_ok_def)
  have eq: "set (buffered s) = set (buffered t)" using pairs[OF assms(1)] pairs[OF assms(2)] assms(3) by simp
  have d: "distinct (map fst (buffered s))" "distinct (map fst (buffered t))" using assms(1,2) by (simp_all add: buffer_ok_def)
  show "map_of (buffered s) = map_of (buffered t)" by (rule map_of_inject_set[THEN iffD2, OF d eq])
  have keys: "set (map fst (buffered s)) = set (map fst (buffered t))" using eq by simp
  show "length (buffered s) = length (buffered t)" using d keys by (metis distinct_card length_map)
  show "sort (map fst (buffered s)) = sort (map fst (buffered t))"
    using d keys by (metis sorted_list_of_set_sort_remdups distinct_remdups_id)
qed

lemma SequenceForFold_empty:
  assumes "m \<in> set msgs" "ID m = ''''"
  shows "\<exists>e. SequenceForFold msgs n = Inl e"
proof -
  have "\<exists>e. ingestAll msgs s = Inl e" for s
    using assms by (induction msgs arbitrary: s) (auto simp: Ingest_def split: sum.splits)
  then obtain e where "ingestAll msgs (NewSequencer (if int (length msgs) > n then int (length msgs) else n)) = Inl e" by blast
  then show ?thesis by (simp add: SequenceForFold_def Let_def)
qed

text \<open>With IDs that name one event each, the run is: take everything in, release the canonical order, and fail if anything is left.\<close>

lemma SequenceForFold_run:
  assumes "inj_on ID (set msgs)" "\<forall>m \<in> set msgs. ID m \<noteq> ''''"
  shows "\<exists>s t. buffer_ok s \<and> set (waiting s) = set msgs \<and> emitted s = {} \<and> buffer_ok t
    \<and> waiting t = filter (\<lambda>m. m \<notin> set (canon {} msgs)) (waiting s) \<and> emitted t = ID ` set (canon {} msgs)
    \<and> SequenceForFold msgs n = (case Seal t of Some e \<Rightarrow> Inl e | None \<Rightarrow> Inr (canon {} msgs))"
proof (cases "msgs = []")
  case True
  have "SequenceForFold msgs n = (case Seal (NewSequencer n) of Some e \<Rightarrow> Inl e | None \<Rightarrow> Inr (canon {} msgs))"
    using canon_None[of "{}" "[]"] by (simp add: True SequenceForFold_def Let_def Drain_def Seal_def NewSequencer_ok)
  then show ?thesis using NewSequencer_ok canon_None[of "{}" "[]"] True by (intro exI[of _ "NewSequencer n"]) auto
next
  case False
  define c where "c = (if int (length msgs) > n then int (length msgs) else n)"
  have c: "c > 0" "int (length msgs) \<le> c" using False by (cases msgs; auto simp: c_def)+
  have "\<exists>s'. ingestAll msgs (NewSequencer c) = Inr s' \<and> buffer_ok s' \<and> emitted s' = {} \<and> maxOrphans s' = maxOrphans (NewSequencer c)
      \<and> nextSeq s' = nextSeq (NewSequencer c) \<and> set (waiting s') = set (waiting (NewSequencer c)) \<union> set msgs"
    by (rule ingestAll_room) (use assms c in \<open>simp_all add: NewSequencer_ok\<close>)
  then obtain s where s: "ingestAll msgs (NewSequencer c) = Inr s" "buffer_ok s" "emitted s = {}" "maxOrphans s = c" "set (waiting s) = set msgs"
    using c by (auto simp: NewSequencer_ok)
  obtain t out err where d: "Drain s = (t, out, err)" using prod_cases3 by blast
  have cp: "canon {} (waiting s) = canon {} msgs" by (rule canon_perm) (use s assms in auto)
  note dc = Drain_canon[OF s(2) d, unfolded s(3) cp] and df = Drain_frame[OF s(2) d]
  have "length (buffered t) \<le> length (waiting t)" by (simp add: waiting_def)
  also have "\<dots> \<le> length (waiting s)" using dc by (simp add: length_filter_le)
  also have "\<dots> = card (set msgs)" using buffer_inj[OF s(2)] s(5) by (metis distinct_card)
  also have "\<dots> \<le> length msgs" by (rule card_length)
  finally have "err = None" using df s(4) c(2) by auto
  then have "SequenceForFold msgs n = (case Seal t of Some e \<Rightarrow> Inl e | None \<Rightarrow> Inr (canon {} msgs))"
    using d dc by (simp add: SequenceForFold_def c_def[symmetric] s(1) split: option.split)
  then show ?thesis using s dc df by (intro exI[of _ s] exI[of _ t]) simp
qed

text \<open>
  C6: the fold order is a function of the event set. Two batches with the same events, in any order and with
  any duplicates, produce the same sequence or the same error, whatever the capacity asked for.
\<close>

theorem sequence_order_free:
  assumes "set msgs = set msgs'" and "inj_on ID (set msgs)" and "\<forall>m \<in> set msgs. ID m \<noteq> ''''"
  shows "SequenceForFold msgs n = SequenceForFold msgs' n'"
proof -
  obtain s t where 1: "buffer_ok s" "set (waiting s) = set msgs" "buffer_ok t"
    "waiting t = filter (\<lambda>m. m \<notin> set (canon {} msgs)) (waiting s)" "emitted t = ID ` set (canon {} msgs)"
    "SequenceForFold msgs n = (case Seal t of Some e \<Rightarrow> Inl e | None \<Rightarrow> Inr (canon {} msgs))"
    using SequenceForFold_run[OF assms(2,3), of n] by blast
  obtain s' t' where 2: "buffer_ok s'" "set (waiting s') = set msgs'" "buffer_ok t'"
    "waiting t' = filter (\<lambda>m. m \<notin> set (canon {} msgs')) (waiting s')" "emitted t' = ID ` set (canon {} msgs')"
    "SequenceForFold msgs' n' = (case Seal t' of Some e \<Rightarrow> Inl e | None \<Rightarrow> Inr (canon {} msgs'))"
    using SequenceForFold_run[of msgs' n'] assms by auto
  have c: "canon {} msgs = canon {} msgs'" by (rule canon_perm[OF assms(1,2)])
  then have "set (waiting t) = set (waiting t')" using 1(2,4) 2(2,4) assms(1) by simp
  note b = drained_buffer[OF 1(3) 2(3) this]
  have "Seal t = Seal t'" using b 1(5) 2(5) c by (auto simp: Seal_def)
  then show ?thesis unfolding 1(6) 2(6) c by simp
qed

definition seqBatch :: "message list" where
  "seqBatch = [seqMsg ''c'' [''a'', ''b''] 1, seqMsg ''b'' [''a''] 9, seqMsg ''a'' [] 5, seqMsg ''z'' [] 7]"

lemma sequence_order_free_witness:
  "set seqBatch = set (rev seqBatch @ seqBatch) \<and> inj_on ID (set seqBatch) \<and> list_all (\<lambda>m. ID m \<noteq> '''') seqBatch
    \<and> SequenceForFold seqBatch 1 = SequenceForFold (rev seqBatch @ seqBatch) 1000"
proof -
  have "set seqBatch = set (rev seqBatch @ seqBatch)" "inj_on ID (set seqBatch)" "\<forall>m \<in> set seqBatch. ID m \<noteq> ''''"
    by (auto simp: seqBatch_def seqMsg_def)
  then show ?thesis using sequence_order_free[of seqBatch "rev seqBatch @ seqBatch"] by (simp add: list_all_iff)
qed

text \<open>
  C8: batches sequence exactly when they can. The result is a success if and only if every event has an ID and
  its whole causal history is in the batch; otherwise the call fails loudly and returns no order at all.
\<close>

theorem sequence_succeeds_iff:
  assumes "inj_on ID (set msgs)"
  shows "(\<exists>out. SequenceForFold msgs n = Inr out) \<longleftrightarrow> (\<forall>m \<in> set msgs. ID m \<noteq> '''' \<and> recoverable {} (set msgs) m)"
proof (cases "\<forall>m \<in> set msgs. ID m \<noteq> ''''")
  case False
  then show ?thesis using SequenceForFold_empty[of _ msgs n] by fastforce
next
  case True
  obtain s t where 1: "set (waiting s) = set msgs"
    "waiting t = filter (\<lambda>m. m \<notin> set (canon {} msgs)) (waiting s)"
    "SequenceForFold msgs n = (case Seal t of Some e \<Rightarrow> Inl e | None \<Rightarrow> Inr (canon {} msgs))"
    using SequenceForFold_run[OF assms True, of n] by blast
  have "Seal t = None \<longleftrightarrow> waiting t = []" by (simp add: Seal_def waiting_def)
  also have "\<dots> \<longleftrightarrow> set msgs \<subseteq> set (canon {} msgs)" using 1(1,2) by (auto simp: filter_empty_conv)
  also have "\<dots> \<longleftrightarrow> (\<forall>m \<in> set msgs. recoverable {} (set msgs) m)" using canon_recoverable[OF assms, of "{}"] by auto
  finally show ?thesis using 1(3) True by (auto split: option.splits)
qed

lemma sequence_succeeds_iff_witness:
  "inj_on ID (set (tl seqBatch)) \<and> SequenceForFold [seqMsg ''c'' [''a''] 1] 5 = Inl (ErrUnrecoverableAntecedent 1 [(''c'', ''a'')])
    \<and> ((\<exists>out. SequenceForFold seqBatch 0 = Inr out) \<longleftrightarrow> list_all (\<lambda>m. ID m \<noteq> '''' \<and> recoverable {} (set seqBatch) m) seqBatch)"
proof (intro conjI)
  show "inj_on ID (set (tl seqBatch))" by (simp add: seqBatch_def seqMsg_def)
  show "SequenceForFold [seqMsg ''c'' [''a''] 1] 5 = Inl (ErrUnrecoverableAntecedent 1 [(''c'', ''a'')])" by code_simp
  show "(\<exists>out. SequenceForFold seqBatch 0 = Inr out) \<longleftrightarrow> list_all (\<lambda>m. ID m \<noteq> '''' \<and> recoverable {} (set seqBatch) m) seqBatch"
    unfolding list_all_iff by (rule sequence_succeeds_iff) (simp add: seqBatch_def seqMsg_def)
qed

text \<open>
  C7: the fold never sees an effect before its cause. A successful sequence holds every event of the batch
  exactly once, and every antecedent an event names stands before it.
\<close>

theorem sequence_causal:
  assumes "inj_on ID (set msgs)" and "SequenceForFold msgs n = Inr out"
  shows "set out = set msgs \<and> distinct out
    \<and> (\<forall>i < length out. \<forall>a \<in> set (Antecedents (out ! i)). a \<noteq> '''' \<longrightarrow> (\<exists>j < i. ID (out ! j) = a))"
proof -
  have ne: "\<forall>m \<in> set msgs. ID m \<noteq> ''''" using SequenceForFold_empty[of _ msgs n] assms(2) by fastforce
  obtain s t where 1: "set (waiting s) = set msgs"
    "waiting t = filter (\<lambda>m. m \<notin> set (canon {} msgs)) (waiting s)"
    "SequenceForFold msgs n = (case Seal t of Some e \<Rightarrow> Inl e | None \<Rightarrow> Inr (canon {} msgs))"
    using SequenceForFold_run[OF assms(1) ne, of n] by blast
  have out: "out = canon {} msgs" "Seal t = None" using 1(3) assms(2) by (auto split: option.splits)
  then have "waiting t = []" by (simp add: Seal_def waiting_def split: if_splits)
  then have "set msgs \<subseteq> set out" using 1(1,2) out(1) by (auto simp: filter_empty_conv)
  moreover have "set out \<subseteq> set msgs" "distinct out" using canon_sub[of "{}" msgs] out(1) by (auto simp: distinct_map)
  moreover have "\<exists>j < i. ID (out ! j) = a" if "i < length out" "a \<in> set (Antecedents (out ! i))" "a \<noteq> ''''" for i a
    using canon_causal[of i "{}" msgs a] that by (auto simp: out(1) set_ants)
  ultimately show ?thesis by blast
qed

lemma sequence_causal_witness:
  "inj_on ID (set seqBatch) \<and> (\<exists>out. SequenceForFold seqBatch 0 = Inr out \<and> set out = set seqBatch \<and> distinct out)"
proof -
  have i: "inj_on ID (set seqBatch)" by (simp add: seqBatch_def seqMsg_def)
  have "SequenceForFold seqBatch 0 = Inr [seqMsg ''a'' [] 5, seqMsg ''z'' [] 7, seqMsg ''b'' [''a''] 9, seqMsg ''c'' [''a'', ''b''] 1]"
    by code_simp
  then show ?thesis using i sequence_causal[OF i] by blast
qed

section \<open>The live path\<close>

text \<open>The bound on occupancy, and the agreement of the order list with the buffer.\<close>

definition live_ok :: "sequencer \<Rightarrow> bool" where
  "live_ok s \<longleftrightarrow> 0 < maxOrphans s \<and> int (length (buffered s)) \<le> maxOrphans s
     \<and> distinct (map fst (buffered s)) \<and> distinct (order s) \<and> set (order s) = fst ` set (buffered s)
     \<and> '''' \<notin> set (order s)"

lemma length_delete_mem: "distinct (map fst xs) \<Longrightarrow> k \<in> fst ` set xs \<Longrightarrow> length (AList.delete k xs) = length xs - 1"
proof (induction xs)
  case (Cons x xs)
  show ?case
  proof (cases "fst x = k")
    case True
    then have "AList.delete k xs = xs" using Cons.prems by (auto intro!: delete_id)
    then show ?thesis using True by (cases x) simp
  next
    case False
    then show ?thesis using Cons by (cases x; cases xs) auto
  qed
qed simp

lemma evictOldest_frame: "evictOldest s = Some (i, s') \<Longrightarrow> buffered s' = AList.delete i (buffered s) \<and> order s = i # order s'
    \<and> maxOrphans s' = maxOrphans s \<and> emitted s' = emitted s \<and> nextSeq s' = nextSeq s"
  by (auto simp: evictOldest_def Let_def split: list.splits if_splits)

lemma evictLoop_live:
  assumes "live_ok s"
  shows "\<exists>s'. evictLoop s [] = (s', if int (length (buffered s)) = maxOrphans s then [hd (order s)] else [])
    \<and> int (length (buffered s')) + 1 \<le> maxOrphans s' \<and> distinct (map fst (buffered s')) \<and> set (order s') = fst ` set (buffered s')
    \<and> order s' = (if int (length (buffered s)) = maxOrphans s then tl (order s) else order s)
    \<and> maxOrphans s' = maxOrphans s \<and> emitted s' = emitted s \<and> fst ` set (buffered s') \<subseteq> fst ` set (buffered s)"
proof (cases "int (length (buffered s)) = maxOrphans s")
  case False
  then have "int (length (buffered s)) + 1 \<le> maxOrphans s" using assms by (simp add: live_ok_def)
  then show ?thesis using assms False by (subst evictLoop.simps) (auto simp: live_ok_def)
next
  case True
  have ok: "0 < maxOrphans s" "distinct (map fst (buffered s))" "distinct (order s)" "set (order s) = fst ` set (buffered s)" "'''' \<notin> set (order s)"
    using assms unfolding live_ok_def by blast+
  have "buffered s \<noteq> []" using True ok(1) by auto
  then have "order s \<noteq> []" using ok(4) by auto
  then obtain i rest where o': "order s = i # rest" by (cases "order s") auto
  then obtain t where t: "evictOldest s = Some (i, t)" by (auto simp: evictOldest_def Let_def)
  note f = evictOldest_frame[OF t]
  have i: "i \<in> fst ` set (buffered s)" "i \<noteq> ''''" using ok(4,5) o' by auto
  have len: "length (buffered t) = length (buffered s) - 1" using f length_delete_mem[OF ok(2) i(1)] by simp
  then have room: "int (length (buffered t)) + 1 \<le> maxOrphans t" using f True ok(1) by auto
  have "evictLoop s [] = evictLoop t [i]" using True i(2) by (subst evictLoop.simps) (simp add: t)
  also have "\<dots> = (t, [i])" using room by (subst evictLoop.simps) simp
  finally have e: "evictLoop s [] = (t, [i])" .
  have keys: "set (order t) = fst ` set (buffered t)" using f o' ok(3,4) by auto
  have dist: "distinct (map fst (buffered t))" using f ok(2) by (simp add: distinct_delete)
  show ?thesis using True e room keys dist f o' by (intro exI[of _ t]) auto
qed

lemma IngestLive_live:
  assumes "live_ok s" "ID m \<noteq> ''''"
  shows "\<exists>s' evicted. IngestLive m s = Inr (s', evicted) \<and> live_ok s' \<and> isKnown s' (ID m) \<and> maxOrphans s' = maxOrphans s
    \<and> (if isKnown s (ID m) then s' = s \<and> evicted = []
       else evicted = (if int (length (buffered s)) = maxOrphans s then [hd (order s)] else [])
         \<and> order s' = (if int (length (buffered s)) = maxOrphans s then tl (order s) else order s) @ [ID m])"
proof (cases "isKnown s (ID m)")
  case True
  then show ?thesis using assms by (auto simp: IngestLive_def isKnown_def)
next
  case False
  obtain t where t: "evictLoop s [] = (t, if int (length (buffered s)) = maxOrphans s then [hd (order s)] else [])"
    "int (length (buffered t)) + 1 \<le> maxOrphans t" "distinct (map fst (buffered t))" "set (order t) = fst ` set (buffered t)"
    "order t = (if int (length (buffered s)) = maxOrphans s then tl (order s) else order s)"
    "maxOrphans t = maxOrphans s" "fst ` set (buffered t) \<subseteq> fst ` set (buffered s)"
    using evictLoop_live[OF assms(1)] by blast
  let ?u = "insertBuffered m (missingAntecedents s m) t"
  have new: "ID m \<notin> fst ` set (buffered t)" using t(7) False by (auto simp: isKnown_def map_of_eq_None_iff)
  have "distinct (order s)" "'''' \<notin> set (order s)" using assms(1) unfolding live_ok_def by blast+
  then have "distinct (order t)" "'''' \<notin> set (order t)" unfolding t(5) by (cases "order s"; auto)+
  then have "live_ok ?u" using t(2-4,6) new assms
    by (auto simp: live_ok_def buffer_new)
  moreover have "isKnown ?u (ID m)" by (simp add: isKnown_def update_conv')
  ultimately show ?thesis using False assms(2) t(1,5,6)
    by (simp add: IngestLive_def isKnown_def Let_def del: not_None_eq)
qed

lemma MarkEmitted_live: "live_ok s \<Longrightarrow> live_ok (MarkEmitted ids s) \<and> maxOrphans (MarkEmitted ids s) = maxOrphans s"
proof -
  have step: "live_ok t \<Longrightarrow> live_ok (resolveArrival i (t\<lparr>emitted := e\<rparr>)) \<and> maxOrphans (resolveArrival i (t\<lparr>emitted := e\<rparr>)) = maxOrphans t" for i t e
    by (auto simp: live_ok_def)
  show "live_ok s \<Longrightarrow> ?thesis"
    unfolding MarkEmitted_def by (induction ids arbitrary: s) (simp_all add: step)
qed

lemma emitMsg_live:
  assumes "live_ok s"
  shows "live_ok (emitMsg m s)"
proof -
  have "length (AList.delete (ID m) (buffered s)) \<le> length (buffered s)" by (rule length_delete_le)
  then show ?thesis using assms unfolding live_ok_def by (auto simp: distinct_delete distinct_removeAll)
qed

lemma drainLoop_live: "live_ok s \<Longrightarrow> drainLoop deps s p h out = (s', out') \<Longrightarrow> live_ok s' \<and> maxOrphans s' = maxOrphans s"
proof (induction deps s p h out arbitrary: s' out' rule: drainLoop.induct)
  case (1 deps s p h out)
  show ?case
  proof (cases "heapPop h")
    case None
    then show ?thesis using 1(2,3) by (simp add: drainLoop.simps[of deps s p h out])
  next
    case (Some mh)
    obtain m h1 where mh: "mh = (m, h1)" by fastforce
    let ?r = "foldl (releaseDep (buffered (emitMsg m s))) (AList.delete (ID m) p, h1) (deps (ID m))"
    have loop: "drainLoop deps (emitMsg m s) (fst ?r) (snd ?r) (out @ [\<lparr>Seq = nextSeq s, Msg = m\<rparr>]) = (s', out')"
      using 1(3) Some mh by (simp add: drainLoop.simps[of deps s p h out] Let_def)
    show ?thesis using 1(1)[OF Some mh[symmetric] refl refl emitMsg_live[OF 1(2)] loop] by simp
  qed
qed

lemma Drain_live:
  assumes "live_ok s" "Drain s = (s', out, err)"
  shows "live_ok s' \<and> maxOrphans s' = maxOrphans s \<and> err = None"
proof (cases "buffered s = []")
  case True
  then show ?thesis using assms by (simp add: Drain_def)
next
  case False
  obtain t o' where l: "drainLoop (dependentsOf s) s (pendingOf s) (readyHeap s) [] = (t, o')" by fastforce
  with assms(2) False have "s' = t" "err = (if int (length (buffered t)) > maxOrphans t
      then Some (ErrOrphanBufferOverflow (int (length (buffered t))) (maxOrphans t)) else None)" by (auto simp: Drain_def)
  moreover have "live_ok t" "maxOrphans t = maxOrphans s" using drainLoop_live[OF assms(1) l] by auto
  moreover have "int (length (buffered t)) \<le> maxOrphans t" using calculation(3) by (simp add: live_ok_def)
  ultimately show ?thesis by simp
qed

text \<open>What the relay intake does to its sequencer, in any order.\<close>

datatype live_op = LiveIngest message | LiveMark "string list" | LiveDrain

fun liveStep :: "sequencer \<Rightarrow> live_op \<Rightarrow> sequencer" where
  "liveStep s (LiveIngest m) = (case IngestLive m s of Inl e \<Rightarrow> s | Inr (s', evicted) \<Rightarrow> s')"
| "liveStep s (LiveMark ids) = MarkEmitted ids s"
| "liveStep s LiveDrain = fst (Drain s)"

lemma liveStep_live: "live_ok s \<Longrightarrow> live_ok (liveStep s x) \<and> maxOrphans (liveStep s x) = maxOrphans s"
proof (induction s x rule: liveStep.induct)
  case (1 s m)
  show ?case
  proof (cases "ID m = ''''")
    case True
    then show ?thesis using 1 by (simp add: IngestLive_def)
  next
    case False
    then show ?thesis using IngestLive_live[OF 1 False] by (auto simp del: not_None_eq)
  qed
next
  case (2 s ids)
  then show ?case by (simp add: MarkEmitted_live)
next
  case (3 s)
  obtain s' out err where "Drain s = (s', out, err)" using prod_cases3 by blast
  then show ?case using Drain_live[OF 3] by simp
qed

lemma live_run: "live_ok (foldl liveStep (NewSequencer n) ops) \<and> maxOrphans (foldl liveStep (NewSequencer n) ops) = maxOrphans (NewSequencer n)"
proof -
  have "live_ok s \<Longrightarrow> live_ok (foldl liveStep s ops) \<and> maxOrphans (foldl liveStep s ops) = maxOrphans s" for s
    by (induction ops arbitrary: s) (simp_all add: liveStep_live)
  moreover have "live_ok (NewSequencer n)" by (simp add: live_ok_def NewSequencer_def)
  ultimately show ?thesis by blast
qed

text \<open>
  C10: the live path bounds its memory and never blocks. After any run of ingests, drains and seeded IDs, an
  event with an ID is taken in, at most the configured number of events is buffered, the new event is one of
  them, and the one event it may cost is the one that has waited longest, and only when the buffer was full. A
  known event changes nothing, and no drain ever reports an overflow.
\<close>

theorem ingest_live_bounded:
  fixes n ops
  defines "s \<equiv> foldl liveStep (NewSequencer n) ops"
  assumes "ID m \<noteq> ''''"
  shows "\<exists>s' evicted. IngestLive m s = Inr (s', evicted) \<and> PendingCount s' \<le> maxOrphans (NewSequencer n)
    \<and> isKnown s' (ID m) \<and> snd (snd (Drain s')) = None
    \<and> (if isKnown s (ID m) then s' = s \<and> evicted = []
       else evicted @ order s' = order s @ [ID m]
         \<and> evicted = (if PendingCount s = maxOrphans (NewSequencer n) then [hd (order s)] else []))"
proof -
  have ok: "live_ok s" and mx: "maxOrphans s = maxOrphans (NewSequencer n)" using live_run[of n ops] by (simp_all add: s_def)
  have "order s \<noteq> []" if "int (length (buffered s)) = maxOrphans s"
  proof -
    have "buffered s \<noteq> []" "set (order s) = fst ` set (buffered s)" using ok that unfolding live_ok_def by auto
    then show ?thesis by auto
  qed
  then have o': "[hd (order s)] @ tl (order s) = order s" if "int (length (buffered s)) = maxOrphans s" using that by simp
  obtain s' ev where s': "IngestLive m s = Inr (s', ev)" "live_ok s'" "isKnown s' (ID m)" "maxOrphans s' = maxOrphans s"
    "if isKnown s (ID m) then s' = s \<and> ev = []
       else ev = (if int (length (buffered s)) = maxOrphans s then [hd (order s)] else [])
         \<and> order s' = (if int (length (buffered s)) = maxOrphans s then tl (order s) else order s) @ [ID m]"
    using IngestLive_live[OF ok assms(2)] by blast
  have p: "PendingCount s' \<le> maxOrphans s" using s'(2,4) by (simp add: live_ok_def PendingCount_def)
  obtain u out err where "Drain s' = (u, out, err)" using prod_cases3 by blast
  then have d: "snd (snd (Drain s')) = None" using Drain_live[OF s'(2)] by simp
  have "if isKnown s (ID m) then s' = s \<and> ev = []
      else ev @ order s' = order s @ [ID m] \<and> ev = (if PendingCount s = maxOrphans s then [hd (order s)] else [])"
    using s'(5) o' by (cases "isKnown s (ID m)"; cases "int (length (buffered s)) = maxOrphans s") (simp_all add: PendingCount_def)
  then show ?thesis using s'(1,3) p d unfolding mx by blast
qed

lemma ingest_live_bounded_witness:
  "ID (seqMsg ''q'' [] 3) \<noteq> '''' \<and>
   (\<exists>s' evicted. IngestLive (seqMsg ''q'' [] 3) (foldl liveStep (NewSequencer 2) (map LiveIngest (take 2 seqBatch))) = Inr (s', evicted)
     \<and> PendingCount s' \<le> maxOrphans (NewSequencer 2))"
proof -
  have "ID (seqMsg ''q'' [] 3) \<noteq> ''''" by (simp add: seqMsg_def)
  from ingest_live_bounded[OF this, of 2 "map LiveIngest (take 2 seqBatch)"] this show ?thesis by blast
qed

text \<open>
  Seeding an ID whose event already waits in the buffer does not take the event out, so a later drain releases
  it: the seeded set keeps an event from being ingested, not from being released.
\<close>

lemma seeded_while_buffered:
  "map (\<lambda>r. ID (Msg r)) (fst (snd (Drain (foldl liveStep (NewSequencer 9)
     [LiveIngest (seqMsg ''b'' [''a''] 9), LiveMark [''b''], LiveIngest (seqMsg ''a'' [] 5)])))) = [''a'', ''b'']"
  by code_simp

lemma drain_canonical_witness:
  "\<exists>s s' out err. ingestAll seqBatch (NewSequencer 9) = Inr s \<and> buffer_ok s \<and> Drain s = (s', out, err)
    \<and> out = numbered 0 (canon {} (waiting s)) \<and> set (waiting s) = set seqBatch"
proof -
  have "\<exists>s. ingestAll seqBatch (NewSequencer 9) = Inr s \<and> buffer_ok s \<and> emitted s = {} \<and> maxOrphans s = maxOrphans (NewSequencer 9)
      \<and> nextSeq s = nextSeq (NewSequencer 9) \<and> set (waiting s) = set (waiting (NewSequencer 9)) \<union> set seqBatch"
    by (rule ingestAll_room) (simp_all add: NewSequencer_ok, simp_all add: seqBatch_def seqMsg_def)
  then obtain s where s: "ingestAll seqBatch (NewSequencer 9) = Inr s" "buffer_ok s" "emitted s = {}" "nextSeq s = 0" "set (waiting s) = set seqBatch"
    by (auto simp: NewSequencer_ok)
  obtain s' out err where d: "Drain s = (s', out, err)" using prod_cases3 by blast
  show ?thesis using drain_canonical[OF s(2) d] s d by auto
qed

end
