(* ===== verification/Identity_Allowlist.thy ===== *)
theory Identity_Allowlist
  imports Message Go_Text "HOL-Library.AList"
begin

text \<open>
  Who may speak (\<open>pkg/identity/allowlist.go\<close>, \<open>nip19.go\<close>, \<open>event.go\<close>): the allowlist of fleet keys and the one
  rule that decides whether a string can be a nostr public key.
\<close>

section \<open>Public keys\<close>

definition hex_nibble :: "char \<Rightarrow> nat option" where
  "hex_nibble c = (let n = of_char c :: nat in
     if 48 \<le> n \<and> n \<le> 57 then Some (n - 48)
     else if 97 \<le> n \<and> n \<le> 102 then Some (n - 87)
     else if 65 \<le> n \<and> n \<le> 70 then Some (n - 55) else None)"

text \<open>\<open>hex.DecodeString\<close>: pairs of digits of either case, and an error for anything else.\<close>

fun hex_decode :: "string \<Rightarrow> string option" where
  "hex_decode [] = Some []"
| "hex_decode [c] = None"
| "hex_decode (c # d # cs) = (case (hex_nibble c, hex_nibble d, hex_decode cs) of
     (Some h, Some l, Some bs) \<Rightarrow> Some (char_of (16 * h + l) # bs) | _ \<Rightarrow> None)"

text \<open>
  Two third-party packages: \<open>bech32.DecodeToBase256\<close> gives the prefix and the bytes, \<open>schnorr.ParsePubKey\<close>
  accepts 32 bytes that are the x coordinate of a curve point.
\<close>

record key_lib =
  bech32_decode :: "string \<Rightarrow> (string \<times> string) option"
  schnorr_point :: "string \<Rightarrow> bool"

definition npubHRP :: string where "npubHRP = ''npub''"

definition DecodeNpub :: "key_lib \<Rightarrow> string \<Rightarrow> string option" where
  "DecodeNpub L npub = (case bech32_decode L npub of None \<Rightarrow> None
     | Some (hrp, data) \<Rightarrow> if hrp \<noteq> npubHRP then None else if length data \<noteq> 32 then None else Some data)"

definition DecodeNpubToHex :: "key_lib \<Rightarrow> string \<Rightarrow> string option" where
  "DecodeNpubToHex L npub = map_option hex (DecodeNpub L npub)"

definition parsePubKeyHex :: "key_lib \<Rightarrow> string \<Rightarrow> bool" where
  "parsePubKeyHex L s = (case hex_decode s of None \<Rightarrow> False | Some raw \<Rightarrow> schnorr_point L raw)"

section \<open>The allowlist\<close>

definition NormalizeAllowlistEntry :: "key_lib \<Rightarrow> string \<Rightarrow> string option" where
  "NormalizeAllowlistEntry L entry = (let e = trimSpace entry in
     if hasPrefix e (npubHRP @ ''1'') then DecodeNpubToHex L e
     else if parsePubKeyHex L e then Some (toLower e) else None)"

record Allowlist =
  allow_members :: "(string \<times> string) list"
  open_list :: bool

definition OpenAllowlist :: Allowlist where
  "OpenAllowlist = \<lparr>allow_members = [], open_list = True\<rparr>"

definition Allowlist_Add :: "key_lib \<Rightarrow> string \<Rightarrow> Allowlist \<Rightarrow> Allowlist option" where
  "Allowlist_Add L entry a = (case NormalizeAllowlistEntry L entry of None \<Rightarrow> None
     | Some k \<Rightarrow> Some (a\<lparr>allow_members := AList.update k (trimSpace entry) (allow_members a)\<rparr>))"

fun addEntries :: "key_lib \<Rightarrow> string list \<Rightarrow> Allowlist \<Rightarrow> Allowlist option" where
  "addEntries L [] a = Some a"
| "addEntries L (e # es) a = (let e = trimSpace e in if e = '''' then addEntries L es a
     else (case Allowlist_Add L e a of None \<Rightarrow> None | Some a' \<Rightarrow> addEntries L es a'))"

definition NewAllowlist :: "key_lib \<Rightarrow> string list \<Rightarrow> Allowlist option" where
  "NewAllowlist L es = addEntries L es \<lparr>allow_members = [], open_list = False\<rparr>"

fun partitionEntries :: "key_lib \<Rightarrow> string list \<Rightarrow> Allowlist \<times> string list \<Rightarrow> Allowlist \<times> string list" where
  "partitionEntries L [] r = r"
| "partitionEntries L (e # es) (a, bad) = (if trimSpace e = '''' then partitionEntries L es (a, bad)
     else (case NormalizeAllowlistEntry L e of None \<Rightarrow> partitionEntries L es (a, bad @ [trimSpace e])
       | Some k \<Rightarrow> partitionEntries L es (a\<lparr>allow_members := AList.update k (trimSpace e) (allow_members a)\<rparr>, bad)))"

definition NewAllowlistPartition :: "key_lib \<Rightarrow> string list \<Rightarrow> Allowlist \<times> string list" where
  "NewAllowlistPartition L es = partitionEntries L es (\<lparr>allow_members = [], open_list = False\<rparr>, [])"

definition Allowed_list :: "Allowlist \<Rightarrow> string \<Rightarrow> bool" where
  "Allowed_list a k \<longleftrightarrow> open_list a \<or> map_of (allow_members a) (toLower (trimSpace k)) \<noteq> None"

definition HexKeys :: "Allowlist \<Rightarrow> string list" where
  "HexKeys a = map fst (allow_members a)"

section \<open>Trimming\<close>

lemma spaces_nonempty: "p \<in> set spaces \<Longrightarrow> p \<noteq> []"
  by (auto simp: spaces_def)

lemma leading_zero:
  assumes "\<forall>p \<in> set ps. p \<noteq> []"
  shows "leading ps s = 0 \<longleftrightarrow> (\<forall>p \<in> set ps. take (length p) s \<noteq> p)"
proof (cases "find (\<lambda>p. take (length p) s = p) ps")
  case None
  then have "\<forall>p \<in> set ps. take (length p) s \<noteq> p" by (auto simp: find_None_iff)
  then show ?thesis using None by (simp add: leading_def)
next
  case (Some p)
  then have "p \<in> set ps" "take (length p) s = p" by (auto simp: find_Some_iff)
  then show ?thesis using Some assms by (auto simp: leading_def)
qed

lemma trim_left_done:
  assumes "\<forall>p \<in> set ps. p \<noteq> []"
  shows "leading ps (trim_left ps s) = 0"
proof (induction ps s rule: trim_left.induct)
  case (1 ps s)
  show ?case
  proof (cases "leading ps s = 0 \<or> s = []")
    case True
    moreover have "leading ps [] = 0" using 1 assms by (auto simp: leading_def find_Some_iff split: option.split)
    ultimately show ?thesis by (auto simp: trim_left.simps[of ps s])
  qed (use 1 in \<open>simp add: trim_left.simps[of ps s]\<close>)
qed

lemma trim_left_suffix: "\<exists>n. trim_left ps s = drop n s"
proof (induction ps s rule: trim_left.induct)
  case (1 ps s)
  show ?case
  proof (cases "leading ps s = 0 \<or> s = []")
    case True
    then show ?thesis by (auto simp: trim_left.simps[of ps s] intro: exI[of _ 0])
  next
    case False
    then obtain n where "trim_left ps (drop (leading ps s) s) = drop n (drop (leading ps s) s)" using 1 by blast
    then show ?thesis using False by (auto simp: trim_left.simps[of ps s])
  qed
qed

lemma trim_left_same: "leading ps s = 0 \<Longrightarrow> trim_left ps s = s"
  by (simp add: trim_left.simps[of ps s])

lemma trimSpace_idem [simp]: "trimSpace (trimSpace s) = trimSpace s"
proof -
  have ne: "\<forall>p \<in> set spaces. p \<noteq> []" "\<forall>p \<in> set (map rev spaces). p \<noteq> []" using spaces_nonempty by auto
  define u where "u = trim_left spaces s"
  define v where "v = trim_left (map rev spaces) (rev u)"
  obtain n where "v = drop n (rev u)" using trim_left_suffix v_def by blast
  then have pre: "rev v = take (length u - n) u" by (simp add: rev_drop)
  have "leading spaces u = 0" unfolding u_def by (rule trim_left_done[OF ne(1)])
  then have "leading spaces (rev v) = 0" unfolding leading_zero[OF ne(1)] pre by (metis min_def take_all_iff take_take nat_le_linear)
  moreover have "leading (map rev spaces) v = 0" unfolding v_def by (rule trim_left_done[OF ne(2)])
  ultimately have "trimSpace (rev v) = rev v" by (simp add: trimSpace_def trim_left_same)
  then show ?thesis by (simp add: trimSpace_def u_def v_def)
qed

section \<open>Building an allowlist\<close>

lemma Normalize_trim [simp]: "NormalizeAllowlistEntry L (trimSpace e) = NormalizeAllowlistEntry L e"
  by (simp add: NormalizeAllowlistEntry_def)

definition usable :: "key_lib \<Rightarrow> string list \<Rightarrow> string set" where
  "usable L es = {k. \<exists>e \<in> set es. trimSpace e \<noteq> '''' \<and> NormalizeAllowlistEntry L e = Some k}"

lemma usable_Cons: "usable L (e # es) = (if trimSpace e = '''' then {} else set_option (NormalizeAllowlistEntry L e)) \<union> usable L es"
  by (auto simp: usable_def)

lemma partition_result:
  "fst ` set (allow_members (fst (partitionEntries L es (a, bad)))) = fst ` set (allow_members a) \<union> usable L es
   \<and> open_list (fst (partitionEntries L es (a, bad))) = open_list a
   \<and> snd (partitionEntries L es (a, bad)) = bad @ map trimSpace (filter (\<lambda>e. trimSpace e \<noteq> '''' \<and> NormalizeAllowlistEntry L e = None) es)"
proof (induction es arbitrary: a bad)
  case (Cons e es)
  then show ?case
    by (cases "NormalizeAllowlistEntry L e") (auto simp: usable_Cons keys_update simp del: not_None_eq)
qed (simp add: usable_def)

lemma addEntries_partition:
  "addEntries L es a = (if snd (partitionEntries L es (a, bad)) = bad then Some (fst (partitionEntries L es (a, bad))) else None)"
proof (induction es arbitrary: a)
  case (Cons e es)
  show ?case
  proof (cases "trimSpace e = '''' \<or> NormalizeAllowlistEntry L e \<noteq> None")
    case True
    then show ?thesis by (auto simp: Cons.IH Allowlist_Add_def Let_def)
  next
    case False
    then have "snd (partitionEntries L (e # es) (a, bad)) \<noteq> bad"
      using partition_result[of L es a "bad @ [trimSpace e]"] by (auto simp del: not_None_eq)
    then show ?thesis using False by (auto simp: Allowlist_Add_def Let_def simp del: not_None_eq)
  qed
qed simp

text \<open>
  C33: a malformed entry costs the entry, never the service, and never admits anyone. The partitioning
  constructor keeps exactly the entries that are public keys, reports exactly the others, and agrees with the
  strict constructor, which succeeds precisely when there is nothing to report.
\<close>

theorem allowlist_partition_exact:
  "set (HexKeys (fst (NewAllowlistPartition L es))) = usable L es
   \<and> (Allowed_list (fst (NewAllowlistPartition L es)) k \<longleftrightarrow> toLower (trimSpace k) \<in> usable L es)
   \<and> snd (NewAllowlistPartition L es) = map trimSpace (filter (\<lambda>e. trimSpace e \<noteq> '''' \<and> NormalizeAllowlistEntry L e = None) es)
   \<and> NewAllowlist L es = (if snd (NewAllowlistPartition L es) = [] then Some (fst (NewAllowlistPartition L es)) else None)"
proof -
  define a where "a = \<lparr>allow_members = [], open_list = False\<rparr>"
  have "NewAllowlist L es = (if snd (NewAllowlistPartition L es) = [] then Some (fst (NewAllowlistPartition L es)) else None)"
    using addEntries_partition[of L es a "[]"] by (simp add: NewAllowlist_def NewAllowlistPartition_def a_def)
  then show ?thesis using partition_result[of L es a "[]"]
    by (auto simp: NewAllowlistPartition_def HexKeys_def Allowed_list_def a_def map_of_eq_None_iff simp del: not_None_eq)
qed

end
