(* ===== verification/Trust.thy ===== *)
theory Trust
  imports Identity_Allowlist
begin

text \<open>
  The trust gate (\<open>pkg/exchange/trust.go\<close>, \<open>engine_admission.go\<close> and the head of \<open>Engine.dispatch\<close>): which sender
  may run which operation, admission on demand, revocation for cause, and the counters of refusals.
\<close>

section \<open>Levels, operations, phases\<close>

datatype TrustLevel = TrustAnonymous | TrustAllowlisted | TrustOperator

fun rank :: "TrustLevel \<Rightarrow> nat" where
  "rank TrustAnonymous = 0" | "rank TrustAllowlisted = 1" | "rank TrustOperator = 2"

lemma rank_inject: "rank x = rank y \<longleftrightarrow> x = y"
  by (cases x; cases y) auto

instantiation TrustLevel :: linorder
begin

definition less_eq_TrustLevel :: "TrustLevel \<Rightarrow> TrustLevel \<Rightarrow> bool" where
  "less_eq_TrustLevel x y \<longleftrightarrow> rank x \<le> rank y"

definition less_TrustLevel :: "TrustLevel \<Rightarrow> TrustLevel \<Rightarrow> bool" where
  "less_TrustLevel x y \<longleftrightarrow> rank x < rank y"

instance
  by standard (auto simp: less_eq_TrustLevel_def less_TrustLevel_def rank_inject)

end

lemma TrustLevel_less [simp]: "TrustAnonymous < TrustAllowlisted" "TrustAllowlisted < TrustOperator" "TrustAnonymous < TrustOperator"
  "\<not> x < TrustAnonymous" "\<not> TrustOperator < x"
  by (cases x; simp add: less_TrustLevel_def)+

text \<open>The two tables of default levels.\<close>

definition defaultOperationLevels :: "(string \<times> TrustLevel) list" where
  "defaultOperationLevels = [(''buy'', TrustAnonymous), (''inventory-read'', TrustAnonymous), (''price-history-read'', TrustAnonymous),
     (''put'', TrustAllowlisted), (''assign'', TrustAllowlisted), (''mint'', TrustOperator), (''burn'', TrustOperator),
     (''rate-publish'', TrustOperator), (''convention-promote'', TrustOperator), (''convention-supersede'', TrustOperator),
     (''match'', TrustOperator), (''consume'', TrustOperator),
     (''assign-post'', TrustOperator), (''assign-accept'', TrustOperator), (''assign-reject'', TrustOperator),
     (''assign-expire'', TrustOperator), (''assign-auction-close'', TrustOperator),
     (''assign-claim'', TrustAllowlisted), (''assign-complete'', TrustAllowlisted)]"

definition defaultSettlePhaseLevels :: "(string \<times> TrustLevel) list" where
  "defaultSettlePhaseLevels = [(''buyer-accept'', TrustAllowlisted), (''buyer-reject'', TrustAllowlisted),
     (''complete'', TrustAllowlisted), (''dispute'', TrustAllowlisted), (''put-accept'', TrustOperator),
     (''put-reject'', TrustOperator), (''deliver'', TrustOperator), (''preview'', TrustOperator),
     (''preview-request'', TrustAllowlisted), (''small-content-dispute'', TrustAllowlisted)]"

definition levelNames :: "(string \<times> TrustLevel) list" where
  "levelNames = [(''anonymous'', TrustAnonymous), (''allowlisted'', TrustAllowlisted), (''operator'', TrustOperator)]"

section \<open>Key sets\<close>

type_synonym KeySet = "string set"

definition key_of :: "string \<Rightarrow> string" where
  "key_of k = toLower (trimSpace k)"

definition KeySet_Add :: "string \<Rightarrow> KeySet \<Rightarrow> KeySet" where
  "KeySet_Add k ks = (let k = key_of k in if k = '''' then ks else insert k ks)"

definition KeySet_Remove :: "string \<Rightarrow> KeySet \<Rightarrow> KeySet" where
  "KeySet_Remove k ks = (let k = key_of k in if k = '''' then ks else ks - {k})"

definition KeySet_ReplaceAll :: "string list \<Rightarrow> KeySet \<Rightarrow> KeySet" where
  "KeySet_ReplaceAll keys ks = set (filter (\<lambda>k. k \<noteq> '''') (map key_of keys))"

definition NewKeySet :: "string list \<Rightarrow> KeySet" where
  "NewKeySet keys = foldl (\<lambda>ks k. KeySet_Add k ks) {} keys"

definition KeySet_Allowed :: "KeySet \<Rightarrow> string \<Rightarrow> bool" where
  "KeySet_Allowed ks k \<longleftrightarrow> key_of k \<in> ks"

text \<open>The \<open>Membership\<close> interface: none configured, the mutable set, or another implementation.\<close>

datatype Membership = NoMembers | Members KeySet | OtherMembers "string \<Rightarrow> bool"

fun memberAllowed :: "Membership \<Rightarrow> string \<Rightarrow> bool" where
  "memberAllowed NoMembers k = False"
| "memberAllowed (Members ks) k = KeySet_Allowed ks k"
| "memberAllowed (OtherMembers f) k = f k"

section \<open>The checker\<close>

record TrustChecker =
  operator_key :: string
  members :: Membership
  opLevels :: "string \<rightharpoonup> TrustLevel"
  settleLevels :: "string \<rightharpoonup> TrustLevel"
  revoked :: KeySet
  reputation :: "(string \<Rightarrow> int) option"
  minReputation :: int

datatype trust_err = ErrInsufficientTrust | ErrLowReputation | ErrNoPhase | ErrUnknownPhase | ErrUnknownOperation

text \<open>Options run in order; overrides are a Go map, so their keys are distinct and their order is open.\<close>

definition WithReputationFloor :: "(string \<Rightarrow> int) \<Rightarrow> int \<Rightarrow> TrustChecker \<Rightarrow> TrustChecker" where
  "WithReputationFloor source m c = c\<lparr>reputation := Some source, minReputation := m\<rparr>"

fun applyPending :: "(string \<times> string) list \<Rightarrow> TrustChecker \<Rightarrow> TrustChecker option" where
  "applyPending [] c = Some c"
| "applyPending ((key, name) # os) c = (case map_of levelNames name of None \<Rightarrow> None
     | Some level \<Rightarrow>
       if hasPrefix key ''settle:''
       then applyPending os (c\<lparr>settleLevels := (settleLevels c)(drop 7 key \<mapsto> level)\<rparr>)
       else applyPending os (c\<lparr>opLevels := (opLevels c)(key \<mapsto> level)\<rparr>))"

definition NewTrustChecker :: "string \<Rightarrow> Membership \<Rightarrow> (string \<times> string) list \<Rightarrow> TrustChecker option" where
  "NewTrustChecker opk ms overrides = applyPending overrides
     \<lparr>operator_key = opk, members = ms, opLevels = map_of defaultOperationLevels, settleLevels = map_of defaultSettlePhaseLevels,
      revoked = NewKeySet [], reputation = None, minReputation = 0\<rparr>"

definition isOperatorKey :: "TrustChecker \<Rightarrow> string \<Rightarrow> bool" where
  "isOperatorKey c k \<longleftrightarrow> operator_key c \<noteq> '''' \<and> k = operator_key c"

definition AdmitMember :: "string \<Rightarrow> TrustChecker \<Rightarrow> TrustChecker" where
  "AdmitMember k c = (if k = '''' \<or> isOperatorKey c k then c
     else case members c of Members ks \<Rightarrow> c\<lparr>members := Members (KeySet_Add k ks)\<rparr> | _ \<Rightarrow> c)"

definition RemoveMember :: "string \<Rightarrow> TrustChecker \<Rightarrow> TrustChecker" where
  "RemoveMember k c = (case members c of Members ks \<Rightarrow> c\<lparr>members := Members (KeySet_Remove k ks)\<rparr> | _ \<Rightarrow> c)"

definition RevokeMember :: "string \<Rightarrow> TrustChecker \<Rightarrow> TrustChecker" where
  "RevokeMember k c = (if k = '''' \<or> isOperatorKey c k then c else c\<lparr>revoked := KeySet_Add k (revoked c)\<rparr>)"

definition UnrevokeMember :: "string \<Rightarrow> TrustChecker \<Rightarrow> TrustChecker" where
  "UnrevokeMember k c = c\<lparr>revoked := KeySet_Remove k (revoked c)\<rparr>"

definition IsRevoked :: "TrustChecker \<Rightarrow> string \<Rightarrow> bool" where
  "IsRevoked c k \<longleftrightarrow> KeySet_Allowed (revoked c) k"

definition SetRevoked :: "string list \<Rightarrow> TrustChecker \<Rightarrow> TrustChecker" where
  "SetRevoked keys c = c\<lparr>revoked := KeySet_ReplaceAll keys (revoked c)\<rparr>"

definition trust_Level :: "TrustChecker \<Rightarrow> string \<Rightarrow> TrustLevel" where
  "trust_Level c k = (if isOperatorKey c k then TrustOperator
     else if memberAllowed (members c) k then TrustAllowlisted else TrustAnonymous)"

definition RequiredLevel :: "TrustChecker \<Rightarrow> string \<Rightarrow> string \<Rightarrow> trust_err + TrustLevel" where
  "RequiredLevel c op phase =
     (if op = ''settle''
      then if phase = '''' then Inl ErrNoPhase
        else (case settleLevels c phase of None \<Rightarrow> Inl ErrUnknownPhase | Some l \<Rightarrow> Inr l)
      else (case opLevels c op of None \<Rightarrow> Inl ErrUnknownOperation | Some l \<Rightarrow> Inr l))"

definition trust_Check :: "TrustChecker \<Rightarrow> string \<Rightarrow> string \<Rightarrow> string \<Rightarrow> trust_err option" where
  "trust_Check c sender op phase = (case RequiredLevel c op phase of Inl e \<Rightarrow> Some e
     | Inr required \<Rightarrow>
       let actual = trust_Level c sender in
       if actual < required then Some ErrInsufficientTrust
       else if actual \<noteq> TrustOperator then
         (case reputation c of None \<Rightarrow> None
          | Some score \<Rightarrow> if op = ''put'' \<and> score sender < minReputation c then Some ErrLowReputation else None)
       else None)"

section \<open>Admission on demand\<close>

record gate_counts =
  NotAllowlisted :: nat
  NotOperator :: nat
  LowReputation :: nat
  Other :: nat
  OpenAdmissionGranted :: nat
  OpenAdmissionMalformedKey :: nat

text \<open>
  The engine as the gate sees it: the options, the checker and the counters. \<open>persisted\<close> is what the durable
  admission hook has recorded; the hook is optional and may fail, which the code only logs.
\<close>

record gate =
  OpenAdmission :: bool
  FederationGuardEnabled :: bool
  checker :: "TrustChecker option"
  admitHook :: "(string \<Rightarrow> bool) option"
  persisted :: "string list"
  degradation :: gate_counts

datatype admissionOutcome = admissionNotAttempted | admissionRefusedFederation | admissionRefusedOperatorLevel
  | admissionRefusedReputation | admissionRefusedRevoked | admissionRefusedMalformedKey | admissionGranted

definition admit :: "string \<Rightarrow> TrustChecker \<Rightarrow> gate \<Rightarrow> gate" where
  "admit k c g = g\<lparr>checker := Some (AdmitMember k c),
     persisted := (case admitHook g of None \<Rightarrow> persisted g | Some ok \<Rightarrow> if ok k then persisted g @ [k] else persisted g),
     degradation := (degradation g)\<lparr>OpenAdmissionGranted := OpenAdmissionGranted (degradation g) + 1\<rparr>\<rparr>"

definition tryOpenAdmit :: "key_lib \<Rightarrow> string \<Rightarrow> string \<Rightarrow> string \<Rightarrow> trust_err \<Rightarrow> gate \<Rightarrow> gate \<times> admissionOutcome" where
  "tryOpenAdmit L k op phase denial g = (case checker g of None \<Rightarrow> (g, admissionNotAttempted)
     | Some c \<Rightarrow>
       if \<not> OpenAdmission g \<or> k = '''' then (g, admissionNotAttempted)
       else if FederationGuardEnabled g then (g, admissionRefusedFederation)
       else if denial = ErrLowReputation then (g, admissionRefusedReputation)
       else if denial \<noteq> ErrInsufficientTrust then (g, admissionNotAttempted)
       else if RequiredLevel c op phase \<noteq> Inr TrustAllowlisted then (g, admissionRefusedOperatorLevel)
       else if IsRevoked c k then (g, admissionRefusedRevoked)
       else if NormalizeAllowlistEntry L k = None
       then (g\<lparr>degradation := (degradation g)\<lparr>OpenAdmissionMalformedKey := OpenAdmissionMalformedKey (degradation g) + 1\<rparr>\<rparr>,
         admissionRefusedMalformedKey)
       else (admit k c g, admissionGranted))"

section \<open>The gate at the head of dispatch\<close>

definition tagToTrustOp :: "string \<Rightarrow> string" where
  "tagToTrustOp op =
     (if op = TagPut then ''put'' else if op = TagBuy then ''buy'' else if op = TagMatch then ''match''
      else if op = TagConsume then ''consume'' else if op = TagSettle then ''settle''
      else if op = TagAssign then ''assign-post'' else if op = TagAssignClaim then ''assign-claim''
      else if op = TagAssignComplete then ''assign-complete'' else if op = TagAssignAccept then ''assign-accept''
      else if op = TagAssignReject then ''assign-reject'' else if op = TagAssignExpire then ''assign-expire''
      else if op = TagAssignAuctionClose then ''assign-auction-close'' else '''')"

definition recordTrustDenial :: "TrustChecker \<Rightarrow> string \<Rightarrow> string \<Rightarrow> trust_err \<Rightarrow> gate_counts \<Rightarrow> gate_counts \<times> string" where
  "recordTrustDenial c op phase err d =
     (if err = ErrLowReputation then (d\<lparr>LowReputation := LowReputation d + 1\<rparr>, ''low-reputation'')
      else if err = ErrInsufficientTrust then
        (if RequiredLevel c op phase = Inr TrustOperator then (d\<lparr>NotOperator := NotOperator d + 1\<rparr>, ''not-operator'')
         else (d\<lparr>NotAllowlisted := NotAllowlisted d + 1\<rparr>, ''not-allowlisted''))
      else (d\<lparr>Other := Other d + 1\<rparr>, ''other''))"

text \<open>
  What the gate decides: the message goes to its handler, or it is refused for a reason. A refused put that
  never became pending and a refused buyer-accept are answered with a rejection.
\<close>

datatype gate_reply = NoReply | EmitPutReject string string | EmitBuyerAcceptReject string string

datatype gate_verdict = Handled | Refused string gate_reply

definition phaseOf :: "message \<Rightarrow> string" where
  "phaseOf m = (if exchangeOp (Tags m) = TagSettle then settlePhaseFromTags (Tags m) else '''')"

definition refusalReply :: "(string \<Rightarrow> bool) \<Rightarrow> message \<Rightarrow> string \<Rightarrow> gate_reply" where
  "refusalReply pending m reason =
     (if exchangeOp (Tags m) = TagPut \<and> \<not> pending (ID m) then EmitPutReject (ID m) (''trust-gate: '' @ reason)
      else if exchangeOp (Tags m) = TagSettle \<and> phaseOf m = ''buyer-accept''
      then EmitBuyerAcceptReject (ID m) ''not-allowlisted''
      else NoReply)"

definition trustGate :: "key_lib \<Rightarrow> (string \<Rightarrow> bool) \<Rightarrow> message \<Rightarrow> gate \<Rightarrow> gate \<times> gate_verdict" where
  "trustGate L pending m g = (case checker g of None \<Rightarrow> (g, Handled)
     | Some c \<Rightarrow>
       let op = tagToTrustOp (exchangeOp (Tags m)); phase = phaseOf m in
       if op = '''' then (g, Handled)
       else (case trust_Check c (Sender m) op phase of None \<Rightarrow> (g, Handled)
         | Some err \<Rightarrow>
           let (g1, outcome) = tryOpenAdmit L (Sender m) op phase err g; c1 = the (checker g1);
               err1 = (if outcome = admissionGranted then trust_Check c1 (Sender m) op phase else Some err)
           in (case err1 of None \<Rightarrow> (g1, Handled)
             | Some e \<Rightarrow> let (d, reason) = recordTrustDenial c1 op phase e (degradation g1)
                 in (g1\<lparr>degradation := d\<rparr>, Refused reason (refusalReply pending m reason)))))"

text \<open>The trust half of the operator's de-allowlisting and re-allowlisting.\<close>

definition DeAllowlistSeller :: "string \<Rightarrow> gate \<Rightarrow> gate" where
  "DeAllowlistSeller k g = g\<lparr>checker := map_option (\<lambda>c. RevokeMember k (RemoveMember k c)) (checker g)\<rparr>"

definition ReAllowlistSeller :: "string \<Rightarrow> gate \<Rightarrow> gate" where
  "ReAllowlistSeller k g = g\<lparr>checker := map_option (UnrevokeMember k) (checker g)\<rparr>"

section \<open>Runs of the gate\<close>

datatype gate_event = GateMessage message | DeAllow string | ReAllow string

fun gateStep :: "key_lib \<Rightarrow> (string \<Rightarrow> bool) \<Rightarrow> gate \<times> gate_verdict list \<Rightarrow> gate_event \<Rightarrow> gate \<times> gate_verdict list" where
  "gateStep L pending (g, vs) (GateMessage m) = (case trustGate L pending m g of (g', v) \<Rightarrow> (g', vs @ [v]))"
| "gateStep L pending (g, vs) (DeAllow k) = (DeAllowlistSeller k g, vs)"
| "gateStep L pending (g, vs) (ReAllow k) = (ReAllowlistSeller k g, vs)"

definition gateRun :: "key_lib \<Rightarrow> (string \<Rightarrow> bool) \<Rightarrow> gate \<Rightarrow> gate_event list \<Rightarrow> gate \<times> gate_verdict list" where
  "gateRun L pending g evs = foldl (gateStep L pending) (g, []) evs"

lemma AdmitMember_frame [simp]: "operator_key (AdmitMember k c) = operator_key c" "opLevels (AdmitMember k c) = opLevels c"
  "settleLevels (AdmitMember k c) = settleLevels c" "revoked (AdmitMember k c) = revoked c"
  by (simp_all add: AdmitMember_def split: Membership.split)

lemma RemoveMember_frame [simp]: "operator_key (RemoveMember k c) = operator_key c" "opLevels (RemoveMember k c) = opLevels c"
  "settleLevels (RemoveMember k c) = settleLevels c" "revoked (RemoveMember k c) = revoked c"
  by (simp_all add: RemoveMember_def split: Membership.split)

lemma RevokeMember_frame [simp]: "operator_key (RevokeMember k c) = operator_key c" "opLevels (RevokeMember k c) = opLevels c"
  "settleLevels (RevokeMember k c) = settleLevels c" "members (RevokeMember k c) = members c"
  by (simp_all add: RevokeMember_def)

lemma RequiredLevel_cong: "opLevels c = opLevels d \<Longrightarrow> settleLevels c = settleLevels d \<Longrightarrow> RequiredLevel c = RequiredLevel d"
  by (simp add: fun_eq_iff RequiredLevel_def)

text \<open>The three things an attempt at admission can do.\<close>

lemma tryOpenAdmit_cases:
  assumes "tryOpenAdmit L k op phase err g = (g', out)" "checker g = Some c"
  obtains (none) "g' = g" "out \<noteq> admissionGranted"
  | (malformed) "g' = g\<lparr>degradation := (degradation g)\<lparr>OpenAdmissionMalformedKey := OpenAdmissionMalformedKey (degradation g) + 1\<rparr>\<rparr>"
      "out = admissionRefusedMalformedKey"
  | (granted) "g' = admit k c g" "out = admissionGranted" "\<not> IsRevoked c k" "NormalizeAllowlistEntry L k \<noteq> None"
      "RequiredLevel c op phase = Inr TrustAllowlisted"
proof (cases "OpenAdmission g \<and> k \<noteq> '''' \<and> \<not> FederationGuardEnabled g \<and> err = ErrInsufficientTrust
    \<and> RequiredLevel c op phase = Inr TrustAllowlisted \<and> \<not> IsRevoked c k")
  case True
  then show ?thesis using assms malformed granted
    by (cases "NormalizeAllowlistEntry L k") (simp_all add: tryOpenAdmit_def)
next
  case False
  have "fst (tryOpenAdmit L k op phase err g) = g \<and> snd (tryOpenAdmit L k op phase err g) \<noteq> admissionGranted"
    using False assms(2) unfolding tryOpenAdmit_def by (simp only: option.case) (simp split: if_split, blast)
  then show ?thesis using none assms(1) by simp
qed

text \<open>What a message does to the gate: nothing, or it admits its sender; and one count when it is refused.\<close>

lemma trustGate_effect:
  assumes "trustGate L pending m g = (g', v)" "checker g = Some c"
  obtains (same) "checker g' = Some c" "persisted g' = persisted g"
  | (admitted) "checker g' = Some (AdmitMember (Sender m) c)" "\<not> IsRevoked c (Sender m)"
      "NormalizeAllowlistEntry L (Sender m) \<noteq> None" "persisted g' = persisted g \<or> persisted g' = persisted g @ [Sender m]"
proof -
  let ?op = "tagToTrustOp (exchangeOp (Tags m))"
  show ?thesis
  proof (cases "?op = '''' \<or> trust_Check c (Sender m) ?op (phaseOf m) = None")
    case True
    then have "g' = g" using assms by (auto simp: trustGate_def Let_def split: if_splits)
    then show ?thesis using same assms(2) by simp
  next
    case False
    then obtain err where err: "trust_Check c (Sender m) ?op (phaseOf m) = Some err" by auto
    obtain g1 out where t: "tryOpenAdmit L (Sender m) ?op (phaseOf m) err g = (g1, out)" by fastforce
    have g': "checker g' = checker g1" "persisted g' = persisted g1"
      using assms False err t by (auto simp: trustGate_def Let_def split: option.splits prod.splits)
    from t assms(2) show ?thesis
    proof (cases rule: tryOpenAdmit_cases)
      case granted
      then show ?thesis using admitted g' by (auto simp: admit_def split: option.splits if_splits)
    qed (use same assms(2) g' in auto)
  qed
qed

definition denials :: "gate_counts \<Rightarrow> nat" where
  "denials d = NotAllowlisted d + NotOperator d + LowReputation d + Other d"

definition refusals :: "gate_verdict list \<Rightarrow> nat" where
  "refusals vs = length (filter (\<lambda>v. v \<noteq> Handled) vs)"

lemma trustGate_counts:
  assumes "trustGate L pending m g = (g', v)"
  shows "denials (degradation g') = denials (degradation g) + refusals [v]"
proof (cases "checker g")
  case None
  then show ?thesis using assms by (simp add: trustGate_def refusals_def)
next
  case (Some c)
  let ?op = "tagToTrustOp (exchangeOp (Tags m))"
  show ?thesis
  proof (cases "?op = '''' \<or> trust_Check c (Sender m) ?op (phaseOf m) = None")
    case True
    then show ?thesis using assms Some by (auto simp: trustGate_def Let_def refusals_def split: if_splits)
  next
    case False
    then obtain err where err: "trust_Check c (Sender m) ?op (phaseOf m) = Some err" by auto
    obtain g1 out where t: "tryOpenAdmit L (Sender m) ?op (phaseOf m) err g = (g1, out)" by fastforce
    have d: "denials (degradation g1) = denials (degradation g)"
      using t Some by (cases rule: tryOpenAdmit_cases) (auto simp: denials_def admit_def)
    then show ?thesis using assms Some False err t
      by (auto simp: trustGate_def Let_def refusals_def recordTrustDenial_def denials_def split: option.splits if_splits)
  qed
qed

lemma gateRun_snoc: "gateRun L pending g (evs @ [e]) = gateStep L pending (gateRun L pending g evs) e"
  by (simp add: gateRun_def)

text \<open>
  C32: no refusal is silent. However messages, de-allowlistings and re-allowlistings follow each other, the four
  refusal counters together grow by exactly the number of messages the gate has refused.
\<close>

theorem refusals_counted:
  "denials (degradation (fst (gateRun L pending g evs))) = denials (degradation g) + refusals (snd (gateRun L pending g evs))"
proof (induction evs rule: rev_induct)
  case Nil
  then show ?case by (simp add: gateRun_def refusals_def)
next
  case (snoc e evs)
  obtain g1 vs where r: "gateRun L pending g evs = (g1, vs)" by fastforce
  show ?case
  proof (cases e)
    case (GateMessage m)
    obtain g2 v where t: "trustGate L pending m g1 = (g2, v)" by fastforce
    then show ?thesis using snoc trustGate_counts[OF t] by (simp add: gateRun_snoc r GateMessage refusals_def)
  qed (use snoc in \<open>simp_all add: gateRun_snoc r DeAllowlistSeller_def ReAllowlistSeller_def\<close>)
qed

text \<open>What an immutable membership lists, and what a run leaves of a checker.\<close>

fun fixedMember :: "Membership \<Rightarrow> string \<Rightarrow> bool" where
  "fixedMember (OtherMembers f) k = f k"
| "fixedMember _ k = False"

lemma fixed_frame [simp]: "fixedMember (members (AdmitMember k c)) = fixedMember (members c)"
  "fixedMember (members (RemoveMember k c)) = fixedMember (members c)" "members (RevokeMember k c) = members c"
  "members (UnrevokeMember k c) = members c"
  by (auto simp: fun_eq_iff AdmitMember_def RemoveMember_def RevokeMember_def UnrevokeMember_def split: Membership.split)

lemma reputation_frame [simp]: "reputation (AdmitMember k c) = reputation c" "minReputation (AdmitMember k c) = minReputation c"
  "reputation (RemoveMember k c) = reputation c" "minReputation (RemoveMember k c) = minReputation c"
  "reputation (RevokeMember k c) = reputation c" "minReputation (RevokeMember k c) = minReputation c"
  by (auto simp: AdmitMember_def RemoveMember_def RevokeMember_def split: Membership.split)

lemma gateRun_levels:
  assumes "checker g = Some c"
  shows "\<exists>d. checker (fst (gateRun L pending g evs)) = Some d \<and> operator_key d = operator_key c \<and> opLevels d = opLevels c
    \<and> settleLevels d = settleLevels c \<and> fixedMember (members d) = fixedMember (members c)
    \<and> reputation d = reputation c \<and> minReputation d = minReputation c"
proof (induction evs rule: rev_induct)
  case Nil
  then show ?case using assms by (simp add: gateRun_def)
next
  case (snoc e evs)
  obtain g1 vs where r: "gateRun L pending g evs = (g1, vs)" by fastforce
  from snoc obtain d where d: "checker g1 = Some d" "operator_key d = operator_key c" "opLevels d = opLevels c"
    "settleLevels d = settleLevels c" "fixedMember (members d) = fixedMember (members c)" "reputation d = reputation c"
    "minReputation d = minReputation c"
    by (auto simp: r)
  show ?case
  proof (cases e)
    case (GateMessage m)
    obtain g2 v where t: "trustGate L pending m g1 = (g2, v)" by fastforce
    from t d(1) have "checker g2 = Some d \<or> checker g2 = Some (AdmitMember (Sender m) d)" by (cases rule: trustGate_effect) auto
    then show ?thesis using d t by (auto simp: gateRun_snoc r GateMessage)
  qed (use d in \<open>simp_all add: gateRun_snoc r DeAllowlistSeller_def ReAllowlistSeller_def UnrevokeMember_def\<close>)
qed

text \<open>
  C13: operator authority is never granted. After any run, a message of an operation that requires the operator
  reaches its handler if and only if the operator key signed it, whoever has been admitted on the way.
\<close>

theorem operator_level_gate:
  assumes "checker g = Some c" and "tagToTrustOp (exchangeOp (Tags m)) \<noteq> ''''"
    and "RequiredLevel c (tagToTrustOp (exchangeOp (Tags m))) (phaseOf m) = Inr TrustOperator"
  shows "snd (trustGate L pending m (fst (gateRun L pending g evs))) = Handled \<longleftrightarrow> isOperatorKey c (Sender m)"
proof -
  obtain d where d: "checker (fst (gateRun L pending g evs)) = Some d" "operator_key d = operator_key c"
    "opLevels d = opLevels c" "settleLevels d = settleLevels c"
    using gateRun_levels[OF assms(1)] by blast
  have req: "RequiredLevel d = RequiredLevel c" using d by (intro RequiredLevel_cong) simp_all
  have opk: "isOperatorKey d = isOperatorKey c" using d by (simp add: fun_eq_iff isOperatorKey_def)
  have lvl: "trust_Level d (Sender m) < TrustOperator \<longleftrightarrow> \<not> isOperatorKey c (Sender m)"
    by (simp add: trust_Level_def opk)
  show ?thesis
  proof (cases "isOperatorKey c (Sender m)")
    case True
    then have "trust_Check d (Sender m) (tagToTrustOp (exchangeOp (Tags m))) (phaseOf m) = None"
      using assms(3) by (simp add: trust_Check_def req trust_Level_def opk)
    then show ?thesis using True d(1) assms(2) by (simp add: trustGate_def Let_def)
  next
    case False
    then have "trust_Check d (Sender m) (tagToTrustOp (exchangeOp (Tags m))) (phaseOf m) = Some ErrInsufficientTrust"
      using assms(3) lvl by (simp add: trust_Check_def req)
    moreover have "tryOpenAdmit L (Sender m) op' ph err g' = (g1, out) \<Longrightarrow> checker g' = Some d \<Longrightarrow>
        RequiredLevel d op' ph = Inr TrustOperator \<Longrightarrow> out \<noteq> admissionGranted" for op' ph err g' g1 out
      by (erule tryOpenAdmit_cases) auto
    ultimately show ?thesis using False d(1) assms(2,3)
      by (auto simp: trustGate_def Let_def req split: prod.splits)
  qed
qed

text \<open>The demonstration gate: an open exchange whose only member has been let in by hand.\<close>

definition openGate :: gate where
  "openGate = \<lparr>OpenAdmission = True, FederationGuardEnabled = False, checker = NewTrustChecker ''op'' (Members {''aa''}) [],
     admitHook = Some (\<lambda>k. True), persisted = [],
     degradation = \<lparr>NotAllowlisted = 0, NotOperator = 0, LowReputation = 0, Other = 0, OpenAdmissionGranted = 0, OpenAdmissionMalformedKey = 0\<rparr>\<rparr>"

definition gateLib :: key_lib where
  "gateLib = \<lparr>bech32_decode = (\<lambda>s. None), schnorr_point = (\<lambda>b. length b = 1)\<rparr>"

definition gateMessage :: "string \<Rightarrow> string list \<Rightarrow> message" where
  "gateMessage k ts = \<lparr>ID = ''m'', Sender = k, Payload = None, Tags = ts, Antecedents = [], Timestamp = 1, Instance = ''''\<rparr>"

lemma operator_level_gate_witness:
  "\<exists>c. checker openGate = Some c \<and> RequiredLevel c ''assign-post'' '''' = Inr TrustOperator
    \<and> snd (trustGate gateLib (\<lambda>_. False) (gateMessage ''bb'' [TagAssign])
        (fst (gateRun gateLib (\<lambda>_. False) openGate [GateMessage (gateMessage ''bb'' [TagPut])]))) \<noteq> Handled
    \<and> snd (trustGate gateLib (\<lambda>_. False) (gateMessage ''op'' [TagAssign])
        (fst (gateRun gateLib (\<lambda>_. False) openGate [GateMessage (gateMessage ''bb'' [TagPut])]))) = Handled"
proof -
  obtain c where c: "checker openGate = Some c" "RequiredLevel c ''assign-post'' '''' = Inr TrustOperator" "operator_key c = ''op''"
    by (simp add: openGate_def NewTrustChecker_def RequiredLevel_def defaultOperationLevels_def)
  have op: "tagToTrustOp (exchangeOp (Tags (gateMessage k [TagAssign]))) = ''assign-post''"
    "phaseOf (gateMessage k [TagAssign]) = ''''" for k
    by (simp_all add: gateMessage_def phaseOf_def) code_simp+
  have k: "\<not> isOperatorKey c (Sender (gateMessage ''bb'' [TagAssign]))" "isOperatorKey c (Sender (gateMessage ''op'' [TagAssign]))"
    by (simp_all add: isOperatorKey_def gateMessage_def c(3))
  have "snd (trustGate gateLib (\<lambda>_. False) (gateMessage k [TagAssign])
        (fst (gateRun gateLib (\<lambda>_. False) openGate [GateMessage (gateMessage ''bb'' [TagPut])]))) = Handled
      \<longleftrightarrow> isOperatorKey c (Sender (gateMessage k [TagAssign]))" for k
    by (rule operator_level_gate[OF c(1)]) (simp_all add: op c(2))
  then show ?thesis using c k by blast
qed

section \<open>Revocation\<close>

definition shut_out :: "string \<Rightarrow> TrustChecker \<Rightarrow> bool" where
  "shut_out k c \<longleftrightarrow> k \<in> revoked c \<and> (\<forall>ks. members c = Members ks \<longrightarrow> k \<notin> ks)"

lemma shut_out_revoke:
  assumes "key_of s \<noteq> ''''" "s \<noteq> ''''" "\<not> isOperatorKey c s"
  shows "shut_out (key_of s) (RevokeMember s (RemoveMember s c))"
  using assms by (auto simp: shut_out_def RevokeMember_def RemoveMember_def isOperatorKey_def KeySet_Add_def KeySet_Remove_def
      Let_def split: Membership.splits)

lemma shut_out_admit: "shut_out k c \<Longrightarrow> \<not> IsRevoked c s \<Longrightarrow> shut_out k (AdmitMember s c)"
  by (auto simp: shut_out_def AdmitMember_def IsRevoked_def KeySet_Allowed_def KeySet_Add_def Let_def split: Membership.splits)

lemma shut_out_others: "shut_out k c \<Longrightarrow> shut_out k (RevokeMember s (RemoveMember s c))"
  by (auto simp: shut_out_def RevokeMember_def RemoveMember_def KeySet_Add_def KeySet_Remove_def Let_def split: Membership.splits)

lemma shut_out_unrevoke: "shut_out k c \<Longrightarrow> key_of s \<noteq> k \<Longrightarrow> shut_out k (UnrevokeMember s c)"
  by (auto simp: shut_out_def UnrevokeMember_def KeySet_Remove_def Let_def)

lemma shut_out_level: "shut_out (key_of s) c \<Longrightarrow> \<not> isOperatorKey c s
    \<Longrightarrow> trust_Level c s = (if fixedMember (members c) s then TrustAllowlisted else TrustAnonymous) \<and> (s \<noteq> '''' \<longrightarrow> IsRevoked c s)"
  by (cases "members c") (auto simp: shut_out_def trust_Level_def KeySet_Allowed_def IsRevoked_def)

lemma shut_out_run:
  assumes "checker g = Some c" "shut_out k c" "\<forall>s. ReAllow s \<in> set evs \<longrightarrow> key_of s \<noteq> k"
  shows "\<exists>d. checker (fst (gateRun L pending g evs)) = Some d \<and> shut_out k d"
  using assms(3)
proof (induction evs rule: rev_induct)
  case Nil
  then show ?case using assms by (simp add: gateRun_def)
next
  case (snoc e evs)
  obtain g1 vs where r: "gateRun L pending g evs = (g1, vs)" by fastforce
  from snoc obtain d where d: "checker g1 = Some d" "shut_out k d" by (auto simp: r)
  show ?case
  proof (cases e)
    case (GateMessage m)
    obtain g2 v where t: "trustGate L pending m g1 = (g2, v)" by fastforce
    from t d(1) have "checker g2 = Some d \<or> (checker g2 = Some (AdmitMember (Sender m) d) \<and> \<not> IsRevoked d (Sender m))"
      by (cases rule: trustGate_effect) auto
    then show ?thesis using d t shut_out_admit by (auto simp: gateRun_snoc r GateMessage)
  next
    case (DeAllow s)
    then show ?thesis using d shut_out_others by (simp add: gateRun_snoc r DeAllowlistSeller_def)
  next
    case (ReAllow s)
    then show ?thesis using d shut_out_unrevoke snoc.prems by (simp add: gateRun_snoc r ReAllowlistSeller_def)
  qed
qed

definition floor_ok :: "TrustChecker \<Rightarrow> string \<Rightarrow> string \<Rightarrow> bool" where
  "floor_ok c k op = (case reputation c of None \<Rightarrow> True | Some score \<Rightarrow> op \<noteq> ''put'' \<or> minReputation c \<le> score k)"

lemma Check_None:
  assumes "\<not> isOperatorKey c s"
  shows "trust_Check c s op ph = None
    \<longleftrightarrow> (\<exists>l. RequiredLevel c op ph = Inr l \<and> l \<le> trust_Level c s) \<and> floor_ok c s op"
  using assms by (auto simp: trust_Check_def floor_ok_def Let_def trust_Level_def not_less split: sum.split option.split)

text \<open>
  C14: a key de-allowlisted for cause stays out. Whatever messages arrive afterwards, from it or from others,
  and whoever else the operator drops or restores, open admission never lets the key back in: until the operator
  re-allowlists it, a message of the key (in any spelling that folds to it) is handled exactly when an anonymous
  sender's would be, that is when its operation requires no more than \<open>TrustAnonymous\<close> and the reputation floor,
  which is on puts, lets it through. The one exception is a \<open>Membership\<close> that is not the mutable
  key set: an operator's revocation cannot remove the key from it, and the key keeps the level such a
  membership gives it.
\<close>

theorem revoked_stays_out:
  assumes "checker g = Some c" and "key_of s \<noteq> ''''"
    and "\<not> isOperatorKey c s" and "\<not> isOperatorKey c (Sender m)" and "key_of (Sender m) = key_of s"
    and "list_all (\<lambda>e. \<forall>r. e = ReAllow r \<longrightarrow> key_of r \<noteq> key_of s) evs"
    and "tagToTrustOp (exchangeOp (Tags m)) \<noteq> ''''"
  shows "snd (trustGate L pending m (fst (gateRun L pending (DeAllowlistSeller s g) evs))) = Handled
    \<longleftrightarrow> (\<exists>l. RequiredLevel c (tagToTrustOp (exchangeOp (Tags m))) (phaseOf m) = Inr l
          \<and> l \<le> (if fixedMember (members c) (Sender m) then TrustAllowlisted else TrustAnonymous))
      \<and> floor_ok c (Sender m) (tagToTrustOp (exchangeOp (Tags m)))"
proof -
  let ?op = "tagToTrustOp (exchangeOp (Tags m))"
  let ?c = "RevokeMember s (RemoveMember s c)"
  have ne: "k \<noteq> ''''" if "key_of k \<noteq> ''''" for k using that by (auto simp: key_of_def trimSpace_def trim_left.simps)
  then have out: "shut_out (key_of s) ?c" using shut_out_revoke assms by blast
  have g0: "checker (DeAllowlistSeller s g) = Some ?c" using assms(1) by (simp add: DeAllowlistSeller_def)
  have "\<forall>r. ReAllow r \<in> set evs \<longrightarrow> key_of r \<noteq> key_of s" using assms(6) by (auto simp: list_all_iff)
  from shut_out_run[OF g0 out this, of L pending] gateRun_levels[OF g0, of L pending evs] obtain d where
    d: "checker (fst (gateRun L pending (DeAllowlistSeller s g) evs)) = Some d" "shut_out (key_of s) d"
      "operator_key d = operator_key c" "opLevels d = opLevels c" "settleLevels d = settleLevels c"
      "fixedMember (members d) = fixedMember (members c)" "reputation d = reputation c" "minReputation d = minReputation c" by auto
  have req: "RequiredLevel d = RequiredLevel c" using d by (intro RequiredLevel_cong) simp_all
  have op: "\<not> isOperatorKey d (Sender m)" using assms(4) d(3) by (simp add: isOperatorKey_def)
  have lv: "trust_Level d (Sender m) = (if fixedMember (members c) (Sender m) then TrustAllowlisted else TrustAnonymous)"
    "IsRevoked d (Sender m)"
    using shut_out_level[of "Sender m" d] d(2,6) op assms(2,5) ne[of "Sender m"] by auto
  have fl: "floor_ok d k o' = floor_ok c k o'" for k o' by (simp add: floor_ok_def d(7,8) split: option.split)
  have "out \<noteq> admissionGranted" if "tryOpenAdmit L (Sender m) op' ph err g' = (g1, out)" "checker g' = Some d" for op' ph err g' g1 out
    using that by (rule tryOpenAdmit_cases) (use lv in auto)
  then have "snd (trustGate L pending m (fst (gateRun L pending (DeAllowlistSeller s g) evs))) = Handled
      \<longleftrightarrow> trust_Check d (Sender m) ?op (phaseOf m) = None"
    using d(1) assms(7) by (auto simp: trustGate_def Let_def split: prod.splits option.splits)
  then show ?thesis by (simp only: Check_None[OF op] req lv fl)
qed

lemma revoked_stays_out_witness:
  "snd (trustGate gateLib (\<lambda>_. False) (gateMessage ''AA'' [TagPut])
     (fst (gateRun gateLib (\<lambda>_. False) (DeAllowlistSeller ''aa'' openGate) [GateMessage (gateMessage ''aa'' [TagPut]), ReAllow ''bb'']))) \<noteq> Handled
   \<and> snd (trustGate gateLib (\<lambda>_. False) (gateMessage ''AA'' [TagBuy])
     (fst (gateRun gateLib (\<lambda>_. False) (DeAllowlistSeller ''aa'' openGate) [GateMessage (gateMessage ''aa'' [TagPut]), ReAllow ''bb'']))) = Handled"
proof -
  obtain c where c: "checker openGate = Some c" "members c = Members {''aa''}" "operator_key c = ''op''"
    "RequiredLevel c ''put'' '''' = Inr TrustAllowlisted" "RequiredLevel c ''buy'' '''' = Inr TrustAnonymous" "reputation c = None"
    by (simp add: openGate_def NewTrustChecker_def RequiredLevel_def defaultOperationLevels_def)
  have k: "key_of ''aa'' = ''aa''" "key_of ''AA'' = ''aa''" "key_of ''bb'' = ''bb''" by code_simp+
  have op: "tagToTrustOp (exchangeOp [TagPut]) = ''put''" "exchangeOp [TagPut] \<noteq> TagSettle"
    "tagToTrustOp (exchangeOp [TagBuy]) = ''buy''" "exchangeOp [TagBuy] \<noteq> TagSettle" by code_simp+
  have m: "Sender (gateMessage ''AA'' ts) = ''AA''" "Tags (gateMessage ''AA'' ts) = ts" for ts
    by (simp_all add: gateMessage_def)
  have ph: "phaseOf (gateMessage ''AA'' [TagPut]) = ''''" "phaseOf (gateMessage ''AA'' [TagBuy]) = ''''"
    using op by (simp_all add: gateMessage_def phaseOf_def)
  have r: "snd (trustGate gateLib (\<lambda>_. False) (gateMessage ''AA'' ts) (fst (gateRun gateLib (\<lambda>_. False)
        (DeAllowlistSeller ''aa'' openGate) [GateMessage (gateMessage ''aa'' [TagPut]), ReAllow ''bb'']))) = Handled
      \<longleftrightarrow> (\<exists>l. RequiredLevel c (tagToTrustOp (exchangeOp ts)) (phaseOf (gateMessage ''AA'' ts)) = Inr l
          \<and> l \<le> (if fixedMember (members c) ''AA'' then TrustAllowlisted else TrustAnonymous))
        \<and> floor_ok c ''AA'' (tagToTrustOp (exchangeOp ts))" if "tagToTrustOp (exchangeOp ts) \<noteq> ''''" for ts
    using revoked_stays_out[OF c(1), of "''aa''" "gateMessage ''AA'' ts"
        "[GateMessage (gateMessage ''aa'' [TagPut]), ReAllow ''bb'']" gateLib "\<lambda>_. False"] that
    by (simp add: m k isOperatorKey_def c(3))
  have "floor_ok c ''AA'' o'" for o' by (simp add: floor_ok_def c(6))
  moreover have "\<not> TrustAllowlisted \<le> TrustAnonymous" by (simp add: not_le)
  ultimately show ?thesis using r[of "[TagPut]"] r[of "[TagBuy]"] by (simp add: op ph c)
qed

section \<open>What admission writes, the boot reads\<close>

lemma addEntries_ok:
  assumes "\<forall>e \<in> set es. NormalizeAllowlistEntry L e \<noteq> None"
  shows "NewAllowlist L es = Some (fst (NewAllowlistPartition L es)) \<and> snd (NewAllowlistPartition L es) = []"
proof -
  have bad: "snd (NewAllowlistPartition L es) = []" using assms partition_result[of L es _ "[]"]
    by (simp add: NewAllowlistPartition_def filter_empty_conv)
  have "NewAllowlist L es = addEntries L es \<lparr>allow_members = [], open_list = False\<rparr>" by (simp add: NewAllowlist_def)
  then show ?thesis using addEntries_partition[of L es _ "[]"] bad by (simp add: NewAllowlistPartition_def)
qed

lemma persisted_run:
  assumes "checker g = Some c" "\<forall>k \<in> set (persisted g). NormalizeAllowlistEntry L k \<noteq> None"
  shows "\<forall>k \<in> set (persisted (fst (gateRun L pending g evs))). NormalizeAllowlistEntry L k \<noteq> None"
proof (induction evs rule: rev_induct)
  case Nil
  then show ?case using assms by (simp add: gateRun_def)
next
  case (snoc e evs)
  obtain g1 vs where r: "gateRun L pending g evs = (g1, vs)" by fastforce
  obtain d where d: "checker g1 = Some d" using gateRun_levels[OF assms(1), of L pending evs] by (auto simp: r)
  have ih: "\<forall>k \<in> set (persisted g1). NormalizeAllowlistEntry L k \<noteq> None" using snoc by (simp add: r)
  show ?case
  proof (cases e)
    case (GateMessage m)
    obtain g2 v where t: "trustGate L pending m g1 = (g2, v)" by fastforce
    have step: "fst (gateRun L pending g (evs @ [e])) = g2" by (simp add: gateRun_snoc r GateMessage t)
    show ?thesis unfolding step using t d ih by (cases rule: trustGate_effect) auto
  qed (use ih in \<open>simp_all add: gateRun_snoc r DeAllowlistSeller_def ReAllowlistSeller_def\<close>)
qed

text \<open>
  C15: admission cannot poison the configuration. If the recorded members load, then after any run of the gate
  the record, with everything open admission has added, still loads under the strict constructor, loses no
  entry, and lets in every recorded hex key.
\<close>

theorem admitted_keys_load:
  assumes "checker g = Some c" and "list_all (\<lambda>k. NormalizeAllowlistEntry L k \<noteq> None) (persisted g)"
  shows "\<exists>a. NewAllowlist L (persisted (fst (gateRun L pending g evs))) = Some a
    \<and> NewAllowlistPartition L (persisted (fst (gateRun L pending g evs))) = (a, [])
    \<and> (\<forall>k \<in> set (persisted (fst (gateRun L pending g evs))).
        trimSpace k \<noteq> '''' \<longrightarrow> \<not> hasPrefix (trimSpace k) (npubHRP @ ''1'') \<longrightarrow> Allowed_list a k)"
proof -
  let ?ks = "persisted (fst (gateRun L pending g evs))"
  have ok: "\<forall>k \<in> set ?ks. NormalizeAllowlistEntry L k \<noteq> None"
    using persisted_run[OF assms(1)] assms(2) by (simp add: list_all_iff)
  have "Allowed_list (fst (NewAllowlistPartition L ?ks)) k"
    if k: "k \<in> set ?ks" "trimSpace k \<noteq> ''''" "\<not> hasPrefix (trimSpace k) (npubHRP @ ''1'')" for k
  proof -
    have "NormalizeAllowlistEntry L k = Some (toLower (trimSpace k))"
      using ok k by (auto simp: NormalizeAllowlistEntry_def Let_def split: if_splits)
    then have "toLower (trimSpace k) \<in> usable L ?ks" using k by (auto simp: usable_def)
    then show ?thesis using partition_result[of L ?ks "\<lparr>allow_members = [], open_list = False\<rparr>" "[]"]
      by (auto simp: Allowed_list_def NewAllowlistPartition_def map_of_eq_None_iff)
  qed
  then show ?thesis using addEntries_ok[OF ok] by (metis prod.collapse)
qed

lemma admitted_keys_load_witness:
  "persisted (fst (gateRun gateLib (\<lambda>_. False) openGate [GateMessage (gateMessage ''bb'' [TagPut])])) = [''bb'']
   \<and> (\<exists>a. NewAllowlist gateLib (persisted (fst (gateRun gateLib (\<lambda>_. False) openGate [GateMessage (gateMessage ''bb'' [TagPut])]))) = Some a)"
proof (intro conjI)
  show "persisted (fst (gateRun gateLib (\<lambda>_. False) openGate [GateMessage (gateMessage ''bb'' [TagPut])])) = [''bb'']"
    by code_simp
  obtain c where c: "checker openGate = Some c" by (simp add: openGate_def NewTrustChecker_def)
  have "list_all (\<lambda>k. NormalizeAllowlistEntry gateLib k \<noteq> None) (persisted openGate)" by (simp add: openGate_def)
  from admitted_keys_load[OF c this]
  show "\<exists>a. NewAllowlist gateLib (persisted (fst (gateRun gateLib (\<lambda>_. False) openGate [GateMessage (gateMessage ''bb'' [TagPut])]))) = Some a"
    by blast
qed

end
