(* ===== verification/Engine_Poll.thy ===== *)
theory Engine_Poll
  imports Message
begin

text \<open>
  The engine's ingest of its event log (\<open>pkg/exchange/engine_core.go\<close>): the poll loop, the rebuild before an
  operator action and the synchronous ingest of a client record share a fold cursor and a dispatch cursor.
  Every caller runs in its own goroutine; what it does under \<open>localMu\<close> is one step here, what it does outside
  the lock is a step per record. The log itself grows at any time, since the relay intake and the operator's
  own emits append to it without touching the cursors.
\<close>

section \<open>State and callers\<close>

text \<open>
  \<open>foldLog\<close> and \<open>dispatchLog\<close> record what State and the dispatcher have been given, in the order it happened;
  the position of a dispatched record in the log goes with it.
\<close>

datatype fold_event = FoldReplay "message list" | FoldApply message

datatype caller =
    PollSnap "message list"
  | RebuildSnap "message list"
  | Folding "message list" nat nat nat
  | Dispatching "message list" nat nat

record poll_state =
  store :: "message list"
  localSeen :: nat
  localDispatched :: nat
  localMsgByID :: "string \<rightharpoonup> message"
  foldLog :: "fold_event list"
  dispatchLog :: "(nat \<times> message) list"
  callers :: "nat \<rightharpoonup> caller"

definition indexLocalMessages :: "message list \<Rightarrow> poll_state \<Rightarrow> poll_state" where
  "indexLocalMessages msgs s = s\<lparr>localMsgByID := foldl (\<lambda>idx m. idx(ID m \<mapsto> m)) (localMsgByID s) msgs\<rparr>"

definition fetchMessage :: "string \<Rightarrow> poll_state \<Rightarrow> message option" where
  "fetchMessage i s = localMsgByID s i"

text \<open>The operator's own emit: the record and its index entry appear together, no cursor moves.\<close>

definition appendLocalRecord :: "message \<Rightarrow> poll_state \<Rightarrow> poll_state option" where
  "appendLocalRecord m s = (if ID m = '''' then None
     else Some (s\<lparr>store := store s @ [m], localMsgByID := (localMsgByID s)(ID m \<mapsto> m)\<rparr>))"

definition BatchAppend :: "message list \<Rightarrow> poll_state \<Rightarrow> poll_state option" where
  "BatchAppend ms s = (if list_all (\<lambda>m. ID m \<noteq> '''') ms then Some (s\<lparr>store := store s @ ms\<rparr>) else None)"

definition claimDispatchGap :: "nat \<Rightarrow> poll_state \<Rightarrow> nat \<times> poll_state" where
  "claimDispatchGap tot s = (localDispatched s,
     if tot > localDispatched s then s\<lparr>localDispatched := tot\<rparr> else s)"

section \<open>The three entry points\<close>

text \<open>\<open>foldAndDispatchLocalSnapshot\<close> up to the unlock: both gaps are claimed; folding and dispatching follow.\<close>

definition claimSnapshot :: "message list \<Rightarrow> poll_state \<Rightarrow> caller \<times> poll_state" where
  "claimSnapshot msgs s =
     (let tot = length msgs; foldStart = localSeen s;
          s1 = (if tot > localSeen s then (indexLocalMessages (drop (localSeen s) msgs) s)\<lparr>localSeen := tot\<rparr> else s);
          (dispatchStart, s2) = claimDispatchGap tot s1
      in (Folding msgs foldStart dispatchStart tot, s2))"

text \<open>\<open>rebuildAndDispatchGapLocal\<close> under the lock.\<close>

definition rebuildSnapshot :: "message list \<Rightarrow> poll_state \<Rightarrow> caller \<times> poll_state" where
  "rebuildSnapshot msgs s =
     (let tot = length msgs;
          s1 = (if tot > localSeen s then (indexLocalMessages msgs s)\<lparr>localSeen := tot,
                  foldLog := foldLog s @ [FoldReplay msgs]\<rparr> else s);
          (dispatchStart, s2) = claimDispatchGap tot s1
      in (Dispatching msgs dispatchStart tot, s2))"

text \<open>
  \<open>IngestLocalRecord\<close> under the lock. The intake may append \<open>others\<close> between the append and the read of the log.
\<close>

definition IngestLocalRecord :: "message \<Rightarrow> message list \<Rightarrow> poll_state \<Rightarrow> (caller \<times> poll_state) option" where
  "IngestLocalRecord rec others s =
     (if ID rec = '''' then None
      else let snap = store s @ rec # others; tot = length snap; foldStart = localSeen s;
          s1 = s\<lparr>store := snap\<rparr>;
          s2 = (if tot > localSeen s1 then (indexLocalMessages (drop (localSeen s1) snap) s1)\<lparr>localSeen := tot\<rparr> else s1);
          s3 = s2\<lparr>foldLog := foldLog s2 @ map FoldApply (drop foldStart snap)\<rparr>;
          (dispatchStart, s4) = claimDispatchGap tot s3
        in Some (Dispatching snap dispatchStart tot, s4))"

text \<open>One round of the dispatch loop: a record of the operator is skipped.\<close>

definition dispatchOne :: "string \<Rightarrow> message list \<Rightarrow> nat \<Rightarrow> poll_state \<Rightarrow> poll_state" where
  "dispatchOne opKey msgs i s = (if opKey \<noteq> '''' \<and> Sender (msgs ! i) = opKey then s
     else s\<lparr>dispatchLog := dispatchLog s @ [(i, msgs ! i)]\<rparr>)"

abbreviation put_caller :: "nat \<Rightarrow> caller \<Rightarrow> poll_state \<Rightarrow> poll_state" where
  "put_caller t c s \<equiv> s\<lparr>callers := (callers s)(t \<mapsto> c)\<rparr>"

section \<open>Interleaving\<close>

inductive poll_step :: "string \<Rightarrow> poll_state \<Rightarrow> poll_state \<Rightarrow> bool" for opKey where
  emit: "appendLocalRecord m s = Some s' \<Longrightarrow> poll_step opKey s s'"
| intake: "BatchAppend ms s = Some s' \<Longrightarrow> poll_step opKey s s'"
| poll_read: "callers s t = None \<Longrightarrow> poll_step opKey s (put_caller t (PollSnap (store s)) s)"
| poll_claim: "callers s t = Some (PollSnap msgs) \<Longrightarrow> claimSnapshot msgs s = (c, s') \<Longrightarrow> poll_step opKey s (put_caller t c s')"
| poll_fold: "callers s t = Some (Folding msgs i d tot) \<Longrightarrow> i < tot \<Longrightarrow>
    poll_step opKey s (put_caller t (Folding msgs (Suc i) d tot) (s\<lparr>foldLog := foldLog s @ [FoldApply (msgs ! i)]\<rparr>))"
| poll_folded: "callers s t = Some (Folding msgs i d tot) \<Longrightarrow> i \<ge> tot \<Longrightarrow>
    poll_step opKey s (put_caller t (Dispatching msgs d tot) s)"
| rebuild_read: "callers s t = None \<Longrightarrow> poll_step opKey s (put_caller t (RebuildSnap (store s)) s)"
| rebuild_claim: "callers s t = Some (RebuildSnap msgs) \<Longrightarrow> rebuildSnapshot msgs s = (c, s') \<Longrightarrow> poll_step opKey s (put_caller t c s')"
| ingest: "callers s t = None \<Longrightarrow> list_all (\<lambda>m. ID m \<noteq> '''') others \<Longrightarrow> IngestLocalRecord rec others s = Some (c, s') \<Longrightarrow>
    poll_step opKey s (put_caller t c s')"
| dispatch: "callers s t = Some (Dispatching msgs i tot) \<Longrightarrow> i < tot \<Longrightarrow>
    poll_step opKey s (put_caller t (Dispatching msgs (Suc i) tot) (dispatchOne opKey msgs i s))"
| finish: "callers s t = Some (Dispatching msgs i tot) \<Longrightarrow> i \<ge> tot \<Longrightarrow> poll_step opKey s (s\<lparr>callers := (callers s)(t := None)\<rparr>)"

text \<open>
  \<open>Start\<close>: the whole log is folded by one replay, both cursors stand at its end, and no caller is in flight.
  This is the start without sequenced ingest, where the log is folded in its own order.
\<close>

definition poll_start :: "message list \<Rightarrow> poll_state" where
  "poll_start msgs = indexLocalMessages msgs
     \<lparr>store = msgs, localSeen = length msgs, localDispatched = length msgs, localMsgByID = Map.empty,
      foldLog = [FoldReplay msgs], dispatchLog = [], callers = Map.empty\<rparr>"

inductive poll_reach :: "string \<Rightarrow> message list \<Rightarrow> poll_state \<Rightarrow> bool" for opKey log0 where
  start: "poll_reach opKey log0 (poll_start log0)"
| step: "poll_reach opKey log0 s \<Longrightarrow> poll_step opKey s s' \<Longrightarrow> poll_reach opKey log0 s'"

section \<open>The claims partition the log\<close>

text \<open>The positions a caller has claimed and not yet handed to the dispatcher.\<close>

fun claimed :: "caller \<Rightarrow> nat set" where
  "claimed (Folding msgs i d tot) = {d..<tot}"
| "claimed (Dispatching msgs i tot) = {i..<tot}"
| "claimed _ = {}"

fun snapshot :: "caller \<Rightarrow> message list" where
  "snapshot (PollSnap msgs) = msgs"
| "snapshot (RebuildSnap msgs) = msgs"
| "snapshot (Folding msgs i d tot) = msgs"
| "snapshot (Dispatching msgs i tot) = msgs"

fun total_ok :: "caller \<Rightarrow> bool" where
  "total_ok (Folding msgs i d tot) = (tot = length msgs)"
| "total_ok (Dispatching msgs i tot) = (tot = length msgs)"
| "total_ok _ = True"

definition is_prefix :: "'a list \<Rightarrow> 'a list \<Rightarrow> bool" where
  "is_prefix xs ys \<longleftrightarrow> take (length xs) ys = xs"

definition ownRecord :: "string \<Rightarrow> message \<Rightarrow> bool" where
  "ownRecord opKey m \<longleftrightarrow> opKey \<noteq> '''' \<and> Sender m = opKey"

text \<open>
  The invariant, over the log, the dispatch cursor, what has been dispatched and the callers: the claims are
  disjoint, and every position below the cursor has been dispatched, belongs to the operator or is claimed.
\<close>

definition callers_ok :: "nat \<Rightarrow> message list \<Rightarrow> nat \<Rightarrow> nat set \<Rightarrow> (nat \<rightharpoonup> caller) \<Rightarrow> bool" where
  "callers_ok base st disp D cs \<longleftrightarrow>
     (\<forall>t c. cs t = Some c \<longrightarrow> is_prefix (snapshot c) st \<and> total_ok c \<and> claimed c \<subseteq> {base..<disp} \<and> claimed c \<inter> D = {})
     \<and> (\<forall>t u c d. t \<noteq> u \<longrightarrow> cs t = Some c \<longrightarrow> cs u = Some d \<longrightarrow> claimed c \<inter> claimed d = {})"

definition dispatched_ok :: "string \<Rightarrow> nat \<Rightarrow> message list \<Rightarrow> nat \<Rightarrow> (nat \<times> message) list \<Rightarrow> bool" where
  "dispatched_ok opKey base st disp dl \<longleftrightarrow> distinct (map fst dl) \<and> disp \<le> length st \<and> base \<le> disp
     \<and> (\<forall>(i, m) \<in> set dl. base \<le> i \<and> i < disp \<and> m = st ! i \<and> \<not> ownRecord opKey m)"

definition covered :: "string \<Rightarrow> nat \<Rightarrow> message list \<Rightarrow> nat \<Rightarrow> nat set \<Rightarrow> (nat \<rightharpoonup> caller) \<Rightarrow> bool" where
  "covered opKey base st disp D cs \<longleftrightarrow> (\<forall>i. base \<le> i \<longrightarrow> i < disp \<longrightarrow> ownRecord opKey (st ! i) \<or> i \<in> D
     \<or> (\<exists>t c. cs t = Some c \<and> i \<in> claimed c))"

definition claims_ok :: "string \<Rightarrow> nat \<Rightarrow> poll_state \<Rightarrow> bool" where
  "claims_ok opKey base s \<longleftrightarrow> localSeen s \<le> length (store s)
     \<and> dispatched_ok opKey base (store s) (localDispatched s) (dispatchLog s)
     \<and> callers_ok base (store s) (localDispatched s) (fst ` set (dispatchLog s)) (callers s)
     \<and> covered opKey base (store s) (localDispatched s) (fst ` set (dispatchLog s)) (callers s)"

lemma is_prefix_append: "is_prefix xs ys \<Longrightarrow> is_prefix xs (ys @ zs)"
proof -
  assume p: "is_prefix xs ys"
  then have "length xs \<le> length ys" unfolding is_prefix_def by (metis length_take min.cobounded1 min_def nle_le)
  then show ?thesis using p by (simp add: is_prefix_def)
qed

lemma is_prefix_nth: "is_prefix xs ys \<Longrightarrow> i < length xs \<Longrightarrow> xs ! i = ys ! i"
  unfolding is_prefix_def by (metis nth_take)

lemma is_prefix_length: "is_prefix xs ys \<Longrightarrow> length xs \<le> length ys"
  unfolding is_prefix_def by (metis length_take min.cobounded1 min_def nle_le)

lemma is_prefix_refl [simp]: "is_prefix xs xs"
  by (simp add: is_prefix_def)

lemma grow_log:
  assumes "dispatched_ok opKey base st disp dl" "callers_ok base st disp D cs" "covered opKey base st disp D cs"
  shows "dispatched_ok opKey base (st @ xs) disp dl \<and> callers_ok base (st @ xs) disp D cs \<and> covered opKey base (st @ xs) disp D cs"
  using assms unfolding dispatched_ok_def callers_ok_def covered_def by (auto simp: nth_append is_prefix_append)

text \<open>A caller moves on without giving up or taking positions.\<close>

lemma same_claim:
  assumes "callers_ok base st disp D cs" "covered opKey base st disp D cs"
    and "claimed c = (case cs t of None \<Rightarrow> {} | Some b \<Rightarrow> claimed b)" "is_prefix (snapshot c) st" "total_ok c"
  shows "callers_ok base st disp D (cs(t \<mapsto> c)) \<and> covered opKey base st disp D (cs(t \<mapsto> c))"
proof
  have ok: "\<And>u b. cs u = Some b \<Longrightarrow> claimed b \<subseteq> {base..<disp} \<and> claimed b \<inter> D = {}"
    and dj: "\<And>u v a b. u \<noteq> v \<Longrightarrow> cs u = Some a \<Longrightarrow> cs v = Some b \<Longrightarrow> claimed a \<inter> claimed b = {}"
    using assms(1) unfolding callers_ok_def by simp_all
  have sub: "claimed c \<subseteq> {base..<disp}" "claimed c \<inter> D = {}"
    using assms(3) ok[of t] by (cases "cs t"; simp)+
  have dis: "claimed c \<inter> claimed b = {}" if "u \<noteq> t" "cs u = Some b" for u b
    using assms(3) dj[of t u _ b] that by (cases "cs t") auto
  then have dis2: "claimed b \<inter> claimed c = {}" if "u \<noteq> t" "cs u = Some b" for u b using that by (simp add: Int_commute)
  show "callers_ok base st disp D (cs(t \<mapsto> c))"
    unfolding callers_ok_def
  proof (intro conjI allI impI)
    fix u v a b assume "u \<noteq> v" "(cs(t \<mapsto> c)) u = Some a" "(cs(t \<mapsto> c)) v = Some b"
    then show "claimed a \<inter> claimed b = {}"
      using dis dis2 dj by (cases "u = t"; cases "v = t") simp_all
  qed (use assms(1,4,5) sub in \<open>auto simp: callers_ok_def split: if_splits\<close>)
  show "covered opKey base st disp D (cs(t \<mapsto> c))"
    unfolding covered_def
  proof (intro allI impI)
    fix i assume "base \<le> i" "i < disp"
    then have "ownRecord opKey (st ! i) \<or> i \<in> D \<or> (\<exists>u b. cs u = Some b \<and> i \<in> claimed b)"
      using assms(2) unfolding covered_def by blast
    then have alt: "ownRecord opKey (st ! i) \<or> i \<in> D \<or> (\<exists>u b. cs u = Some b \<and> i \<in> claimed b)" by simp
    have "\<exists>v b'. (cs(t \<mapsto> c)) v = Some b' \<and> i \<in> claimed b'" if ub: "cs u = Some b" "i \<in> claimed b" for u b
    proof (cases "u = t")
      case True
      then show ?thesis using ub assms(3) by (intro exI[of _ t] exI[of _ c]) simp
    next
      case False
      then show ?thesis using ub by (intro exI[of _ u] exI[of _ b]) simp
    qed
    then show "ownRecord opKey (st ! i) \<or> i \<in> D \<or> (\<exists>u b. (cs(t \<mapsto> c)) u = Some b \<and> i \<in> claimed b)"
      using alt by blast
  qed
qed

text \<open>A caller that held nothing takes everything from the cursor up to the end of its snapshot.\<close>

lemma new_claim:
  assumes "dispatched_ok opKey base st disp dl" "callers_ok base st disp (fst ` set dl) cs" "covered opKey base st disp (fst ` set dl) cs"
    and "claimed c = {disp..<length (snapshot c)}" "case cs t of None \<Rightarrow> True | Some b \<Rightarrow> claimed b = {}"
      "is_prefix (snapshot c) st" "total_ok c"
  shows "dispatched_ok opKey base st (max disp (length (snapshot c))) dl
    \<and> callers_ok base st (max disp (length (snapshot c))) (fst ` set dl) (cs(t \<mapsto> c))
    \<and> covered opKey base st (max disp (length (snapshot c))) (fst ` set dl) (cs(t \<mapsto> c))"
proof (intro conjI)
  have len: "length (snapshot c) \<le> length st" by (rule is_prefix_length[OF assms(6)])
  show "dispatched_ok opKey base st (max disp (length (snapshot c))) dl"
    using assms(1) len unfolding dispatched_ok_def by force
  have D: "fst ` set dl \<subseteq> {base..<disp}" using assms(1) unfolding dispatched_ok_def by force
  have old: "claimed b \<subseteq> {base..<disp}" if "cs u = Some b" for u b using assms(2) that unfolding callers_ok_def by blast
  have base: "base \<le> disp" using assms(1) by (simp add: dispatched_ok_def)
  show "callers_ok base st (max disp (length (snapshot c))) (fst ` set dl) (cs(t \<mapsto> c))"
    unfolding callers_ok_def
  proof (intro conjI allI impI)
    fix u b assume u: "(cs(t \<mapsto> c)) u = Some b"
    show "is_prefix (snapshot b) st" "total_ok b"
      using u assms(2,6,7) unfolding callers_ok_def by (auto split: if_splits)
    show "claimed b \<subseteq> {base..<max disp (length (snapshot c))}"
      using u assms(4) base old by (cases "u = t") (fastforce simp: less_max_iff_disj)+
    show "claimed b \<inter> fst ` set dl = {}"
      using u assms(2,4) D unfolding callers_ok_def by (cases "u = t") auto
  next
    fix u v a b assume uv: "u \<noteq> v" "(cs(t \<mapsto> c)) u = Some a" "(cs(t \<mapsto> c)) v = Some b"
    have o': "w \<noteq> t \<Longrightarrow> (cs(t \<mapsto> c)) w = Some x \<Longrightarrow> claimed x \<inter> {disp..<length (snapshot c)} = {}" for w x using old by fastforce
    show "claimed a \<inter> claimed b = {}"
    proof (cases "u = t \<or> v = t")
      case True
      then show ?thesis using uv o'[of u a] o'[of v b] assms(4) by (elim disjE) (auto simp: disjoint_iff)
    next
      case False
      then show ?thesis using uv assms(2) unfolding callers_ok_def by auto
    qed
  qed
  show "covered opKey base st (max disp (length (snapshot c))) (fst ` set dl) (cs(t \<mapsto> c))"
    unfolding covered_def
  proof (intro allI impI)
    fix i assume i: "base \<le> i" "i < max disp (length (snapshot c))"
    show "ownRecord opKey (st ! i) \<or> i \<in> fst ` set dl \<or> (\<exists>u b. (cs(t \<mapsto> c)) u = Some b \<and> i \<in> claimed b)"
    proof (cases "i < disp")
      case True
      then have "ownRecord opKey (st ! i) \<or> i \<in> fst ` set dl \<or> (\<exists>u b. cs u = Some b \<and> i \<in> claimed b)"
        using assms(3) i unfolding covered_def by blast
      moreover have "u \<noteq> t" if "cs u = Some b" "i \<in> claimed b" for u b using that assms(5) by (cases "u = t") auto
      ultimately show ?thesis by (metis fun_upd_other)
    next
      case False
      then have "i \<in> claimed c" using i assms(4) by auto
      then show ?thesis by auto
    qed
  qed
qed

text \<open>A caller hands the first position of its claim to the dispatcher, or skips it as the operator's own.\<close>

lemma dispatch_claim:
  assumes dl: "dispatched_ok opKey base st disp dl" and cs: "callers_ok base st disp (fst ` set dl) cs"
    and cov: "covered opKey base st disp (fst ` set dl) cs"
    and t: "cs t = Some (Dispatching msgs i tot)" "i < tot"
    and dl': "dl' = (if ownRecord opKey (msgs ! i) then dl else dl @ [(i, msgs ! i)])"
    and c: "c = Dispatching msgs (Suc i) tot"
  shows "dispatched_ok opKey base st disp dl' \<and> callers_ok base st disp (fst ` set dl') (cs(t \<mapsto> c))
    \<and> covered opKey base st disp (fst ` set dl') (cs(t \<mapsto> c))"
proof -
  have ok: "\<And>u b. cs u = Some b \<Longrightarrow> is_prefix (snapshot b) st \<and> total_ok b \<and> claimed b \<subseteq> {base..<disp} \<and> claimed b \<inter> fst ` set dl = {}"
    and dj: "\<And>u v a b. u \<noteq> v \<Longrightarrow> cs u = Some a \<Longrightarrow> cs v = Some b \<Longrightarrow> claimed a \<inter> claimed b = {}"
    using cs unfolding callers_ok_def by simp_all
  have len: "tot = length msgs" "is_prefix msgs st" using ok[OF t(1)] by simp_all
  then have m: "msgs ! i = st ! i" using is_prefix_nth[of msgs st i] t(2) by simp
  have i: "base \<le> i" "i < disp" "i \<notin> fst ` set dl" using ok[OF t(1)] t(2) by auto
  have D: "fst ` set dl' = (if ownRecord opKey (st ! i) then fst ` set dl else insert i (fst ` set dl))" by (simp add: dl' m)
  have others: "i \<notin> claimed b" if "u \<noteq> t" "cs u = Some b" for u b using dj[OF that(1) that(2) t(1)] t(2) by auto
  have "dispatched_ok opKey base st disp dl'" using dl i unfolding dispatched_ok_def dl' m by auto
  moreover have "callers_ok base st disp (fst ` set dl') (cs(t \<mapsto> c))"
    unfolding callers_ok_def
  proof (intro conjI allI impI)
    fix u b assume u: "(cs(t \<mapsto> c)) u = Some b"
    show "is_prefix (snapshot b) st" "total_ok b" using u ok len by (auto simp: c split: if_splits)
    show "claimed b \<subseteq> {base..<disp}" using u ok[of u b] ok[OF t(1)] by (cases "u = t") (auto simp: c)
    show "claimed b \<inter> fst ` set dl' = {}"
    proof (cases "u = t")
      case True
      then have b: "claimed b = {Suc i..<tot}" using u by (auto simp: c)
      have "claimed (Dispatching msgs i tot) \<inter> fst ` set dl = {}" using ok[OF t(1)] by blast
      then have "{i..<tot} \<inter> fst ` set dl = {}" unfolding claimed.simps .
      moreover have "{Suc i..<tot} \<subseteq> {i..<tot}" "i \<notin> {Suc i..<tot}" by auto
      ultimately have "{Suc i..<tot} \<inter> fst ` set dl = {}" "{Suc i..<tot} \<inter> insert i (fst ` set dl) = {}" by blast+
      then show ?thesis unfolding b D by presburger
    next
      case False
      then have "cs u = Some b" using u by simp
      then show ?thesis using ok[of u b] others[OF False] unfolding D by auto
    qed
  next
    fix u v a b assume uv: "u \<noteq> v" "(cs(t \<mapsto> c)) u = Some a" "(cs(t \<mapsto> c)) v = Some b"
    have sub: "\<exists>b'. cs w = Some b' \<and> claimed x \<subseteq> claimed b'" if "(cs(t \<mapsto> c)) w = Some x" for w x
      using that t(1) by (cases "w = t") (auto simp: c)
    obtain a' b' where "cs u = Some a'" "claimed a \<subseteq> claimed a'" "cs v = Some b'" "claimed b \<subseteq> claimed b'"
      using sub[OF uv(2)] sub[OF uv(3)] by blast
    then show "claimed a \<inter> claimed b = {}" using dj[OF uv(1)] by blast
  qed
  moreover have "covered opKey base st disp (fst ` set dl') (cs(t \<mapsto> c))"
    unfolding covered_def
  proof (intro allI impI)
    fix j assume j: "base \<le> j" "j < disp"
    show "ownRecord opKey (st ! j) \<or> j \<in> fst ` set dl' \<or> (\<exists>u b. (cs(t \<mapsto> c)) u = Some b \<and> j \<in> claimed b)"
    proof (cases "j = i")
      case True
      then show ?thesis by (simp add: D)
    next
      case False
      have alt: "ownRecord opKey (st ! j) \<or> j \<in> fst ` set dl \<or> (\<exists>u b. cs u = Some b \<and> j \<in> claimed b)"
        using cov j unfolding covered_def by simp
      have "\<exists>v b'. (cs(t \<mapsto> c)) v = Some b' \<and> j \<in> claimed b'" if ub: "cs u = Some b" "j \<in> claimed b" for u b
      proof (cases "u = t")
        case True
        then have "j \<in> claimed c" using ub t(1) False by (auto simp: c)
        then show ?thesis by (intro exI[of _ t] exI[of _ c]) simp
      next
        case False
        then show ?thesis using ub by (intro exI[of _ u] exI[of _ b]) simp
      qed
      moreover have "fst ` set dl \<subseteq> fst ` set dl'" unfolding D by (simp add: subset_insertI)
      ultimately show ?thesis using alt by blast
    qed
  qed
  ultimately show ?thesis by blast
qed

lemma drop_caller:
  assumes "callers_ok base st disp D cs" "covered opKey base st disp D cs" "cs t = Some c" "claimed c = {}"
  shows "callers_ok base st disp D (cs(t := None)) \<and> covered opKey base st disp D (cs(t := None))"
proof
  show "callers_ok base st disp D (cs(t := None))" using assms(1) unfolding callers_ok_def by simp
  show "covered opKey base st disp D (cs(t := None))"
    unfolding covered_def
  proof (intro allI impI)
    fix i assume "base \<le> i" "i < disp"
    then have "ownRecord opKey (st ! i) \<or> i \<in> D \<or> (\<exists>u b. cs u = Some b \<and> i \<in> claimed b)"
      using assms(2) unfolding covered_def by simp
    moreover have "u \<noteq> t" if "cs u = Some b" "i \<in> claimed b" for u b using that assms(3,4) by (cases "u = t") auto
    ultimately show "ownRecord opKey (st ! i) \<or> i \<in> D \<or> (\<exists>u b. (cs(t := None)) u = Some b \<and> i \<in> claimed b)"
      by (metis fun_upd_other)
  qed
qed

section \<open>Every step keeps the invariant\<close>

lemma index_frame [simp]: "store (indexLocalMessages ms s) = store s" "localSeen (indexLocalMessages ms s) = localSeen s"
  "localDispatched (indexLocalMessages ms s) = localDispatched s" "foldLog (indexLocalMessages ms s) = foldLog s"
  "dispatchLog (indexLocalMessages ms s) = dispatchLog s" "callers (indexLocalMessages ms s) = callers s"
  by (simp_all add: indexLocalMessages_def)

lemma claimDispatchGap_frame: "claimDispatchGap n s = (d, s') \<Longrightarrow> d = localDispatched s \<and> localDispatched s' = max (localDispatched s) n
    \<and> store s' = store s \<and> localSeen s' = localSeen s \<and> dispatchLog s' = dispatchLog s \<and> callers s' = callers s"
  by (auto simp: claimDispatchGap_def)

lemma claimSnapshot_frame:
  assumes "claimSnapshot msgs s = (c, s')" "is_prefix msgs (store s)" "localSeen s \<le> length (store s)"
  shows "claimed c = {localDispatched s..<length msgs} \<and> snapshot c = msgs \<and> total_ok c \<and> localDispatched s' = max (localDispatched s) (length msgs)
    \<and> store s' = store s \<and> localSeen s' \<le> length (store s') \<and> dispatchLog s' = dispatchLog s \<and> callers s' = callers s"
  using assms is_prefix_length[OF assms(2)]
  by (auto simp: claimSnapshot_def Let_def split: prod.splits if_splits dest!: claimDispatchGap_frame)

lemma rebuildSnapshot_frame:
  assumes "rebuildSnapshot msgs s = (c, s')" "is_prefix msgs (store s)" "localSeen s \<le> length (store s)"
  shows "claimed c = {localDispatched s..<length msgs} \<and> snapshot c = msgs \<and> total_ok c \<and> localDispatched s' = max (localDispatched s) (length msgs)
    \<and> store s' = store s \<and> localSeen s' \<le> length (store s') \<and> dispatchLog s' = dispatchLog s \<and> callers s' = callers s"
  using assms is_prefix_length[OF assms(2)]
  by (auto simp: rebuildSnapshot_def Let_def split: prod.splits if_splits dest!: claimDispatchGap_frame)

lemma IngestLocalRecord_frame:
  assumes "IngestLocalRecord rec others s = Some (c, s')" "localSeen s \<le> length (store s)"
  shows "claimed c = {localDispatched s..<length (store s')} \<and> snapshot c = store s' \<and> total_ok c
    \<and> localDispatched s' = max (localDispatched s) (length (store s'))
    \<and> store s' = store s @ rec # others \<and> localSeen s' \<le> length (store s') \<and> dispatchLog s' = dispatchLog s \<and> callers s' = callers s"
  using assms by (auto simp: IngestLocalRecord_def Let_def split: prod.splits if_splits dest!: claimDispatchGap_frame)

lemma poll_step_ok:
  assumes "poll_step opKey s s'" "claims_ok opKey base s"
  shows "claims_ok opKey base s'"
  using assms
proof cases
  case (emit m)
  then show ?thesis using assms(2) grow_log[of opKey base "store s" _ _ _ _ "[m]"]
    by (auto simp: claims_ok_def appendLocalRecord_def split: if_splits)
next
  case (intake ms)
  then show ?thesis using assms(2) grow_log[of opKey base "store s" _ _ _ _ ms]
    by (auto simp: claims_ok_def BatchAppend_def split: if_splits)
next
  case (poll_read t)
  then show ?thesis using assms(2) same_claim[of base "store s" _ _ "callers s" opKey "PollSnap (store s)" t]
    by (simp add: claims_ok_def)
next
  case (rebuild_read t)
  then show ?thesis using assms(2) same_claim[of base "store s" _ _ "callers s" opKey "RebuildSnap (store s)" t]
    by (simp add: claims_ok_def)
next
  case (poll_claim t msgs c u)
  then have p: "is_prefix msgs (store s)" using assms(2) unfolding claims_ok_def callers_ok_def by force
  have "localSeen s \<le> length (store s)" using assms(2) by (simp add: claims_ok_def)
  note f = claimSnapshot_frame[OF poll_claim(3) p this]
  then have "localSeen u \<le> length (store s)" by auto
  note f = f this
  show ?thesis using assms(2) f p poll_claim(1,2) new_claim[of opKey base "store s" "localDispatched s" "dispatchLog s" "callers s" c t]
    by (simp add: claims_ok_def)
next
  case (rebuild_claim t msgs c u)
  then have p: "is_prefix msgs (store s)" using assms(2) unfolding claims_ok_def callers_ok_def by force
  have "localSeen s \<le> length (store s)" using assms(2) by (simp add: claims_ok_def)
  note f = rebuildSnapshot_frame[OF rebuild_claim(3) p this]
  then have "localSeen u \<le> length (store s)" by auto
  note f = f this
  show ?thesis using assms(2) f p rebuild_claim(1,2) new_claim[of opKey base "store s" "localDispatched s" "dispatchLog s" "callers s" c t]
    by (simp add: claims_ok_def)
next
  case (ingest t others rec c u)
  have "localSeen s \<le> length (store s)" using assms(2) by (simp add: claims_ok_def)
  note f = IngestLocalRecord_frame[OF ingest(4) this]
  then have "localSeen u \<le> length (store s @ rec # others)" by auto
  note f = f this
  have g: "dispatched_ok opKey base (store u) (localDispatched s) (dispatchLog s)
    \<and> callers_ok base (store u) (localDispatched s) (fst ` set (dispatchLog s)) (callers s)
    \<and> covered opKey base (store u) (localDispatched s) (fst ` set (dispatchLog s)) (callers s)"
    using assms(2) f grow_log[of opKey base "store s" _ _ _ _ "rec # others"] by (auto simp: claims_ok_def)
  show ?thesis using f g ingest(1,2) new_claim[of opKey base "store u" "localDispatched s" "dispatchLog s" "callers s" c t]
    by (simp add: claims_ok_def)
next
  case (poll_fold t msgs i d tot)
  have "is_prefix msgs (store s)" "tot = length msgs" using assms(2) poll_fold(2) unfolding claims_ok_def callers_ok_def by force+
  then show ?thesis using assms(2) poll_fold same_claim[of base "store s" _ _ "callers s" opKey "Folding msgs (Suc i) d tot" t]
    by (simp add: claims_ok_def)
next
  case (poll_folded t msgs i d tot)
  have "is_prefix msgs (store s)" "tot = length msgs" using assms(2) poll_folded(2) unfolding claims_ok_def callers_ok_def by force+
  then show ?thesis using assms(2) poll_folded same_claim[of base "store s" _ _ "callers s" opKey "Dispatching msgs d tot" t]
    by (simp add: claims_ok_def)
next
  case (dispatch t msgs i tot)
  have parts: "dispatched_ok opKey base (store s) (localDispatched s) (dispatchLog s)"
    "callers_ok base (store s) (localDispatched s) (fst ` set (dispatchLog s)) (callers s)"
    "covered opKey base (store s) (localDispatched s) (fst ` set (dispatchLog s)) (callers s)"
    using assms(2) by (simp_all add: claims_ok_def)
  note step = dispatch_claim[OF parts dispatch(2,3) refl refl]
  have dl: "dispatchLog s' = (if ownRecord opKey (msgs ! i) then dispatchLog s else dispatchLog s @ [(i, msgs ! i)])"
    and rest: "store s' = store s" "localSeen s' = localSeen s" "localDispatched s' = localDispatched s"
      "callers s' = (callers s)(t \<mapsto> Dispatching msgs (Suc i) tot)"
    unfolding dispatch(1) dispatchOne_def ownRecord_def by simp_all
  have "localSeen s \<le> length (store s)" using assms(2) by (simp add: claims_ok_def)
  then show ?thesis using step unfolding claims_ok_def dl rest by blast
next
  case (finish t msgs i tot)
  then show ?thesis using assms(2) drop_caller[of base "store s" _ _ "callers s" opKey t "Dispatching msgs i tot"]
    by (simp add: claims_ok_def)
qed

lemma poll_reach_ok: "poll_reach opKey log0 s \<Longrightarrow> claims_ok opKey (length log0) s"
proof (induction rule: poll_reach.induct)
  case start
  show ?case by (simp add: claims_ok_def poll_start_def dispatched_ok_def callers_ok_def covered_def)
next
  case (step s s')
  then show ?case using poll_step_ok by blast
qed

lemma idle_done:
  assumes "poll_reach opKey log0 s" "callers s = Map.empty"
  shows "fst ` set (dispatchLog s) = {i. length log0 \<le> i \<and> i < localDispatched s \<and> \<not> ownRecord opKey (store s ! i)}"
proof
  have ok: "claims_ok opKey (length log0) s" by (rule poll_reach_ok[OF assms(1)])
  then show "fst ` set (dispatchLog s) \<subseteq> {i. length log0 \<le> i \<and> i < localDispatched s \<and> \<not> ownRecord opKey (store s ! i)}"
    unfolding claims_ok_def dispatched_ok_def by force
  show "{i. length log0 \<le> i \<and> i < localDispatched s \<and> \<not> ownRecord opKey (store s ! i)} \<subseteq> fst ` set (dispatchLog s)"
    using ok assms(2) unfolding claims_ok_def covered_def by auto
qed

text \<open>
  C16: every record is dispatched exactly once. However the poll loop, the rebuilds and the client ingests
  interleave, and whatever snapshots they hold, no position of the log is dispatched twice, only records that
  arrived after the start and that the operator did not write are dispatched, each as it stands in the log; and
  when no caller is in flight, every such record below the dispatch cursor has been dispatched.
\<close>

theorem dispatched_exactly_once:
  assumes "poll_reach opKey log0 s"
  shows "distinct (map fst (dispatchLog s))
    \<and> list_all (\<lambda>(i, m). length log0 \<le> i \<and> i < localDispatched s \<and> m = store s ! i \<and> \<not> ownRecord opKey m) (dispatchLog s)
    \<and> (callers s = Map.empty \<longrightarrow>
        fst ` set (dispatchLog s) = {i. length log0 \<le> i \<and> i < localDispatched s \<and> \<not> ownRecord opKey (store s ! i)})"
proof -
  have d: "dispatched_ok opKey (length log0) (store s) (localDispatched s) (dispatchLog s)"
    using poll_reach_ok[OF assms] by (simp add: claims_ok_def)
  then have "distinct (map fst (dispatchLog s))"
    "list_all (\<lambda>(i, m). length log0 \<le> i \<and> i < localDispatched s \<and> m = store s ! i \<and> \<not> ownRecord opKey m) (dispatchLog s)"
    by (simp_all add: dispatched_ok_def list_all_iff)
  then show ?thesis using idle_done[OF assms] by blast
qed

section \<open>A poll on its own\<close>

definition foldGap :: "message list \<Rightarrow> nat \<Rightarrow> nat \<Rightarrow> poll_state \<Rightarrow> poll_state" where
  "foldGap msgs start tot s = foldl (\<lambda>s i. s\<lparr>foldLog := foldLog s @ [FoldApply (msgs ! i)]\<rparr>) s [start..<tot]"

definition dispatchLocalGap :: "string \<Rightarrow> message list \<Rightarrow> nat \<Rightarrow> nat \<Rightarrow> poll_state \<Rightarrow> poll_state" where
  "dispatchLocalGap opKey msgs start tot s = foldl (\<lambda>s i. dispatchOne opKey msgs i s) s [start..<tot]"

definition pollLocalStore :: "string \<Rightarrow> poll_state \<Rightarrow> poll_state" where
  "pollLocalStore opKey s = (case claimSnapshot (store s) s of (c, s1) \<Rightarrow>
     (case c of Folding msgs i d tot \<Rightarrow> dispatchLocalGap opKey msgs d tot (foldGap msgs i tot s1) | _ \<Rightarrow> s1))"

lemma caller_gone [simp]: "(s\<lparr>callers := c\<rparr>)\<lparr>callers := c'\<rparr> = s\<lparr>callers := c'\<rparr>"
  by simp

lemma run_fold:
  assumes "poll_reach opKey log0 (put_caller t (Folding msgs i d tot) s)" "callers s = Map.empty"
  shows "poll_reach opKey log0 (put_caller t (Dispatching msgs d tot) (foldGap msgs i tot s))"
  using assms
proof (induction "tot - i" arbitrary: i s)
  case 0
  then have "poll_step opKey (put_caller t (Folding msgs i d tot) s) (put_caller t (Dispatching msgs d tot) (put_caller t (Folding msgs i d tot) s))"
    by (intro poll_step.poll_folded) auto
  note poll_reach.step[OF 0(2) this]
  moreover have "put_caller t (Dispatching msgs d tot) (put_caller t (Folding msgs i d tot) s) = put_caller t (Dispatching msgs d tot) s" by simp
  moreover have "foldGap msgs i tot s = s" using 0(1) by (simp add: foldGap_def)
  ultimately show ?case by metis
next
  case (Suc n)
  let ?s = "s\<lparr>foldLog := foldLog s @ [FoldApply (msgs ! i)]\<rparr>"
  have i: "i < tot" using Suc(2) by simp
  have "poll_step opKey (put_caller t (Folding msgs i d tot) s) (put_caller t (Folding msgs (Suc i) d tot)
      (put_caller t (Folding msgs i d tot) s\<lparr>foldLog := foldLog (put_caller t (Folding msgs i d tot) s) @ [FoldApply (msgs ! i)]\<rparr>))"
    by (rule poll_step.poll_fold) (use i in simp_all)
  then have "poll_reach opKey log0 (put_caller t (Folding msgs (Suc i) d tot) ?s)"
    using poll_reach.step[OF Suc(3)] Suc(4) by simp
  from Suc(1)[OF _ this] Suc(2,4) show ?case using i by (simp add: foldGap_def upt_conv_Cons)
qed

lemma dispatchOne_callers: "dispatchOne opKey msgs i (s\<lparr>callers := cs\<rparr>) = (dispatchOne opKey msgs i s)\<lparr>callers := cs\<rparr>"
  "callers (dispatchOne opKey msgs i s) = callers s"
  by (simp_all add: dispatchOne_def)

lemma run_dispatch:
  assumes "poll_reach opKey log0 (put_caller t (Dispatching msgs i tot) s)" "callers s = Map.empty"
  shows "poll_reach opKey log0 (dispatchLocalGap opKey msgs i tot s) \<and> callers (dispatchLocalGap opKey msgs i tot s) = Map.empty"
  using assms
proof (induction "tot - i" arbitrary: i s)
  case 0
  let ?p = "put_caller t (Dispatching msgs i tot) s"
  have "poll_step opKey ?p (?p\<lparr>callers := (callers ?p)(t := None)\<rparr>)" by (rule poll_step.finish) (use 0 in simp_all)
  moreover have "?p\<lparr>callers := (callers ?p)(t := None)\<rparr> = s" using 0(3) by (cases s) simp
  ultimately have "poll_reach opKey log0 s" using poll_reach.step[OF 0(2)] by metis
  then show ?case using 0 by (simp add: dispatchLocalGap_def)
next
  case (Suc n)
  let ?p = "put_caller t (Dispatching msgs i tot) s"
  have i: "i < tot" using Suc(2) by simp
  have "poll_step opKey ?p (put_caller t (Dispatching msgs (Suc i) tot) (dispatchOne opKey msgs i ?p))"
    by (rule poll_step.dispatch) (use i in simp_all)
  then have "poll_reach opKey log0 (put_caller t (Dispatching msgs (Suc i) tot) (dispatchOne opKey msgs i s))"
    using poll_reach.step[OF Suc(3)] Suc(4) by (simp add: dispatchOne_callers)
  from Suc(1)[OF _ this] Suc(2,4) show ?case using i by (simp add: dispatchLocalGap_def upt_conv_Cons dispatchOne_callers)
qed

lemma foldGap_frame: "store (foldGap msgs i tot s) = store s \<and> localDispatched (foldGap msgs i tot s) = localDispatched s
    \<and> callers (foldGap msgs i tot s) = callers s"
proof -
  have "store (foldl (\<lambda>s i. s\<lparr>foldLog := foldLog s @ [FoldApply (msgs ! i)]\<rparr>) s is) = store s
    \<and> localDispatched (foldl (\<lambda>s i. s\<lparr>foldLog := foldLog s @ [FoldApply (msgs ! i)]\<rparr>) s is) = localDispatched s
    \<and> callers (foldl (\<lambda>s i. s\<lparr>foldLog := foldLog s @ [FoldApply (msgs ! i)]\<rparr>) s is) = callers s" for "is"
    by (induction "is" arbitrary: s) auto
  then show ?thesis by (simp add: foldGap_def)
qed

lemma dispatchLocalGap_frame: "store (dispatchLocalGap opKey msgs i tot s) = store s
    \<and> localDispatched (dispatchLocalGap opKey msgs i tot s) = localDispatched s"
proof -
  have "store (foldl (\<lambda>s i. dispatchOne opKey msgs i s) s is) = store s
    \<and> localDispatched (foldl (\<lambda>s i. dispatchOne opKey msgs i s) s is) = localDispatched s" for "is"
    by (induction "is" arbitrary: s) (auto simp: dispatchOne_def)
  then show ?thesis by (simp add: dispatchLocalGap_def)
qed

lemma poll_alone:
  assumes r: "poll_reach opKey log0 s" and idle: "callers s = Map.empty"
  shows "poll_reach opKey log0 (pollLocalStore opKey s) \<and> callers (pollLocalStore opKey s) = Map.empty
    \<and> store (pollLocalStore opKey s) = store s \<and> localDispatched (pollLocalStore opKey s) = length (store s)"
proof -
  obtain c u where cl: "claimSnapshot (store s) s = (c, u)" by fastforce
  then obtain i d tot where c: "c = Folding (store s) i d tot"
    by (auto simp: claimSnapshot_def Let_def split: prod.splits)
  have ok: "claims_ok opKey (length log0) s" by (rule poll_reach_ok[OF r])
  then have len: "localSeen s \<le> length (store s)" "localDispatched s \<le> length (store s)" by (simp_all add: claims_ok_def dispatched_ok_def)
  note f = claimSnapshot_frame[OF cl is_prefix_refl len(1)]
  let ?p = "put_caller 0 (PollSnap (store s)) s"
  have 1: "poll_reach opKey log0 ?p" by (rule poll_reach.step[OF r poll_step.poll_read]) (simp add: idle)
  have cp: "claimSnapshot (store s) ?p = (c, u\<lparr>callers := callers ?p\<rparr>)"
    using cl by (auto simp: claimSnapshot_def Let_def claimDispatchGap_def indexLocalMessages_def split: prod.splits if_splits)
  have "poll_reach opKey log0 (put_caller 0 c (u\<lparr>callers := callers ?p\<rparr>))"
    by (rule poll_reach.step[OF 1 poll_step.poll_claim[OF _ cp]]) simp
  moreover have cu: "callers u = Map.empty" using f idle by simp
  ultimately have "poll_reach opKey log0 (put_caller 0 (Folding (store s) i d tot) u)" by (simp add: c idle)
  from run_fold[OF this cu] have "poll_reach opKey log0 (put_caller 0 (Dispatching (store s) d tot) (foldGap (store s) i tot u))" .
  from run_dispatch[OF this] have "poll_reach opKey log0 (dispatchLocalGap opKey (store s) d tot (foldGap (store s) i tot u))
      \<and> callers (dispatchLocalGap opKey (store s) d tot (foldGap (store s) i tot u)) = Map.empty"
    using foldGap_frame cu by simp
  then show ?thesis using f len(2) by (simp add: pollLocalStore_def cl c dispatchLocalGap_frame foldGap_frame)
qed

text \<open>A log that starts empty, an operator record and a client record, the poll that claims them.\<close>

definition pollMsg :: "string \<Rightarrow> string \<Rightarrow> message" where
  "pollMsg i k = \<lparr>ID = i, Sender = k, Payload = None, Tags = [], Antecedents = [], Timestamp = 1, Instance = []\<rparr>"

definition pollIntake :: poll_state where
  "pollIntake = (poll_start [])\<lparr>store := [pollMsg ''a'' ''op'', pollMsg ''b'' ''buyer'']\<rparr>"

lemma pollIntake_reach: "poll_reach ''op'' [] pollIntake"
proof -
  have "poll_step ''op'' (poll_start []) pollIntake"
    by (rule poll_step.intake[of "[pollMsg ''a'' ''op'', pollMsg ''b'' ''buyer'']"])
      (simp add: BatchAppend_def pollIntake_def poll_start_def indexLocalMessages_def pollMsg_def)
  then show ?thesis by (rule poll_reach.step[OF poll_reach.start])
qed

lemma dispatched_exactly_once_witness:
  "poll_reach ''op'' [] (pollLocalStore ''op'' pollIntake) \<and> distinct (map fst (dispatchLog (pollLocalStore ''op'' pollIntake)))
    \<and> dispatchLog (pollLocalStore ''op'' pollIntake) = [(1, pollMsg ''b'' ''buyer'')]"
proof -
  have "callers pollIntake = Map.empty" by (simp add: pollIntake_def poll_start_def)
  then have r: "poll_reach ''op'' [] (pollLocalStore ''op'' pollIntake)" using poll_alone[OF pollIntake_reach] by blast
  have "dispatchLog (pollLocalStore ''op'' pollIntake) = [(1, pollMsg ''b'' ''buyer'')]"
    by (simp add: pollLocalStore_def claimSnapshot_def claimDispatchGap_def dispatchLocalGap_def foldGap_def dispatchOne_def
      pollIntake_def poll_start_def indexLocalMessages_def pollMsg_def upt_rec)
  then show ?thesis using r dispatched_exactly_once[OF r] by blast
qed

text \<open>
  C17: a poll catches up. Started when no other caller is in flight, it leaves the dispatch cursor at the end of
  the log and every record since the start that the operator did not write has been dispatched.
\<close>

theorem poll_catches_up:
  assumes "poll_reach opKey log0 s" and "callers s = Map.empty"
  shows "fst ` set (dispatchLog (pollLocalStore opKey s))
      = {i. length log0 \<le> i \<and> i < length (store s) \<and> \<not> ownRecord opKey (store s ! i)}
    \<and> localDispatched (pollLocalStore opKey s) = length (store s)"
proof -
  note p = poll_alone[OF assms]
  then show ?thesis using idle_done[of opKey log0 "pollLocalStore opKey s"] by simp
qed

lemma poll_catches_up_witness:
  "callers pollIntake = Map.empty \<and> localDispatched (pollLocalStore ''op'' pollIntake) = length (store pollIntake)"
proof -
  have c: "callers pollIntake = Map.empty" by (simp add: pollIntake_def poll_start_def)
  then show ?thesis using poll_catches_up[OF pollIntake_reach c] by simp
qed

text \<open>
  The fold of a poll runs outside the lock, so it can be overtaken: an ingest that claims the next position folds
  it under the lock while the poll still holds the one before, and State sees the two in the wrong order.
\<close>

lemma fold_order_race:
  "\<exists>s. poll_reach [] [] s \<and> store s = [pollMsg ''a'' ''x'', pollMsg ''b'' ''y'']
    \<and> foldLog s = [FoldReplay [], FoldApply (pollMsg ''b'' ''y''), FoldApply (pollMsg ''a'' ''x'')]"
proof -
  define a b where "a = pollMsg ''a'' ''x''" and "b = pollMsg ''b'' ''y''"
  have ids: "ID a \<noteq> []" "ID b \<noteq> []" by (simp_all add: a_def b_def pollMsg_def)
  let ?s1 = "(poll_start [])\<lparr>store := [a], localMsgByID := (localMsgByID (poll_start []))(ID a \<mapsto> a)\<rparr>"
  have 1: "poll_reach [] [] ?s1"
    by (rule poll_reach.step[OF poll_reach.start poll_step.emit[of a]]) (simp add: appendLocalRecord_def ids poll_start_def)
  have 2: "poll_reach [] [] (put_caller 0 (PollSnap (store ?s1)) ?s1)"
    by (rule poll_reach.step[OF 1 poll_step.poll_read]) (simp add: poll_start_def)
  obtain c3 s3 where c3: "claimSnapshot [a] (put_caller 0 (PollSnap (store ?s1)) ?s1) = (c3, s3)" by fastforce
  have 3: "poll_reach [] [] (put_caller 0 c3 s3)" by (rule poll_reach.step[OF 2 poll_step.poll_claim[OF _ c3]]) simp
  have s3: "c3 = Folding [a] 0 0 1" "store s3 = [a]" "localSeen s3 = 1" "localDispatched s3 = 1" "foldLog s3 = [FoldReplay []]"
    "callers s3 = [0 \<mapsto> PollSnap [a]]"
    using c3 by (auto simp: claimSnapshot_def claimDispatchGap_def poll_start_def Let_def indexLocalMessages_def)
  obtain c4 s4 where c4: "IngestLocalRecord b [] (put_caller 0 c3 s3) = Some (c4, s4)"
    using ids by (simp add: IngestLocalRecord_def Let_def claimDispatchGap_def)
  have 4: "poll_reach [] [] (put_caller 1 c4 s4)"
    by (rule poll_reach.step[OF 3 poll_step.ingest[OF _ _ c4]]) (simp_all add: s3)
  have s4: "store s4 = [a, b]" "foldLog s4 = [FoldReplay [], FoldApply b]" "callers s4 = callers (put_caller 0 c3 s3)"
    using c4 s3 ids by (auto simp: IngestLocalRecord_def claimDispatchGap_def Let_def indexLocalMessages_def)
  have "callers (put_caller 1 c4 s4) 0 = Some (Folding [a] 0 0 1)" by (simp add: s4 s3)
  from poll_reach.step[OF 4 poll_step.poll_fold[OF this]]
  have "poll_reach [] [] (put_caller 0 (Folding [a] (Suc 0) 0 1) (put_caller 1 c4 s4\<lparr>foldLog := foldLog (put_caller 1 c4 s4) @ [FoldApply ([a] ! 0)]\<rparr>))"
    by simp
  moreover have "store (put_caller 0 (Folding [a] (Suc 0) 0 1) (put_caller 1 c4 s4\<lparr>foldLog := foldLog (put_caller 1 c4 s4) @ [FoldApply ([a] ! 0)]\<rparr>)) = [a, b]"
    "foldLog (put_caller 0 (Folding [a] (Suc 0) 0 1) (put_caller 1 c4 s4\<lparr>foldLog := foldLog (put_caller 1 c4 s4) @ [FoldApply ([a] ! 0)]\<rparr>))
      = [FoldReplay [], FoldApply b, FoldApply a]" by (simp_all add: s4)
  ultimately show ?thesis unfolding a_def b_def by blast
qed

end
