(* ===== verification/Scrip_Ledger.thy ===== *)
theory Scrip_Ledger
  imports Message
begin

text \<open>
  The scrip ledger, \<open>LocalScripStore\<close> of \<open>pkg/scrip/relay_store.go\<close>: balances with ETags, loans,
  reservations and supply counters, rebuilt by \<open>Replay\<close> from the scrip messages of the local log,
  advanced by \<open>ApplyMessage\<close>, and read and written through the \<open>SpendingStore\<close> operations.
  Each call of a method is one atomic step here (\<open>Replay\<close> excludes every message with \<open>replayMu\<close>);
  interleavings of two concurrent calls inside their bodies are not modelled.
\<close>

section \<open>State\<close>

datatype scrip_err = ErrBudgetExceeded | ErrConflict | ErrReservationNotFound

record Reservation =
  r_ID :: string
  r_AgentKey :: string
  r_RK :: string
  r_ETag :: string
  r_Amount :: i64
  r_CreatedAt :: gtime

datatype LoanStatus = LoanActive | LoanRepaid | LoanDefaulted

record LoanRecord =
  LoanID :: string
  BorrowerKey :: string
  Principal :: i64
  VigRateBPS :: i64
  DueAt :: gtime
  Repaid :: i64
  Outstanding :: i64
  SettlementMsgID :: string
  CommitmentID :: string
  loanStatus :: LoanStatus

record balanceEntry =
  val :: i64
  gen :: u64
  epoch :: u64

definition etag :: "balanceEntry \<Rightarrow> string" where
  "etag e = show_nat (epoch e) @ ''-'' @ show_nat (gen e)"

text \<open>\<open>loans\<close> is an association list because \<open>TotalOutstandingVig\<close> ranges over it.\<close>

record ledger =
  scripOperatorKey :: string
  balances :: "string \<rightharpoonup> balanceEntry"
  reservations :: "string \<rightharpoonup> Reservation"
  seenMsgIDs :: "string set"
  replayEpoch :: u64
  scripReplaying :: bool
  totalSupply :: i64
  totalBurned :: i64
  totalLoanPrincipal :: i64
  loans :: "(string \<times> LoanRecord) list"
  loansByBorrower :: "string \<rightharpoonup> string list"

section \<open>Balance helpers\<close>

definition entryOrNew :: "ledger \<Rightarrow> string \<Rightarrow> balanceEntry" where
  "entryOrNew s k = (case balances s k of
     Some e \<Rightarrow> e | None \<Rightarrow> \<lparr>val = 0, gen = 0, epoch = replayEpoch s\<rparr>)"

definition addToBalance :: "ledger \<Rightarrow> string \<Rightarrow> i64 \<Rightarrow> ledger" where
  "addToBalance s agentKey amount =
     (let e = entryOrNew s agentKey
      in s\<lparr>balances := (balances s)(agentKey \<mapsto>
            e\<lparr>val := wrap64 (val e + amount), gen := uadd64 (gen e) 1\<rparr>)\<rparr>)"

text \<open>The second component is \<open>err == nil\<close>; a rejected subtraction still creates the entry.\<close>

definition subtractFromBalance :: "ledger \<Rightarrow> string \<Rightarrow> i64 \<Rightarrow> ledger \<times> bool" where
  "subtractFromBalance s agentKey amount =
     (let e = entryOrNew s agentKey;
          s1 = s\<lparr>balances := (balances s)(agentKey \<mapsto> e)\<rparr>;
          newVal = wrap64 (val e - amount)
      in if \<not> scripReplaying s \<and> newVal < 0 then (s1, False)
         else (s1\<lparr>balances := (balances s1)(agentKey \<mapsto>
                 e\<lparr>val := newVal, gen := uadd64 (gen e) 1\<rparr>)\<rparr>, True))"

section \<open>Payloads\<close>

record AmountPayload =
  p_Key :: string
  p_Amount :: i64

definition amountZero :: AmountPayload where
  "amountZero = \<lparr>p_Key = '''', p_Amount = 0\<rparr>"

definition amountFields :: "string \<Rightarrow> AmountPayload fields" where
  "amountFields key = [(key, on_field dec_string p_Key p_Key_update),
     (''amount'', on_field dec_i64 p_Amount p_Amount_update)]"

definition burnFields :: "AmountPayload fields" where
  "burnFields = [(''amount'', on_field dec_i64 p_Amount p_Amount_update)]"

record SettlePayload =
  sp_Seller :: string
  sp_Residual :: i64
  sp_FeeBurned :: i64
  sp_ExchangeRevenue :: i64

definition settleZero :: SettlePayload where
  "settleZero = \<lparr>sp_Seller = '''', sp_Residual = 0, sp_FeeBurned = 0, sp_ExchangeRevenue = 0\<rparr>"

definition settleFields :: "SettlePayload fields" where
  "settleFields = [(''seller'', on_field dec_string sp_Seller sp_Seller_update),
     (''residual'', on_field dec_i64 sp_Residual sp_Residual_update),
     (''fee_burned'', on_field dec_i64 sp_FeeBurned sp_FeeBurned_update),
     (''exchange_revenue'', on_field dec_i64 sp_ExchangeRevenue sp_ExchangeRevenue_update)]"

record LoanMintPayload =
  lm_Borrower :: string
  lm_Principal :: i64
  lm_VigRateBPS :: i64
  lm_DueAt :: string
  lm_LoanID :: string
  lm_SettlementMsgID :: string
  lm_CommitmentTokenID :: string

definition loanMintZero :: LoanMintPayload where
  "loanMintZero = \<lparr>lm_Borrower = '''', lm_Principal = 0, lm_VigRateBPS = 0, lm_DueAt = '''',
     lm_LoanID = '''', lm_SettlementMsgID = '''', lm_CommitmentTokenID = ''''\<rparr>"

definition loanMintFields :: "LoanMintPayload fields" where
  "loanMintFields = [(''borrower'', on_field dec_string lm_Borrower lm_Borrower_update),
     (''principal'', on_field dec_i64 lm_Principal lm_Principal_update),
     (''vig_rate_bps'', on_field dec_i64 lm_VigRateBPS lm_VigRateBPS_update),
     (''due_at'', on_field dec_string lm_DueAt lm_DueAt_update),
     (''loan_id'', on_field dec_string lm_LoanID lm_LoanID_update),
     (''settlement_msg_id'', on_field dec_string lm_SettlementMsgID lm_SettlementMsgID_update),
     (''commitment_token_id'', on_field dec_string lm_CommitmentTokenID lm_CommitmentTokenID_update)]"

section \<open>Applying a message\<close>

definition applyMint :: "ledger \<Rightarrow> message \<Rightarrow> ledger" where
  "applyMint s msg = (case unmarshal (amountFields ''recipient'') (Payload msg) amountZero of (p, ok) \<Rightarrow>
     if \<not> ok \<or> p_Key p = '''' \<or> p_Amount p \<le> 0 then s
     else (addToBalance s (p_Key p) (p_Amount p))
            \<lparr>totalSupply := wrap64 (totalSupply s + p_Amount p)\<rparr>)"

definition applyBurn :: "ledger \<Rightarrow> message \<Rightarrow> ledger" where
  "applyBurn s msg = (case unmarshal burnFields (Payload msg) amountZero of (p, ok) \<Rightarrow>
     if \<not> ok \<or> p_Amount p \<le> 0 then s
     else s\<lparr>totalBurned := wrap64 (totalBurned s + p_Amount p)\<rparr>)"

text \<open>\<open>applyPutPay\<close> and \<open>applyAssignPay\<close> share their shape: the sender pays \<open>key\<close>.\<close>

definition applyPay :: "string \<Rightarrow> ledger \<Rightarrow> message \<Rightarrow> ledger" where
  "applyPay key s msg = (case unmarshal (amountFields key) (Payload msg) amountZero of (p, ok) \<Rightarrow>
     if \<not> ok \<or> p_Key p = '''' \<or> p_Amount p \<le> 0 then s
     else if Sender msg \<noteq> '''' then
       (case subtractFromBalance s (Sender msg) (p_Amount p) of (s1, paid) \<Rightarrow>
          if \<not> paid then s1 else addToBalance s1 (p_Key p) (p_Amount p))
     else addToBalance s (p_Key p) (p_Amount p))"

definition applyPutPay :: "ledger \<Rightarrow> message \<Rightarrow> ledger" where
  "applyPutPay = applyPay ''seller''"

definition applyAssignPay :: "ledger \<Rightarrow> message \<Rightarrow> ledger" where
  "applyAssignPay = applyPay ''worker''"

definition applyBuyHold :: "ledger \<Rightarrow> message \<Rightarrow> ledger" where
  "applyBuyHold s msg = (case unmarshal (amountFields ''buyer'') (Payload msg) amountZero of (p, ok) \<Rightarrow>
     if \<not> ok \<or> p_Key p = '''' \<or> p_Amount p \<le> 0 then s
     else fst (subtractFromBalance s (p_Key p) (p_Amount p)))"

definition applyScripSettle_ledger :: "ledger \<Rightarrow> message \<Rightarrow> ledger" where
  "applyScripSettle_ledger s msg = (case unmarshal settleFields (Payload msg) settleZero of (p, ok) \<Rightarrow>
     if \<not> ok then s
     else let s1 = (if sp_Seller p \<noteq> '''' \<and> sp_Residual p > 0
                    then addToBalance s (sp_Seller p) (sp_Residual p) else s)
          in (if Sender msg \<noteq> '''' \<and> sp_ExchangeRevenue p > 0
              then addToBalance s1 (Sender msg) (sp_ExchangeRevenue p) else s1))"

definition applyDisputeRefund :: "ledger \<Rightarrow> message \<Rightarrow> ledger" where
  "applyDisputeRefund s msg = (case unmarshal (amountFields ''buyer'') (Payload msg) amountZero of (p, ok) \<Rightarrow>
     if \<not> ok \<or> p_Key p = '''' \<or> p_Amount p \<le> 0 then s
     else addToBalance s (p_Key p) (p_Amount p))"

definition parseDueAt :: "string \<Rightarrow> gtime" where
  "parseDueAt d = (if d = '''' then zero_time
     else case parse_rfc3339 d of None \<Rightarrow> zero_time | Some t \<Rightarrow> t)"

definition newLoan :: "LoanMintPayload \<Rightarrow> LoanRecord" where
  "newLoan p = \<lparr>LoanID = lm_LoanID p, BorrowerKey = lm_Borrower p, Principal = lm_Principal p,
     VigRateBPS = lm_VigRateBPS p, DueAt = parseDueAt (lm_DueAt p), Repaid = 0, Outstanding = 0,
     SettlementMsgID = lm_SettlementMsgID p, CommitmentID = lm_CommitmentTokenID p,
     loanStatus = LoanActive\<rparr>"

definition applyLoanMint :: "ledger \<Rightarrow> message \<Rightarrow> ledger" where
  "applyLoanMint s msg = (case unmarshal loanMintFields (Payload msg) loanMintZero of (p, ok) \<Rightarrow>
     if \<not> ok \<or> lm_Borrower p = '''' \<or> lm_LoanID p = '''' \<or> lm_Principal p \<le> 0 then s
     else if map_of (loans s) (lm_LoanID p) \<noteq> None then s
     else (addToBalance
            (s\<lparr>loans := AList.update (lm_LoanID p) (newLoan p) (loans s),
               loansByBorrower := (loansByBorrower s)(lm_Borrower p \<mapsto>
                 getd [] (loansByBorrower s) (lm_Borrower p) @ [lm_LoanID p])\<rparr>)
            (lm_Borrower p) (lm_Principal p))
          \<lparr>totalSupply := wrap64 (totalSupply s + lm_Principal p),
           totalLoanPrincipal := wrap64 (totalLoanPrincipal s + lm_Principal p)\<rparr>)"

text \<open>The record after a repayment of \<open>amount\<close>.\<close>

definition repayLoan :: "LoanRecord \<Rightarrow> i64 \<Rightarrow> LoanRecord" where
  "repayLoan r amount =
     (let repaid = wrap64 (Repaid r + amount)
      in if repaid \<ge> Principal r
         then r\<lparr>Repaid := repaid, loanStatus := LoanRepaid, Outstanding := 0\<rparr>
         else r\<lparr>Repaid := repaid\<rparr>)"

definition applyLoanRepay :: "ledger \<Rightarrow> message \<Rightarrow> ledger" where
  "applyLoanRepay s msg = (case unmarshal (amountFields ''loan_id'') (Payload msg) amountZero of (p, ok) \<Rightarrow>
     if \<not> ok \<or> p_Key p = '''' \<or> p_Amount p \<le> 0 then s
     else (case map_of (loans s) (p_Key p) of
        None \<Rightarrow> s
      | Some record \<Rightarrow>
          if loanStatus record \<noteq> LoanActive then s
          else (case (if BorrowerKey record \<noteq> ''''
                      then subtractFromBalance s (BorrowerKey record) (p_Amount p) else (s, True)) of
            (s1, paid) \<Rightarrow>
              if \<not> paid then s1
              else (case map_of (loans s1) (p_Key p) of
                  None \<Rightarrow> s1
                | Some record1 \<Rightarrow>
                    if loanStatus record1 \<noteq> LoanActive then s1
                    else let record2 = repayLoan record1 (p_Amount p);
                             s2 = s1\<lparr>loans := AList.update (p_Key p) record2 (loans s1),
                                     totalSupply := wrap64 (totalSupply s1 - p_Amount p)\<rparr>
                         in if loanStatus record2 = LoanRepaid
                            then s2\<lparr>totalLoanPrincipal :=
                                   wrap64 (totalLoanPrincipal s2 - Principal record1)\<rparr>
                            else s2))))"

definition applyLoanVigAccrue :: "ledger \<Rightarrow> message \<Rightarrow> ledger" where
  "applyLoanVigAccrue s msg = (case unmarshal (amountFields ''loan_id'') (Payload msg) amountZero of (p, ok) \<Rightarrow>
     if \<not> ok \<or> p_Key p = '''' \<or> p_Amount p \<le> 0 then s
     else (case map_of (loans s) (p_Key p) of
        None \<Rightarrow> s
      | Some record \<Rightarrow>
          if loanStatus record \<noteq> LoanActive then s
          else s\<lparr>loans := AList.update (p_Key p)
                 (record\<lparr>Outstanding := wrap64 (Outstanding record + p_Amount p)\<rparr>) (loans s)\<rparr>))"

text \<open>The switch of \<open>applyMessage\<close>, after its three guards.\<close>

definition applyScripOp :: "string \<Rightarrow> ledger \<Rightarrow> message \<Rightarrow> ledger" where
  "applyScripOp op s msg =
     (if op = TagScripMint then applyMint s msg
      else if op = TagScripBurn then applyBurn s msg
      else if op = TagScripPutPay then applyPutPay s msg
      else if op = TagScripBuyHold then applyBuyHold s msg
      else if op = TagScripSettle then applyScripSettle_ledger s msg
      else if op = TagScripAssignPay then applyAssignPay s msg
      else if op = TagScripDisputeRefund then applyDisputeRefund s msg
      else if op = TagScripLoanMint then applyLoanMint s msg
      else if op = TagScripLoanRepay then applyLoanRepay s msg
      else if op = TagScripLoanVigAccrue then applyLoanVigAccrue s msg
      else s)"

text \<open>What a message that passes the guards is: its operation, or the empty string.\<close>

definition acceptedOp :: "string \<Rightarrow> message \<Rightarrow> string" where
  "acceptedOp opKey msg =
     (if scripOp (Tags msg) = '''' then ''''
      else if opKey \<noteq> '''' \<and> Sender msg \<noteq> opKey then ''''
      else scripOp (Tags msg))"

definition applyMessage :: "ledger \<Rightarrow> message \<Rightarrow> ledger" where
  "applyMessage s msg =
     (if ID msg \<in> seenMsgIDs s then s
      else let s1 = s\<lparr>seenMsgIDs := insert (ID msg) (seenMsgIDs s)\<rparr>;
               op = acceptedOp (scripOperatorKey s) msg
           in if op = '''' then s1 else applyScripOp op s1 msg)"

section \<open>Replay\<close>

definition resetLedger :: "ledger \<Rightarrow> ledger" where
  "resetLedger s = s\<lparr>replayEpoch := uadd64 (replayEpoch s) 1,
     balances := Map.empty, loans := [], loansByBorrower := Map.empty, seenMsgIDs := {},
     totalSupply := 0, totalBurned := 0, totalLoanPrincipal := 0\<rparr>"

text \<open>\<open>localStore.Replay()\<close> returns the log, or fails and leaves the ledger as it is.\<close>

definition scripReplay :: "ledger \<Rightarrow> message list option \<Rightarrow> ledger \<times> bool" where
  "scripReplay s log = (case log of
     None \<Rightarrow> (s, False)
   | Some msgs \<Rightarrow>
       ((foldl applyMessage ((resetLedger s)\<lparr>scripReplaying := True\<rparr>) msgs)\<lparr>scripReplaying := False\<rparr>, True))"

definition emptyLedger :: "string \<Rightarrow> ledger" where
  "emptyLedger opKey = \<lparr>scripOperatorKey = opKey, balances = Map.empty, reservations = Map.empty,
     seenMsgIDs = {}, replayEpoch = 0, scripReplaying = False, totalSupply = 0, totalBurned = 0,
     totalLoanPrincipal = 0, loans = [], loansByBorrower = Map.empty\<rparr>"

definition NewLocalScripStore :: "message list option \<Rightarrow> string \<Rightarrow> ledger option" where
  "NewLocalScripStore log opKey =
     (case scripReplay (emptyLedger opKey) log of (s, ok) \<Rightarrow> if ok then Some s else None)"

section \<open>SpendingStore operations\<close>

definition GetBudget :: "ledger \<Rightarrow> string \<Rightarrow> i64 \<times> string" where
  "GetBudget s pk = (case balances s pk of None \<Rightarrow> (0, '''') | Some e \<Rightarrow> (val e, etag e))"

definition DecrementBudget :: "ledger \<Rightarrow> string \<Rightarrow> i64 \<Rightarrow> string
    \<Rightarrow> ledger \<times> (scrip_err + i64 \<times> string)" where
  "DecrementBudget s pk amountMicro tag =
     (if tag = '''' then (s, Inl ErrConflict)
      else case balances s pk of
          None \<Rightarrow> (s, Inl ErrConflict)
        | Some e \<Rightarrow>
            if etag e \<noteq> tag then (s, Inl ErrConflict)
            else let newValue = wrap64 (val e - amountMicro)
                 in if newValue < 0 then (s, Inl ErrBudgetExceeded)
                    else let e' = e\<lparr>val := newValue, gen := uadd64 (gen e) 1\<rparr>
                         in (s\<lparr>balances := (balances s)(pk \<mapsto> e')\<rparr>, Inr (val e', etag e')))"

definition AddBudget :: "ledger \<Rightarrow> string \<Rightarrow> i64 \<Rightarrow> string
    \<Rightarrow> ledger \<times> (scrip_err + i64 \<times> string)" where
  "AddBudget s pk amountMicro tag =
     (case balances s pk of
        None \<Rightarrow>
          let e = \<lparr>val = amountMicro, gen = 1, epoch = replayEpoch s\<rparr>
          in (s\<lparr>balances := (balances s)(pk \<mapsto> e)\<rparr>, Inr (amountMicro, etag e))
      | Some e \<Rightarrow>
          if tag \<noteq> '''' \<and> etag e \<noteq> tag then (s, Inl ErrConflict)
          else let e' = e\<lparr>val := wrap64 (val e + amountMicro), gen := uadd64 (gen e) 1\<rparr>
               in (s\<lparr>balances := (balances s)(pk \<mapsto> e')\<rparr>, Inr (val e', etag e')))"

definition SaveReservation :: "ledger \<Rightarrow> Reservation \<Rightarrow> ledger" where
  "SaveReservation s r = s\<lparr>reservations := (reservations s)(r_ID r \<mapsto> r)\<rparr>"

definition GetReservation :: "ledger \<Rightarrow> string \<Rightarrow> scrip_err + Reservation" where
  "GetReservation s rid = (case reservations s rid of
     None \<Rightarrow> Inl ErrReservationNotFound | Some r \<Rightarrow> Inr r)"

definition DeleteReservation :: "ledger \<Rightarrow> string \<Rightarrow> ledger \<times> scrip_err option" where
  "DeleteReservation s rid = (case reservations s rid of
     None \<Rightarrow> (s, Some ErrReservationNotFound)
   | Some _ \<Rightarrow> (s\<lparr>reservations := (reservations s)(rid := None)\<rparr>, None))"

definition ConsumeReservation :: "ledger \<Rightarrow> string \<Rightarrow> ledger \<times> (scrip_err + Reservation)" where
  "ConsumeReservation s rid = (case reservations s rid of
     None \<Rightarrow> (s, Inl ErrReservationNotFound)
   | Some r \<Rightarrow> (s\<lparr>reservations := (reservations s)(rid := None)\<rparr>, Inr r))"

section \<open>Accessors\<close>

definition Balance :: "ledger \<Rightarrow> string \<Rightarrow> i64" where
  "Balance s k = (case balances s k of None \<Rightarrow> 0 | Some e \<Rightarrow> val e)"

definition TotalOutstandingVig :: "ledger \<Rightarrow> i64" where
  "TotalOutstandingVig s =
     foldl (\<lambda>total r. if loanStatus r = LoanActive then wrap64 (total + Outstanding r) else total)
       0 (map snd (loans s))"

definition GetLoan :: "ledger \<Rightarrow> string \<Rightarrow> LoanRecord option" where
  "GetLoan s loanID = map_of (loans s) loanID"

definition LoansByBorrower :: "ledger \<Rightarrow> string \<Rightarrow> string list" where
  "LoansByBorrower s k = getd [] (loansByBorrower s) k"

section \<open>Decoded amounts\<close>

text \<open>What \<open>applyMessage\<close>'s handlers see of an amount payload: the key and a positive amount.\<close>

definition amountOf :: "string \<Rightarrow> message \<Rightarrow> (string \<times> i64) option" where
  "amountOf key msg = (case unmarshal (amountFields key) (Payload msg) amountZero of (p, ok) \<Rightarrow>
     if \<not> ok \<or> p_Key p = '''' \<or> p_Amount p \<le> 0 then None else Some (p_Key p, p_Amount p))"

lemma amountOf_range: "amountOf key msg = Some (k, a) \<Longrightarrow> k \<noteq> '''' \<and> 0 < a \<and> int64 a"
proof -
  assume a: "amountOf key msg = Some (k, a)"
  obtain p ok where u: "unmarshal (amountFields key) (Payload msg) amountZero = (p, ok)" by fastforce
  have "int64 (p_Amount p)"
    by (rule unmarshal_inv[where P = "\<lambda>p. int64 (p_Amount p)", OF _ _ u])
      (auto simp: amountFields_def amountZero_def int64_def on_field_def split: prod.splits
        dest!: dec_i64_range[unfolded int64_def, rotated])
  with a u show ?thesis by (auto simp: amountOf_def split: if_splits)
qed

lemma settle_range:
  assumes u: "unmarshal settleFields (Payload msg) settleZero = (p, ok)"
  shows "int64 (sp_Residual p) \<and> int64 (sp_ExchangeRevenue p)"
  by (rule unmarshal_inv[where P = "\<lambda>p. int64 (sp_Residual p) \<and> int64 (sp_ExchangeRevenue p)", OF _ _ u])
    (auto simp: settleFields_def settleZero_def int64_def on_field_def split: prod.splits
        dest!: dec_i64_range[unfolded int64_def, rotated])

lemma loanMint_range:
  assumes u: "unmarshal loanMintFields (Payload msg) loanMintZero = (p, ok)"
  shows "int64 (lm_Principal p)"
  by (rule unmarshal_inv[where P = "\<lambda>p. int64 (lm_Principal p)", OF _ _ u])
    (auto simp: loanMintFields_def loanMintZero_def int64_def on_field_def split: prod.splits
        dest!: dec_i64_range[unfolded int64_def, rotated])

lemma applyMint_eq: "applyMint s msg = (case amountOf ''recipient'' msg of None \<Rightarrow> s
  | Some (k, a) \<Rightarrow> (addToBalance s k a)\<lparr>totalSupply := wrap64 (totalSupply s + a)\<rparr>)"
  by (simp add: applyMint_def amountOf_def split: prod.splits)

lemma applyPay_eq: "applyPay key s msg = (case amountOf key msg of None \<Rightarrow> s
  | Some (k, a) \<Rightarrow> if Sender msg \<noteq> '''' then
       (case subtractFromBalance s (Sender msg) a of (s1, paid) \<Rightarrow>
          if \<not> paid then s1 else addToBalance s1 k a)
     else addToBalance s k a)"
  by (simp add: applyPay_def amountOf_def split: prod.splits)

lemma applyBuyHold_eq: "applyBuyHold s msg = (case amountOf ''buyer'' msg of None \<Rightarrow> s
  | Some (k, a) \<Rightarrow> fst (subtractFromBalance s k a))"
  by (simp add: applyBuyHold_def amountOf_def split: prod.splits)

lemma applyDisputeRefund_eq: "applyDisputeRefund s msg = (case amountOf ''buyer'' msg of None \<Rightarrow> s
  | Some (k, a) \<Rightarrow> addToBalance s k a)"
  by (simp add: applyDisputeRefund_def amountOf_def split: prod.splits)

text \<open>The record an accepted repayment leaves, and the supply and principal it takes back.\<close>

definition putRepaid :: "ledger \<Rightarrow> string \<Rightarrow> LoanRecord \<Rightarrow> i64 \<Rightarrow> ledger" where
  "putRepaid s k r a = s\<lparr>loans := AList.update k (repayLoan r a) (loans s),
     totalSupply := wrap64 (totalSupply s - a),
     totalLoanPrincipal := (if loanStatus (repayLoan r a) = LoanRepaid
       then wrap64 (totalLoanPrincipal s - Principal r) else totalLoanPrincipal s)\<rparr>"

lemma subtractFromBalance_frame [simp]:
  "loans (fst (subtractFromBalance s k a)) = loans s"
  "loansByBorrower (fst (subtractFromBalance s k a)) = loansByBorrower s"
  "totalSupply (fst (subtractFromBalance s k a)) = totalSupply s"
  "totalBurned (fst (subtractFromBalance s k a)) = totalBurned s"
  "totalLoanPrincipal (fst (subtractFromBalance s k a)) = totalLoanPrincipal s"
  "seenMsgIDs (fst (subtractFromBalance s k a)) = seenMsgIDs s"
  "reservations (fst (subtractFromBalance s k a)) = reservations s"
  "replayEpoch (fst (subtractFromBalance s k a)) = replayEpoch s"
  "scripReplaying (fst (subtractFromBalance s k a)) = scripReplaying s"
  "scripOperatorKey (fst (subtractFromBalance s k a)) = scripOperatorKey s"
  by (simp_all add: subtractFromBalance_def Let_def)

lemma addToBalance_frame [simp]:
  "loans (addToBalance s k a) = loans s"
  "loansByBorrower (addToBalance s k a) = loansByBorrower s"
  "totalSupply (addToBalance s k a) = totalSupply s"
  "totalBurned (addToBalance s k a) = totalBurned s"
  "totalLoanPrincipal (addToBalance s k a) = totalLoanPrincipal s"
  "seenMsgIDs (addToBalance s k a) = seenMsgIDs s"
  "reservations (addToBalance s k a) = reservations s"
  "replayEpoch (addToBalance s k a) = replayEpoch s"
  "scripReplaying (addToBalance s k a) = scripReplaying s"
  "scripOperatorKey (addToBalance s k a) = scripOperatorKey s"
  by (simp_all add: addToBalance_def Let_def)

lemma applyLoanRepay_eq: "applyLoanRepay s msg = (case amountOf ''loan_id'' msg of None \<Rightarrow> s
  | Some (k, a) \<Rightarrow> (case map_of (loans s) k of None \<Rightarrow> s
    | Some r \<Rightarrow> if loanStatus r \<noteq> LoanActive then s
        else if BorrowerKey r = '''' then putRepaid s k r a
        else if snd (subtractFromBalance s (BorrowerKey r) a)
          then putRepaid (fst (subtractFromBalance s (BorrowerKey r) a)) k r a
          else fst (subtractFromBalance s (BorrowerKey r) a)))"
proof (cases "amountOf ''loan_id'' msg")
  case None
  then show ?thesis
    by (cases "unmarshal (amountFields ''loan_id'') (Payload msg) amountZero")
      (auto simp: applyLoanRepay_def amountOf_def split: if_splits)
next
  case (Some ka)
  obtain k a where ka: "ka = (k, a)" by fastforce
  then obtain p where u: "unmarshal (amountFields ''loan_id'') (Payload msg) amountZero = (p, True)"
    "p_Key p = k" "p_Amount p = a" "k \<noteq> ''''" "0 < a"
    using Some by (auto simp: amountOf_def split: prod.splits if_splits)
  show ?thesis
  proof (cases "map_of (loans s) k")
    case None
    with Some ka u show ?thesis by (simp add: applyLoanRepay_def)
  next
    case (Some r)
    obtain s1 paid where sub: "subtractFromBalance s (BorrowerKey r) a = (s1, paid)" by fastforce
    then have "loans s1 = loans s" using subtractFromBalance_frame(1)[of s "BorrowerKey r" a] by simp
    with Some \<open>amountOf _ _ = _\<close> ka u sub show ?thesis
      by (simp add: applyLoanRepay_def putRepaid_def Let_def)
  qed
qed

lemma applyLoanVigAccrue_eq: "applyLoanVigAccrue s msg = (case amountOf ''loan_id'' msg of None \<Rightarrow> s
  | Some (k, a) \<Rightarrow> (case map_of (loans s) k of None \<Rightarrow> s
    | Some r \<Rightarrow> if loanStatus r \<noteq> LoanActive then s
        else s\<lparr>loans := AList.update k (r\<lparr>Outstanding := wrap64 (Outstanding r + a)\<rparr>) (loans s)\<rparr>))"
  by (simp add: applyLoanVigAccrue_def amountOf_def split: prod.splits option.splits)

section \<open>Balances\<close>

lemma entryOrNew_val: "val (entryOrNew s k) = Balance s k"
  by (simp add: entryOrNew_def Balance_def split: option.splits)

lemma addToBalance_Balance [simp]:
  "Balance (addToBalance s k a) j = (if j = k then wrap64 (Balance s k + a) else Balance s j)"
  using entryOrNew_val[of s k] by (auto simp: addToBalance_def Balance_def Let_def)

lemma addToBalance_dom [simp]: "dom (balances (addToBalance s k a)) = insert k (dom (balances s))"
  by (simp add: addToBalance_def Let_def)

lemma subtractFromBalance_ok [simp]:
  "snd (subtractFromBalance s k a) \<longleftrightarrow> scripReplaying s \<or> 0 \<le> wrap64 (Balance s k - a)"
  by (auto simp: subtractFromBalance_def Let_def entryOrNew_val)

lemma subtractFromBalance_Balance [simp]:
  "Balance (fst (subtractFromBalance s k a)) j =
     (if j = k \<and> snd (subtractFromBalance s k a) then wrap64 (Balance s k - a) else Balance s j)"
  using entryOrNew_val[of s k] by (auto simp: subtractFromBalance_def Balance_def Let_def)

lemma subtractFromBalance_dom [simp]:
  "dom (balances (fst (subtractFromBalance s k a))) = insert k (dom (balances s))"
  by (auto simp: subtractFromBalance_def Let_def)

text \<open>The scrip all balances hold together.\<close>

definition circulating :: "ledger \<Rightarrow> int" where
  "circulating s = (\<Sum>a\<in>dom (balances s). Balance s a)"

lemma Balance_notin_dom [simp]: "k \<notin> dom (balances s) \<Longrightarrow> Balance s k = 0"
  by (simp add: Balance_def domIff)

lemma sum_change_one:
  fixes f g :: "'a \<Rightarrow> int"
  assumes "finite A" "\<And>j. j \<noteq> k \<Longrightarrow> g j = f j" "k \<notin> A \<Longrightarrow> f k = 0"
  shows "(\<Sum>j\<in>insert k A. g j) = (\<Sum>j\<in>A. f j) + (g k - f k)"
proof (cases "k \<in> A")
  case True
  have "sum g A = g k + sum g (A - {k})" "sum f A = f k + sum f (A - {k})"
    using assms(1) True by (simp_all add: sum.remove)
  moreover have "sum g (A - {k}) = sum f (A - {k})" by (rule sum.cong) (use assms(2) in auto)
  ultimately show ?thesis using True by (simp add: insert_absorb)
next
  case False
  moreover have "sum g A = sum f A" by (rule sum.cong) (use False in \<open>auto intro!: assms(2)\<close>)
  ultimately show ?thesis using assms by simp
qed

lemma circulating_change:
  assumes "finite (dom (balances s))" "dom (balances t) = insert k (dom (balances s))"
    and "\<And>j. j \<noteq> k \<Longrightarrow> Balance t j = Balance s j"
  shows "circulating t = circulating s + (Balance t k - Balance s k)"
  unfolding circulating_def assms(2)
  by (rule sum_change_one[OF assms(1) assms(3)]) auto

lemma circulating_add: "finite (dom (balances s)) \<Longrightarrow>
  wrap64 (circulating (addToBalance s k a)) = wrap64 (circulating s + a)"
proof -
  assume fin: "finite (dom (balances s))"
  have "circulating (addToBalance s k a) = circulating s + (wrap64 (Balance s k + a) - Balance s k)"
    using circulating_change[OF fin, of "addToBalance s k a" k] by simp
  also have "wrap64 (\<dots>) = wrap64 (circulating s + (Balance s k + a) - Balance s k)"
    by (metis add_diff_eq wrap64_add_r wrap64_diff_l)
  finally show ?thesis by simp
qed

lemma circulating_subtract: "finite (dom (balances s)) \<Longrightarrow>
  wrap64 (circulating (fst (subtractFromBalance s k a)))
    = wrap64 (circulating s - (if snd (subtractFromBalance s k a) then a else 0))"
proof -
  assume fin: "finite (dom (balances s))"
  let ?t = "fst (subtractFromBalance s k a)"
  have eq: "circulating ?t = circulating s + (Balance ?t k - Balance s k)"
    by (rule circulating_change[OF fin]) auto
  show ?thesis
  proof (cases "snd (subtractFromBalance s k a)")
    case True
    then have "Balance ?t k = wrap64 (Balance s k - a)" by simp
    with eq have "circulating ?t = circulating s + wrap64 (Balance s k - a) - Balance s k" by linarith
    then have "wrap64 (circulating ?t) = wrap64 (circulating s + wrap64 (Balance s k - a) - Balance s k)"
      by (rule arg_cong)
    also have "\<dots> = wrap64 (circulating s + (Balance s k - a) - Balance s k)"
      by (metis wrap64_add_r wrap64_diff_l)
    finally show ?thesis using True by simp
  qed (use eq in simp)
qed

lemma circulating_cong [simp]:
  "circulating (s\<lparr>totalSupply := x\<rparr>) = circulating s"
  "circulating (s\<lparr>totalBurned := x\<rparr>) = circulating s"
  "circulating (s\<lparr>totalLoanPrincipal := x\<rparr>) = circulating s"
  "circulating (s\<lparr>loans := y\<rparr>) = circulating s"
  "circulating (s\<lparr>loansByBorrower := z\<rparr>) = circulating s"
  "circulating (s\<lparr>seenMsgIDs := u\<rparr>) = circulating s"
  "circulating (s\<lparr>scripReplaying := v\<rparr>) = circulating s"
  by (simp_all add: circulating_def Balance_def)

lemma Balance_cong [simp]:
  "Balance (s\<lparr>totalSupply := x\<rparr>) = Balance s"
  "Balance (s\<lparr>totalBurned := x\<rparr>) = Balance s"
  "Balance (s\<lparr>totalLoanPrincipal := x\<rparr>) = Balance s"
  "Balance (s\<lparr>loans := y\<rparr>) = Balance s"
  "Balance (s\<lparr>loansByBorrower := z\<rparr>) = Balance s"
  "Balance (s\<lparr>seenMsgIDs := u\<rparr>) = Balance s"
  "Balance (s\<lparr>scripReplaying := v\<rparr>) = Balance s"
  by (simp_all add: Balance_def fun_eq_iff)

section \<open>The ledger invariant\<close>

definition activePrincipal :: "LoanRecord \<Rightarrow> int" where
  "activePrincipal r = (if loanStatus r = LoanActive then Principal r else 0)"

definition loan_ok :: "LoanRecord \<Rightarrow> bool" where
  "loan_ok r \<longleftrightarrow> BorrowerKey r \<noteq> '''' \<and> 0 < Principal r \<and> int64 (Principal r) \<and> int64 (Repaid r)
     \<and> int64 (Outstanding r)
     \<and> (case loanStatus r of LoanActive \<Rightarrow> Repaid r < Principal r
        | LoanRepaid \<Rightarrow> Principal r \<le> Repaid r \<and> Outstanding r = 0 | LoanDefaulted \<Rightarrow> False)"

text \<open>Every balance is an int64, every loan is well formed, the principal counter is the sum over
  the active loans, and the borrower index lists each borrower's loans in the order minted.\<close>

definition ledger_ok :: "ledger \<Rightarrow> bool" where
  "ledger_ok s \<longleftrightarrow> finite (dom (balances s)) \<and> (\<forall>k. int64 (Balance s k)) \<and> int64 (totalSupply s)
     \<and> map_ok (loans s) \<and> (\<forall>k r. map_of (loans s) k = Some r \<longrightarrow> loan_ok r \<and> LoanID r = k)
     \<and> totalLoanPrincipal s = wrap64 (sum_list (map (activePrincipal \<circ> snd) (loans s)))
     \<and> (\<forall>b. LoansByBorrower s b = map fst (filter (\<lambda>(k, r). BorrowerKey r = b) (loans s)))"

lemma update_new: "map_of m k = None \<Longrightarrow> AList.update k v m = m @ [(k, v)]"
  by (induction m) (auto split: if_splits)

lemma filter_update_same: "map_of m k = Some w \<Longrightarrow> P (k, v) = P (k, w) \<Longrightarrow>
  map fst (filter P (AList.update k v m)) = map fst (filter P m)"
  by (induction m) (auto split: if_splits)

lemma ledger_ok_add: "ledger_ok s \<Longrightarrow> ledger_ok (addToBalance s k a)"
  by (auto simp: ledger_ok_def LoansByBorrower_def)

lemma ledger_ok_subtract: "ledger_ok s \<Longrightarrow> ledger_ok (fst (subtractFromBalance s k a))"
  by (auto simp del: subtractFromBalance_ok simp: ledger_ok_def LoansByBorrower_def)

lemma ledger_ok_frame [simp]:
  "ledger_ok (s\<lparr>totalBurned := x\<rparr>) = ledger_ok s"
  "ledger_ok (s\<lparr>seenMsgIDs := u\<rparr>) = ledger_ok s"
  "ledger_ok (s\<lparr>scripReplaying := v\<rparr>) = ledger_ok s"
  "ledger_ok s \<Longrightarrow> ledger_ok (s\<lparr>totalSupply := wrap64 y\<rparr>)"
  by (simp_all add: ledger_ok_def LoansByBorrower_def)

text \<open>Writing back a loan that keeps its key, its borrower and the counter keeps the invariant.\<close>

lemma ledger_ok_loan:
  assumes ok: "ledger_ok s" and r: "map_of (loans s) k = Some r" and ok': "loan_ok r'"
    and same: "BorrowerKey r' = BorrowerKey r" "LoanID r' = LoanID r"
    and tlp: "p = wrap64 (totalLoanPrincipal s - activePrincipal r + activePrincipal r')"
  shows "ledger_ok (s\<lparr>loans := AList.update k r' (loans s), totalLoanPrincipal := p\<rparr>)"
proof -
  have sum: "sum_list (map (activePrincipal \<circ> snd) (AList.update k r' (loans s)))
      = sum_list (map (activePrincipal \<circ> snd) (loans s)) - activePrincipal r + activePrincipal r'"
    using ok r by (subst sum_list_update) (auto simp: ledger_ok_def)
  have idx: "map fst (filter (\<lambda>(k, r). BorrowerKey r = b) (AList.update k r' (loans s)))
      = map fst (filter (\<lambda>(k, r). BorrowerKey r = b) (loans s))" for b
    by (rule filter_update_same[OF r]) (simp add: same)
  have p: "p = wrap64 (sum_list (map (activePrincipal \<circ> snd) (AList.update k r' (loans s))))"
    using ok unfolding tlp sum by (simp add: ledger_ok_def) (metis wrap64_add_l wrap64_diff_l)
  show ?thesis
    using ok ok' same r idx p by (auto simp: ledger_ok_def LoansByBorrower_def Balance_def)
qed

lemma loan_ok_repay: "loan_ok r \<Longrightarrow> loanStatus r = LoanActive \<Longrightarrow> loan_ok (repayLoan r a)"
  using int64_wrap64[of "Repaid r + a"] by (auto simp: loan_ok_def repayLoan_def Let_def int64_def)

lemma repayLoan_frame [simp]:
  "BorrowerKey (repayLoan r a) = BorrowerKey r" "LoanID (repayLoan r a) = LoanID r"
  "Principal (repayLoan r a) = Principal r"
  by (simp_all add: repayLoan_def Let_def)

lemma ledger_ok_tlp: "ledger_ok s \<Longrightarrow> wrap64 (totalLoanPrincipal s) = totalLoanPrincipal s"
  by (simp add: ledger_ok_def)

lemma ledger_ok_putRepaid:
  assumes ok: "ledger_ok s" and r: "map_of (loans s) k = Some r" "loanStatus r = LoanActive"
  shows "ledger_ok (putRepaid s k r a)"
proof -
  have "loan_ok r" using ok r by (simp add: ledger_ok_def)
  then have ok': "loan_ok (repayLoan r a)" using r(2) by (rule loan_ok_repay)
  then have st: "loanStatus (repayLoan r a) \<noteq> LoanDefaulted" by (auto simp: loan_ok_def)
  have p: "(if loanStatus (repayLoan r a) = LoanRepaid
       then wrap64 (totalLoanPrincipal s - Principal r) else totalLoanPrincipal s)
     = wrap64 (totalLoanPrincipal s - activePrincipal r + activePrincipal (repayLoan r a))"
    using st r(2) ledger_ok_tlp[OF ok]
    by (cases "loanStatus (repayLoan r a)") (simp_all add: activePrincipal_def)
  from ledger_ok_loan[OF ok r(1) ok' _ _ p]
  have "ledger_ok (s\<lparr>loans := AList.update k (repayLoan r a) (loans s),
      totalLoanPrincipal := (if loanStatus (repayLoan r a) = LoanRepaid
       then wrap64 (totalLoanPrincipal s - Principal r) else totalLoanPrincipal s)\<rparr>)" by simp
  from ledger_ok_frame(4)[OF this]
  have "ledger_ok (s\<lparr>loans := AList.update k (repayLoan r a) (loans s),
      totalLoanPrincipal := (if loanStatus (repayLoan r a) = LoanRepaid
       then wrap64 (totalLoanPrincipal s - Principal r) else totalLoanPrincipal s)\<rparr>
       \<lparr>totalSupply := wrap64 (totalSupply s - a)\<rparr>)" .
  moreover have "s\<lparr>loans := l, totalLoanPrincipal := x\<rparr>\<lparr>totalSupply := y\<rparr>
      = s\<lparr>loans := l, totalSupply := y, totalLoanPrincipal := x\<rparr>" for l x y by simp
  ultimately show ?thesis unfolding putRepaid_def by metis
qed

lemma ledger_ok_mintLoan:
  assumes ok: "ledger_ok s" and new: "map_of (loans s) k = None" and r: "loan_ok r" "LoanID r = k"
    "loanStatus r = LoanActive"
  shows "ledger_ok (s\<lparr>loans := AList.update k r (loans s),
      loansByBorrower := (loansByBorrower s)(BorrowerKey r \<mapsto>
        getd [] (loansByBorrower s) (BorrowerKey r) @ [k]),
      totalLoanPrincipal := wrap64 (totalLoanPrincipal s + Principal r)\<rparr>)"
proof -
  have "k \<notin> fst ` set (loans s)" using new by (simp add: map_of_eq_None_iff)
  then show ?thesis
    using ok r by (auto simp: ledger_ok_def update_new[OF new] LoansByBorrower_def Balance_def map_ok_def
      activePrincipal_def image_iff split: option.splits if_splits)
qed

text \<open>The mint payload a loan-mint message carries when its fields pass the guard.\<close>

definition loanMintOf :: "message \<Rightarrow> LoanMintPayload option" where
  "loanMintOf msg = (case unmarshal loanMintFields (Payload msg) loanMintZero of (p, ok) \<Rightarrow>
     if \<not> ok \<or> lm_Borrower p = '''' \<or> lm_LoanID p = '''' \<or> lm_Principal p \<le> 0 then None else Some p)"

lemma entryOrNew_cong [simp]:
  "entryOrNew (s\<lparr>totalLoanPrincipal := x\<rparr>) = entryOrNew s"
  "entryOrNew (s\<lparr>loans := y\<rparr>) = entryOrNew s"
  "entryOrNew (s\<lparr>loansByBorrower := z\<rparr>) = entryOrNew s"
  by (simp_all add: entryOrNew_def fun_eq_iff split: option.split)

lemma applyLoanMint_eq: "applyLoanMint s msg = (case loanMintOf msg of None \<Rightarrow> s
  | Some p \<Rightarrow> if map_of (loans s) (lm_LoanID p) \<noteq> None then s
     else (addToBalance (s\<lparr>loans := AList.update (lm_LoanID p) (newLoan p) (loans s),
             loansByBorrower := (loansByBorrower s)(BorrowerKey (newLoan p) \<mapsto>
                 getd [] (loansByBorrower s) (BorrowerKey (newLoan p)) @ [lm_LoanID p]),
             totalLoanPrincipal := wrap64 (totalLoanPrincipal s + Principal (newLoan p))\<rparr>)
            (lm_Borrower p) (lm_Principal p))
          \<lparr>totalSupply := wrap64 (totalSupply s + lm_Principal p)\<rparr>)"
  by (cases "unmarshal loanMintFields (Payload msg) loanMintZero")
    (auto simp: applyLoanMint_def loanMintOf_def newLoan_def addToBalance_def Let_def)

lemma loanMintOf_range: "loanMintOf msg = Some p \<Longrightarrow>
  0 < lm_Principal p \<and> int64 (lm_Principal p) \<and> lm_Borrower p \<noteq> '''' \<and> lm_LoanID p \<noteq> ''''"
  by (cases "unmarshal loanMintFields (Payload msg) loanMintZero")
    (auto simp: loanMintOf_def dest: loanMint_range split: if_splits)

definition settleOf :: "message \<Rightarrow> (string \<times> i64 \<times> i64) option" where
  "settleOf msg = (case unmarshal settleFields (Payload msg) settleZero of (p, ok) \<Rightarrow>
     if \<not> ok then None
     else Some (sp_Seller p,
       if sp_Seller p \<noteq> '''' \<and> sp_Residual p > 0 then sp_Residual p else 0,
       if Sender msg \<noteq> '''' \<and> sp_ExchangeRevenue p > 0 then sp_ExchangeRevenue p else 0))"

lemma applyScripSettle_eq: "applyScripSettle_ledger s msg = (case settleOf msg of None \<Rightarrow> s
  | Some (seller, residual, revenue) \<Rightarrow>
      let s1 = (if residual > 0 then addToBalance s seller residual else s)
      in if revenue > 0 then addToBalance s1 (Sender msg) revenue else s1)"
  by (cases "unmarshal settleFields (Payload msg) settleZero")
    (auto simp: applyScripSettle_ledger_def settleOf_def Let_def)

lemma settleOf_range: "settleOf msg = Some (k, a, b) \<Longrightarrow> 0 \<le> a \<and> int64 a \<and> 0 \<le> b \<and> int64 b"
  by (cases "unmarshal settleFields (Payload msg) settleZero")
    (auto simp: settleOf_def int64_def dest!: settle_range split: if_splits)

section \<open>Every message keeps the invariant\<close>

lemma loan_ok_new: "loanMintOf msg = Some p \<Longrightarrow>
  loan_ok (newLoan p) \<and> LoanID (newLoan p) = lm_LoanID p \<and> loanStatus (newLoan p) = LoanActive"
  by (drule loanMintOf_range) (simp add: loan_ok_def newLoan_def int64_def)

lemmas op_eqs = applyMint_eq applyPay_eq applyBuyHold_eq applyScripSettle_eq
  applyDisputeRefund_eq applyLoanMint_eq applyLoanRepay_eq applyLoanVigAccrue_eq applyPutPay_def
  applyAssignPay_def

lemma ledger_ok_Pay: "ledger_ok s \<Longrightarrow> ledger_ok (applyPay key s msg)"
  using ledger_ok_subtract
  by (auto simp: applyPay_eq split_beta intro: ledger_ok_add split: option.split)

lemma ledger_ok_Mint: "ledger_ok s \<Longrightarrow> ledger_ok (applyMint s msg)"
  by (auto simp: applyMint_eq intro: ledger_ok_add ledger_ok_frame(4) split: option.split)

lemma ledger_ok_Burn: "ledger_ok s \<Longrightarrow> ledger_ok (applyBurn s msg)"
  by (simp add: applyBurn_def split: prod.split)

lemma ledger_ok_BuyHold: "ledger_ok s \<Longrightarrow> ledger_ok (applyBuyHold s msg)"
  by (auto simp: applyBuyHold_eq intro: ledger_ok_subtract split: option.split)

lemma ledger_ok_Settle: "ledger_ok s \<Longrightarrow> ledger_ok (applyScripSettle_ledger s msg)"
  by (auto simp: applyScripSettle_eq Let_def intro!: ledger_ok_add split: option.split)

lemma ledger_ok_Refund: "ledger_ok s \<Longrightarrow> ledger_ok (applyDisputeRefund s msg)"
  by (auto simp: applyDisputeRefund_eq intro: ledger_ok_add split: option.split)

lemma ledger_ok_LoanMint: "ledger_ok s \<Longrightarrow> ledger_ok (applyLoanMint s msg)"
proof (cases "loanMintOf msg")
  case (Some p)
  assume ok: "ledger_ok s"
  note new = loan_ok_new[OF Some]
  show ?thesis
  proof (cases "map_of (loans s) (lm_LoanID p)")
    case None
    from ledger_ok_mintLoan[OF ok this, of "newLoan p"] new
    show ?thesis unfolding applyLoanMint_eq Some
      by (simp add: None) (rule ledger_ok_frame(4), rule ledger_ok_add, simp)
  qed (simp add: applyLoanMint_eq Some ok)
qed (simp add: applyLoanMint_eq)

lemma ledger_ok_LoanRepay: "ledger_ok s \<Longrightarrow> ledger_ok (applyLoanRepay s msg)"
  by (auto simp: applyLoanRepay_eq intro!: ledger_ok_putRepaid ledger_ok_subtract split: option.split)

lemma ledger_ok_LoanVigAccrue: "ledger_ok s \<Longrightarrow> ledger_ok (applyLoanVigAccrue s msg)"
proof -
  assume ok: "ledger_ok s"
  have "ledger_ok (s\<lparr>loans := AList.update k (r\<lparr>Outstanding := wrap64 x\<rparr>) (loans s)\<rparr>)"
    if "map_of (loans s) k = Some r" "loanStatus r = LoanActive" for k r x
  proof -
    have p: "totalLoanPrincipal s = wrap64 (totalLoanPrincipal s - activePrincipal r
        + activePrincipal (r\<lparr>Outstanding := wrap64 x\<rparr>))"
      using ledger_ok_tlp[OF ok] by (simp add: activePrincipal_def)
    have "loan_ok (r\<lparr>Outstanding := wrap64 x\<rparr>)"
    proof -
      have "loan_ok r" using ok that by (simp add: ledger_ok_def)
      with that(2) show ?thesis by (simp add: loan_ok_def)
    qed
    from ledger_ok_loan[OF ok that(1) this _ _ p] show ?thesis by simp
  qed
  with ok show ?thesis by (auto simp: applyLoanVigAccrue_eq split: option.split)
qed

lemma ledger_ok_op: "ledger_ok s \<Longrightarrow> ledger_ok (applyScripOp op s msg)"
  by (simp add: applyScripOp_def applyPutPay_def applyAssignPay_def ledger_ok_Pay ledger_ok_Mint
      ledger_ok_Burn ledger_ok_BuyHold ledger_ok_Settle ledger_ok_Refund ledger_ok_LoanMint
      ledger_ok_LoanRepay ledger_ok_LoanVigAccrue)

lemma ledger_ok_applyMessage: "ledger_ok s \<Longrightarrow> ledger_ok (applyMessage s msg)"
  by (simp add: applyMessage_def Let_def ledger_ok_op)

interpretation lg: event_fold applyMessage ledger_ok
  by unfold_locales (rule ledger_ok_applyMessage)

lemma ledger_ok_reset: "ledger_ok (resetLedger s)"
  by (simp add: ledger_ok_def resetLedger_def Balance_def int64_def LoansByBorrower_def)

lemma scripReplay_ok: "scripReplay s log = (s', True) \<Longrightarrow> ledger_ok s'"
  using lg.inv_run ledger_ok_reset by (auto simp: scripReplay_def split: option.splits)

section \<open>Conservation\<close>

definition payloadAmount :: "string \<Rightarrow> message \<Rightarrow> int" where
  "payloadAmount key msg = (case amountOf key msg of None \<Rightarrow> 0 | Some (k, a) \<Rightarrow> a)"

text \<open>
  The scrip a message moves between the balances and the escrow outside them when it is replayed:
  a hold takes it out, a settlement or a refund puts it back, and so does a payment without a payer.
\<close>

definition externalFlow :: "string \<Rightarrow> message \<Rightarrow> int" where
  "externalFlow opKey msg = (let op = acceptedOp opKey msg in
     if op = TagScripPutPay then (if Sender msg = '''' then payloadAmount ''seller'' msg else 0)
     else if op = TagScripAssignPay then (if Sender msg = '''' then payloadAmount ''worker'' msg else 0)
     else if op = TagScripBuyHold then - payloadAmount ''buyer'' msg
     else if op = TagScripSettle then
       (case settleOf msg of None \<Rightarrow> 0 | Some (k, residual, revenue) \<Rightarrow> residual + revenue)
     else if op = TagScripDisputeRefund then payloadAmount ''buyer'' msg
     else 0)"

text \<open>The messages of a log that are not repetitions of an earlier ID.\<close>

fun firstByID :: "string set \<Rightarrow> message list \<Rightarrow> message list" where
  "firstByID seen [] = []"
| "firstByID seen (m # ms) =
     (if ID m \<in> seen then firstByID seen ms else m # firstByID (insert (ID m) seen) ms)"

definition unbacked :: "ledger \<Rightarrow> int" where
  "unbacked s = circulating s - totalSupply s"

lemma wrap64_cong_diff: "wrap64 a = wrap64 b \<Longrightarrow> wrap64 (a - x) = wrap64 (b - x)"
  by (metis wrap64_diff_l)

lemma wrap64_cong_add: "wrap64 a = wrap64 b \<Longrightarrow> wrap64 (a + x) = wrap64 (b + x)"
  by (metis wrap64_add_l)

lemma ledger_ok_fin: "ledger_ok s \<Longrightarrow> finite (dom (balances s))"
  by (simp add: ledger_ok_def)

lemma unbacked_add: "ledger_ok s \<Longrightarrow> wrap64 (unbacked (addToBalance s k a)) = wrap64 (unbacked s + a)"
  using wrap64_cong_diff[OF circulating_add[OF ledger_ok_fin], of s k a "totalSupply s"]
  by (simp add: unbacked_def algebra_simps)

lemma unbacked_subtract: "ledger_ok s \<Longrightarrow> wrap64 (unbacked (fst (subtractFromBalance s k a)))
    = wrap64 (unbacked s - (if snd (subtractFromBalance s k a) then a else 0))"
  using wrap64_cong_diff[OF circulating_subtract[OF ledger_ok_fin], of s k a "totalSupply s"]
  by (simp add: unbacked_def algebra_simps del: subtractFromBalance_ok)

lemma unbacked_supply: "wrap64 (unbacked (s\<lparr>totalSupply := wrap64 x\<rparr>)) = wrap64 (circulating s - x)"
  by (simp add: unbacked_def)

lemma unbacked_frame [simp]:
  "unbacked (s\<lparr>totalBurned := x\<rparr>) = unbacked s"
  "unbacked (s\<lparr>totalLoanPrincipal := y\<rparr>) = unbacked s"
  "unbacked (s\<lparr>loans := z\<rparr>) = unbacked s"
  "unbacked (s\<lparr>loansByBorrower := u\<rparr>) = unbacked s"
  "unbacked (s\<lparr>seenMsgIDs := v\<rparr>) = unbacked s"
  "unbacked (s\<lparr>scripReplaying := w\<rparr>) = unbacked s"
  by (simp_all add: unbacked_def)

lemma unbacked_mint:
  assumes "ledger_ok s"
  shows "wrap64 (unbacked ((addToBalance s k a)\<lparr>totalSupply := wrap64 (totalSupply s + a)\<rparr>))
    = wrap64 (unbacked s)"
proof -
  have "wrap64 (circulating (addToBalance s k a) - (totalSupply s + a))
      = wrap64 (circulating s + a - (totalSupply s + a))"
    by (rule wrap64_cong_diff) (simp add: circulating_add ledger_ok_fin assms)
  then show ?thesis by (simp add: unbacked_supply) (simp add: unbacked_def)
qed

lemma unbacked_Pay:
  assumes "ledger_ok s" "scripReplaying s"
  shows "wrap64 (unbacked (applyPay key s msg))
    = wrap64 (unbacked s + (if Sender msg = '''' then payloadAmount key msg else 0))"
proof -
  have "wrap64 (unbacked (addToBalance (fst (subtractFromBalance s (Sender msg) a)) k a)) = wrap64 (unbacked s)"
    for k a
    using assms unbacked_add[OF ledger_ok_subtract[OF assms(1)], of "Sender msg" a k a]
      wrap64_cong_add[OF unbacked_subtract[OF assms(1)], of "Sender msg" a a] by simp
  with assms show ?thesis
    by (auto simp: applyPay_eq payloadAmount_def split_beta unbacked_add split: option.split)
qed

lemma unbacked_Settle:
  assumes "ledger_ok s"
  shows "wrap64 (unbacked (applyScripSettle_ledger s msg)) = wrap64 (unbacked s +
    (case settleOf msg of None \<Rightarrow> 0 | Some (k, residual, revenue) \<Rightarrow> residual + revenue))"
proof (cases "settleOf msg")
  case (Some q)
  then obtain k a b where q: "settleOf msg = Some (k, a, b)" by (cases q) auto
  let ?s1 = "if a > 0 then addToBalance s k a else s"
  have ab: "0 \<le> a" "0 \<le> b" using settleOf_range[OF q] by auto
  have 1: "wrap64 (unbacked ?s1) = wrap64 (unbacked s + a)" "ledger_ok ?s1"
    using ab assms by (auto simp: unbacked_add ledger_ok_add)
  from ab wrap64_cong_add[OF 1(1), of b] have "wrap64 (unbacked (if b > 0 then addToBalance ?s1 (Sender msg) b else ?s1))
      = wrap64 (unbacked s + a + b)"
    by (cases "b > 0") (simp_all only: unbacked_add[OF 1(2)] if_True if_False, auto)
  then show ?thesis by (simp add: q applyScripSettle_eq Let_def add.assoc)
qed (simp add: applyScripSettle_eq)

lemma unbacked_LoanMint: "ledger_ok s \<Longrightarrow> wrap64 (unbacked (applyLoanMint s msg)) = wrap64 (unbacked s)"
proof (cases "loanMintOf msg")
  case (Some p)
  assume ok: "ledger_ok s"
  show ?thesis
  proof (cases "map_of (loans s) (lm_LoanID p)")
    case None
    from unbacked_mint[OF ledger_ok_mintLoan[OF ok this, of "newLoan p"], where k = "lm_Borrower p" and a = "lm_Principal p"]
    show ?thesis using loan_ok_new[OF Some] by (simp add: applyLoanMint_eq Some None)
  qed (simp add: applyLoanMint_eq Some)
qed (simp add: applyLoanMint_eq)

lemma unbacked_putRepaid: "wrap64 (unbacked (putRepaid s k r a)) = wrap64 (unbacked s + a)"
  by (simp add: putRepaid_def unbacked_def circulating_def Balance_def algebra_simps)

lemma unbacked_LoanRepay:
  assumes "ledger_ok s" "scripReplaying s"
  shows "wrap64 (unbacked (applyLoanRepay s msg)) = wrap64 (unbacked s)"
proof -
  have "wrap64 (unbacked (putRepaid (fst (subtractFromBalance s b a)) k r a)) = wrap64 (unbacked s)" for b a k r
    using assms wrap64_cong_add[OF unbacked_subtract[OF assms(1)], of b a a] by (simp add: unbacked_putRepaid)
  moreover have "map_of (loans s) k = Some r \<Longrightarrow> BorrowerKey r \<noteq> ''''" for k r
    using assms by (auto simp: ledger_ok_def loan_ok_def)
  ultimately show ?thesis using assms(2) by (auto simp: applyLoanRepay_eq split: option.split)
qed

lemma unbacked_op:
  assumes "ledger_ok s" "scripReplaying s" "acceptedOp opKey msg = op"
  shows "wrap64 (unbacked (applyScripOp op s msg)) = wrap64 (unbacked s + externalFlow opKey msg)"
proof -
  note eqs = applyScripOp_def externalFlow_def Let_def
  note frames = unbacked_Pay[OF assms(1,2)] unbacked_Settle[OF assms(1)] unbacked_LoanMint[OF assms(1)]
    unbacked_LoanRepay[OF assms(1,2)]
  have mint: "wrap64 (unbacked (applyMint s msg)) = wrap64 (unbacked s)"
    by (auto simp: applyMint_eq unbacked_mint assms split: option.split)
  have burn: "unbacked (applyBurn s msg) = unbacked s" by (simp add: applyBurn_def split: prod.split)
  have hold: "wrap64 (unbacked (applyBuyHold s msg)) = wrap64 (unbacked s - payloadAmount ''buyer'' msg)"
    using assms by (auto simp: applyBuyHold_eq payloadAmount_def unbacked_subtract split: option.split)
  have refund: "wrap64 (unbacked (applyDisputeRefund s msg)) = wrap64 (unbacked s + payloadAmount ''buyer'' msg)"
    using assms by (auto simp: applyDisputeRefund_eq payloadAmount_def unbacked_add split: option.split)
  have vig: "unbacked (applyLoanVigAccrue s msg) = unbacked s"
    by (auto simp: applyLoanVigAccrue_eq split: option.split)
  show ?thesis using assms(3)
    by (simp add: eqs frames mint burn hold refund vig applyPutPay_def applyAssignPay_def)
qed

definition ctrl :: "ledger \<Rightarrow> string set \<times> bool \<times> string \<times> u64 \<times> (string \<rightharpoonup> Reservation)" where
  "ctrl s = (seenMsgIDs s, scripReplaying s, scripOperatorKey s, replayEpoch s, reservations s)"

lemma ctrl_frame [simp]:
  "ctrl (s\<lparr>totalSupply := x\<rparr>) = ctrl s" "ctrl (s\<lparr>totalBurned := x\<rparr>) = ctrl s"
  "ctrl (s\<lparr>totalLoanPrincipal := x\<rparr>) = ctrl s" "ctrl (s\<lparr>loans := y\<rparr>) = ctrl s"
  "ctrl (s\<lparr>loansByBorrower := z\<rparr>) = ctrl s" "ctrl (addToBalance s k a) = ctrl s"
  "ctrl (fst (subtractFromBalance s k a)) = ctrl s" "ctrl (putRepaid s k r a) = ctrl s"
  by (simp_all add: ctrl_def putRepaid_def)

lemma ctrl_Pay [simp]: "ctrl (applyPay key s msg) = ctrl s"
  by (auto simp: applyPay_eq split_beta split: option.split)

lemma ctrl_Loan [simp]:
  "ctrl (applyLoanMint s msg) = ctrl s" "ctrl (applyLoanRepay s msg) = ctrl s"
  "ctrl (applyLoanVigAccrue s msg) = ctrl s"
  by (auto simp: applyLoanMint_eq applyLoanRepay_eq applyLoanVigAccrue_eq split: option.split)

lemma ctrl_rest [simp]:
  "ctrl (applyMint s msg) = ctrl s" "ctrl (applyBurn s msg) = ctrl s"
  "ctrl (applyBuyHold s msg) = ctrl s" "ctrl (applyScripSettle_ledger s msg) = ctrl s"
  "ctrl (applyDisputeRefund s msg) = ctrl s"
  by (auto simp: applyMint_eq applyBurn_def applyBuyHold_eq applyScripSettle_eq applyDisputeRefund_eq
      Let_def split: option.split prod.split)

lemma ctrl_op: "ctrl (applyScripOp op s msg) = ctrl s"
  by (simp add: applyScripOp_def applyPutPay_def applyAssignPay_def)

lemma applyScripOp_frame [simp]:
  "seenMsgIDs (applyScripOp op s msg) = seenMsgIDs s"
  "scripReplaying (applyScripOp op s msg) = scripReplaying s"
  "scripOperatorKey (applyScripOp op s msg) = scripOperatorKey s"
  "replayEpoch (applyScripOp op s msg) = replayEpoch s"
  "reservations (applyScripOp op s msg) = reservations s"
  using ctrl_op[of op s msg] by (simp_all add: ctrl_def)

lemma applyMessage_frame [simp]:
  "seenMsgIDs (applyMessage s msg) = insert (ID msg) (seenMsgIDs s)"
  "scripReplaying (applyMessage s msg) = scripReplaying s"
  "scripOperatorKey (applyMessage s msg) = scripOperatorKey s"
  "replayEpoch (applyMessage s msg) = replayEpoch s"
  "reservations (applyMessage s msg) = reservations s"
  by (auto simp: applyMessage_def Let_def)

lemma fold_frame [simp]:
  "scripReplaying (foldl applyMessage s ms) = scripReplaying s"
  "scripOperatorKey (foldl applyMessage s ms) = scripOperatorKey s"
  "replayEpoch (foldl applyMessage s ms) = replayEpoch s"
  "reservations (foldl applyMessage s ms) = reservations s"
  "seenMsgIDs (foldl applyMessage s ms) = ID ` set ms \<union> seenMsgIDs s"
  by (induction ms arbitrary: s) auto

lemma externalFlow_none: "acceptedOp opKey msg = '''' \<Longrightarrow> externalFlow opKey msg = 0"
  by (simp add: externalFlow_def)

lemma unbacked_applyMessage:
  assumes "ledger_ok s" "scripReplaying s"
  shows "wrap64 (unbacked (applyMessage s msg)) = wrap64 (unbacked s +
    (if ID msg \<in> seenMsgIDs s then 0 else externalFlow (scripOperatorKey s) msg))"
proof -
  let ?s1 = "s\<lparr>seenMsgIDs := insert (ID msg) (seenMsgIDs s)\<rparr>"
  have "ledger_ok ?s1" "scripReplaying ?s1" using assms by simp_all
  from unbacked_op[OF this refl, of "scripOperatorKey s"] show ?thesis
    by (auto simp: applyMessage_def Let_def externalFlow_none)
qed

lemma unbacked_run:
  assumes "ledger_ok s" "scripReplaying s"
  shows "wrap64 (unbacked (foldl applyMessage s ms)) = wrap64 (unbacked s +
    sum_list (map (externalFlow (scripOperatorKey s)) (firstByID (seenMsgIDs s) ms)))"
  using assms
proof (induction ms arbitrary: s)
  case Nil
  then show ?case by simp
next
  case (Cons m ms)
  note step = unbacked_applyMessage[OF Cons.prems, of m]
  have IH: "wrap64 (unbacked (foldl applyMessage (applyMessage s m) ms)) =
    wrap64 (unbacked (applyMessage s m) + sum_list (map (externalFlow (scripOperatorKey s))
      (firstByID (insert (ID m) (seenMsgIDs s)) ms)))"
    using Cons.IH[of "applyMessage s m"] Cons.prems by (simp add: ledger_ok_applyMessage)
  show ?case unfolding foldl_Cons IH using wrap64_cong_add[OF step]
    by (simp add: insert_absorb add.assoc)
qed

lemma scripReplay_conserves: "scripReplay s (Some log) = (s', True) \<Longrightarrow>
  totalSupply s' = wrap64 (circulating s'
    - sum_list (map (externalFlow (scripOperatorKey s)) (firstByID {} log)))"
proof -
  let ?s0 = "(resetLedger s)\<lparr>scripReplaying := True\<rparr>"
  let ?n = "sum_list (map (externalFlow (scripOperatorKey s)) (firstByID {} log))"
  assume r: "scripReplay s (Some log) = (s', True)"
  then have s': "s' = (foldl applyMessage ?s0 log)\<lparr>scripReplaying := False\<rparr>"
    by (simp add: scripReplay_def)
  have ok: "ledger_ok ?s0" using ledger_ok_reset by simp
  have zero: "unbacked ?s0 = 0"
    by (simp add: unbacked_def circulating_def resetLedger_def)
  have "wrap64 (unbacked s') = wrap64 ?n"
    using unbacked_run[OF ok, of log] zero by (simp add: s' resetLedger_def)
  then have "wrap64 (circulating s' - unbacked s') = wrap64 (circulating s' - ?n)"
    by (metis wrap64_diff_r)
  moreover have "int64 (totalSupply s')"
    using scripReplay_ok[OF r] by (simp add: ledger_ok_def)
  ultimately show ?thesis by (simp add: unbacked_def wrap64_id)
qed

section \<open>Non-negative balances\<close>

definition bal_within :: "int \<Rightarrow> ledger \<Rightarrow> bool" where
  "bal_within B s \<longleftrightarrow> (\<forall>k. 0 \<le> Balance s k \<and> Balance s k \<le> B)"

text \<open>The most a message can credit to one account.\<close>

definition payloadCredit :: "message \<Rightarrow> int" where
  "payloadCredit msg = (let op = scripOp (Tags msg) in
     if op = TagScripMint then payloadAmount ''recipient'' msg
     else if op = TagScripPutPay then payloadAmount ''seller'' msg
     else if op = TagScripAssignPay then payloadAmount ''worker'' msg
     else if op = TagScripDisputeRefund then payloadAmount ''buyer'' msg
     else if op = TagScripSettle then
       (case settleOf msg of None \<Rightarrow> 0 | Some (k, residual, revenue) \<Rightarrow> residual + revenue)
     else if op = TagScripLoanMint then (case loanMintOf msg of None \<Rightarrow> 0 | Some p \<Rightarrow> lm_Principal p)
     else 0)"

lemma payloadAmount_nonneg [simp]: "0 \<le> payloadAmount key msg"
  by (auto simp: payloadAmount_def dest: amountOf_range split: option.split)

lemma payloadCredit_nonneg [simp]: "0 \<le> payloadCredit msg"
  by (auto simp: payloadCredit_def Let_def dest: loanMintOf_range settleOf_range split: option.split)

lemma bal_within_mono: "bal_within B s \<Longrightarrow> B \<le> C \<Longrightarrow> bal_within C s"
  unfolding bal_within_def using order_trans by blast

lemma bal_within_nonneg: "bal_within B s \<Longrightarrow> 0 \<le> B"
  by (force simp: bal_within_def)

lemma bal_within_add: "bal_within B s \<Longrightarrow> 0 \<le> a \<Longrightarrow> B + a \<le> C \<Longrightarrow> C \<le> 9223372036854775807 \<Longrightarrow>
  bal_within C (addToBalance s k a)"
proof -
  assume *: "bal_within B s" "0 \<le> a" "B + a \<le> C" "C \<le> 9223372036854775807"
  then have j: "0 \<le> Balance s j" "Balance s j \<le> B" for j by (auto simp: bal_within_def)
  have "wrap64 (Balance s k + a) = Balance s k + a"
    using * j[of k] by (intro wrap64_nonneg_add) auto
  moreover have "0 \<le> Balance s i \<and> Balance s i \<le> C" for i using j[of i] * by linarith
  moreover have "Balance s k + a \<le> C" "0 \<le> Balance s k + a" using j[of k] * by linarith+
  ultimately show ?thesis by (simp add: bal_within_def)
qed

lemma bal_within_subtract: "bal_within B s \<Longrightarrow> 0 \<le> a \<Longrightarrow> int64 a \<Longrightarrow> B \<le> 9223372036854775807 \<Longrightarrow>
  \<not> scripReplaying s \<Longrightarrow> bal_within B (fst (subtractFromBalance s k a))"
proof -
  assume *: "bal_within B s" "0 \<le> a" "int64 a" "B \<le> 9223372036854775807" "\<not> scripReplaying s"
  then have j: "0 \<le> Balance s j" "Balance s j \<le> B" for j by (auto simp: bal_within_def)
  have w: "wrap64 (Balance s k - a) = Balance s k - a"
    using * j[of k] by (intro wrap64_id) (auto simp: int64_def)
  have "Balance s k - a \<le> B" using * j[of k] by simp
  with * j w show ?thesis by (simp add: bal_within_def)
qed

lemma bal_within_frame [simp]:
  "bal_within B (s\<lparr>totalSupply := x\<rparr>) = bal_within B s"
  "bal_within B (s\<lparr>totalBurned := x\<rparr>) = bal_within B s"
  "bal_within B (s\<lparr>totalLoanPrincipal := x\<rparr>) = bal_within B s"
  "bal_within B (s\<lparr>loans := y\<rparr>) = bal_within B s"
  "bal_within B (s\<lparr>loansByBorrower := z\<rparr>) = bal_within B s"
  "bal_within B (s\<lparr>seenMsgIDs := u\<rparr>) = bal_within B s"
  "bal_within B (putRepaid s k r a) = bal_within B s"
  by (simp_all add: bal_within_def putRepaid_def Balance_def)

lemma bal_within_Pay:
  assumes "bal_within B s" "\<not> scripReplaying s" "B + payloadAmount key msg \<le> C" "C \<le> 9223372036854775807"
  shows "bal_within C (applyPay key s msg)"
proof (cases "amountOf key msg")
  case None
  with assms show ?thesis by (simp add: applyPay_eq payloadAmount_def bal_within_mono)
next
  case (Some ka)
  obtain k a where ka: "amountOf key msg = Some (k, a)" using Some by (cases ka) auto
  with assms have a: "0 \<le> a" "int64 a" "B + a \<le> C" using amountOf_range[OF ka] by (auto simp: payloadAmount_def)
  then have B: "B \<le> C" by simp
  let ?s1 = "fst (subtractFromBalance s (Sender msg) a)"
  have "bal_within B ?s1" using assms a by (intro bal_within_subtract) auto
  then have "bal_within C (addToBalance ?s1 k a)" "bal_within C ?s1"
    using a assms(4) B by (auto intro: bal_within_add bal_within_mono)
  moreover have "bal_within C (addToBalance s k a)" using a assms by (intro bal_within_add)
  ultimately show ?thesis by (simp add: applyPay_eq ka split_beta del: subtractFromBalance_ok)
qed

lemma bal_within_LoanRepay:
  assumes "bal_within B s" "\<not> scripReplaying s" "B \<le> 9223372036854775807"
  shows "bal_within B (applyLoanRepay s msg)"
  using assms
  by (auto simp: applyLoanRepay_eq intro!: bal_within_subtract dest: amountOf_range split: option.split)

lemma bal_within_Settle:
  assumes "bal_within B s" "C \<le> 9223372036854775807"
    "B + (case settleOf msg of None \<Rightarrow> 0 | Some (k, residual, revenue) \<Rightarrow> residual + revenue) \<le> C"
  shows "bal_within C (applyScripSettle_ledger s msg)"
proof (cases "settleOf msg")
  case None
  with assms show ?thesis by (simp add: applyScripSettle_eq bal_within_mono)
next
  case (Some q)
  then obtain k a b where q: "settleOf msg = Some (k, a, b)" by (cases q) auto
  then have ab: "0 \<le> a" "0 \<le> b" "B + a + b \<le> C" using settleOf_range[OF q] assms by auto
  define s1 where "s1 = (if a > 0 then addToBalance s k a else s)"
  have s1: "bal_within (B + a) s1"
    using ab assms by (auto simp: s1_def intro: bal_within_add bal_within_mono)
  then have "bal_within C (if b > 0 then addToBalance s1 (Sender msg) b else s1)"
    using ab assms(2) by (auto intro: bal_within_add bal_within_mono)
  then show ?thesis by (simp add: q applyScripSettle_eq Let_def s1_def[symmetric] del: if_split cong: if_cong)
qed

lemma bal_within_LoanMint:
  assumes "bal_within B s" "C \<le> 9223372036854775807"
    "B + (case loanMintOf msg of None \<Rightarrow> 0 | Some p \<Rightarrow> lm_Principal p) \<le> C"
  shows "bal_within C (applyLoanMint s msg)"
proof -
  have "B \<le> C" using assms(3) by (auto split: option.splits dest: loanMintOf_range)
  then have "bal_within C s" by (rule bal_within_mono[OF assms(1)])
  with assms show ?thesis
    by (auto simp: applyLoanMint_eq dest: loanMintOf_range intro!: bal_within_add[of B] split: option.splits)
qed

lemma bal_within_op:
  assumes "bal_within B s" "\<not> scripReplaying s" "B + payloadCredit msg \<le> C" "C \<le> 9223372036854775807"
    "acceptedOp opKey msg = op"
  shows "bal_within C (applyScripOp op s msg)"
proof (cases "op = ''''")
  case True
  have "B \<le> C" using assms(3) payloadCredit_nonneg[of msg] by linarith
  with True assms(1) show ?thesis by (simp add: applyScripOp_def bal_within_mono)
next
  case False
  then have op: "scripOp (Tags msg) = op" using assms(5) by (auto simp: acceptedOp_def split: if_splits)
  have BC: "B \<le> C" using assms(3) payloadCredit_nonneg[of msg] by linarith
  have same: "bal_within B t \<Longrightarrow> bal_within C t" for t by (rule bal_within_mono[OF _ BC])
  have credit: "bal_within C (addToBalance s k a)" if "amountOf key msg = Some (k, a)"
    "B + payloadAmount key msg \<le> C" for k a key
    using that assms amountOf_range[OF that(1)] by (intro bal_within_add[of B]) (auto simp: payloadAmount_def)
  have mint: "B + payloadAmount ''recipient'' msg \<le> C \<Longrightarrow> bal_within C (applyMint s msg)"
    using credit same assms(1) by (auto simp: applyMint_eq split: option.split)
  have refund: "B + payloadAmount ''buyer'' msg \<le> C \<Longrightarrow> bal_within C (applyDisputeRefund s msg)"
    using credit same assms(1) by (auto simp: applyDisputeRefund_eq split: option.split)
  have burn: "bal_within C (applyBurn s msg)" using same assms(1) by (simp add: applyBurn_def split: prod.split)
  have hold: "bal_within C (applyBuyHold s msg)"
    using same assms BC by (auto simp: applyBuyHold_eq intro!: same bal_within_subtract dest: amountOf_range
        split: option.split)
  have vig: "bal_within C (applyLoanVigAccrue s msg)"
    using same assms(1) by (auto simp: applyLoanVigAccrue_eq split: option.split)
  have repay: "bal_within C (applyLoanRepay s msg)"
    using assms BC by (intro same bal_within_LoanRepay) auto
  show ?thesis
    using assms(3) by (simp add: applyScripOp_def payloadCredit_def op Let_def mint refund burn hold vig repay
        bal_within_LoanMint[OF assms(1,4)] bal_within_Settle[OF assms(1,4)] bal_within_Pay[OF assms(1,2) _ assms(4)]
        applyPutPay_def applyAssignPay_def same assms(1) split: if_splits)
qed

lemma bal_within_applyMessage:
  assumes "bal_within B s" "\<not> scripReplaying s" "B + payloadCredit msg \<le> 9223372036854775807"
  shows "bal_within (B + payloadCredit msg) (applyMessage s msg)"
proof -
  let ?s1 = "s\<lparr>seenMsgIDs := insert (ID msg) (seenMsgIDs s)\<rparr>"
  have "bal_within B ?s1" "\<not> scripReplaying ?s1" using assms by simp_all
  from bal_within_op[OF this order_refl assms(3) refl, of "scripOperatorKey s"]
  show ?thesis using assms(1)
    by (auto simp: applyMessage_def Let_def intro: bal_within_mono)
qed

lemma bal_within_run:
  assumes "bal_within B s" "\<not> scripReplaying s" "B + sum_list (map payloadCredit ms) \<le> 9223372036854775807"
  shows "bal_within (B + sum_list (map payloadCredit ms)) (foldl applyMessage s ms)"
  using assms
proof (induction ms arbitrary: B s)
  case Nil
  then show ?case by simp
next
  case (Cons m ms)
  have nn: "0 \<le> sum_list (map payloadCredit ms)" by (rule sum_list_nonneg) auto
  then have "bal_within (B + payloadCredit m) (applyMessage s m)"
    using Cons.prems by (intro bal_within_applyMessage) auto
  then have "bal_within (B + payloadCredit m + sum_list (map payloadCredit ms)) (foldl applyMessage (applyMessage s m) ms)"
    using Cons.prems by (intro Cons.IH) auto
  then show ?case by (simp add: add.assoc)
qed

section \<open>Duplicates\<close>

lemma applyMessage_seen [simp]: "ID m \<in> seenMsgIDs s \<Longrightarrow> applyMessage s m = s"
  by (simp add: applyMessage_def)

lemma fold_firstByID: "foldl applyMessage s ms = foldl applyMessage s (firstByID (seenMsgIDs s) ms)"
  by (induction ms arbitrary: s) (auto simp: insert_absorb)

section \<open>The store as a state machine\<close>

text \<open>One call of any public method that writes the store.\<close>

inductive store_step :: "ledger \<Rightarrow> ledger \<Rightarrow> bool" where
  step_apply: "store_step s (applyMessage s m)"
| step_replay: "store_step s (fst (scripReplay s log))"
| step_decrement: "store_step s (fst (DecrementBudget s k a t))"
| step_add: "int64 a \<Longrightarrow> store_step s (fst (AddBudget s k a t))"
| step_save: "store_step s (SaveReservation s r)"
| step_delete: "store_step s (fst (DeleteReservation s rid))"
| step_consume: "store_step s (fst (ConsumeReservation s rid))"

inductive_cases store_stepE: "store_step s t"

text \<open>Every entry carries the epoch of the last Replay.\<close>

definition epochs_ok :: "ledger \<Rightarrow> bool" where
  "epochs_ok s \<longleftrightarrow> (\<forall>k e. balances s k = Some e \<longrightarrow> epoch e = replayEpoch s)"

lemma epochs_ok_add: "epochs_ok s \<Longrightarrow> epochs_ok (addToBalance s k a)"
  by (auto simp: epochs_ok_def addToBalance_def entryOrNew_def Let_def split: option.split)

lemma epochs_ok_subtract: "epochs_ok s \<Longrightarrow> epochs_ok (fst (subtractFromBalance s k a))"
  by (auto simp: epochs_ok_def subtractFromBalance_def entryOrNew_def Let_def split: option.split)

lemma epochs_ok_frame [simp]:
  "epochs_ok (s\<lparr>totalSupply := x\<rparr>) = epochs_ok s" "epochs_ok (s\<lparr>totalBurned := x\<rparr>) = epochs_ok s"
  "epochs_ok (s\<lparr>totalLoanPrincipal := x\<rparr>) = epochs_ok s" "epochs_ok (s\<lparr>loans := y\<rparr>) = epochs_ok s"
  "epochs_ok (s\<lparr>loansByBorrower := z\<rparr>) = epochs_ok s" "epochs_ok (s\<lparr>seenMsgIDs := u\<rparr>) = epochs_ok s"
  "epochs_ok (s\<lparr>scripReplaying := v\<rparr>) = epochs_ok s" "epochs_ok (s\<lparr>reservations := w\<rparr>) = epochs_ok s"
  "epochs_ok (putRepaid s k r a) = epochs_ok s"
  by (simp_all add: epochs_ok_def putRepaid_def)

lemma epochs_ok_op: "epochs_ok s \<Longrightarrow> epochs_ok (applyScripOp op s msg)"
proof -
  assume ok: "epochs_ok s"
  note I = epochs_ok_add epochs_ok_subtract
  have pay: "epochs_ok (applyPay key s msg)" for key
    using ok by (auto simp: applyPay_eq split_beta intro!: I split: option.split)
  have mint: "epochs_ok (applyMint s msg)" using ok by (auto simp: applyMint_eq intro!: I split: option.split)
  have burn: "epochs_ok (applyBurn s msg)" using ok by (simp add: applyBurn_def split: prod.split)
  have hold: "epochs_ok (applyBuyHold s msg)" using ok by (auto simp: applyBuyHold_eq intro!: I split: option.split)
  have settle: "epochs_ok (applyScripSettle_ledger s msg)"
    using ok by (auto simp: applyScripSettle_eq Let_def intro!: I split: option.split)
  have refund: "epochs_ok (applyDisputeRefund s msg)"
    using ok by (auto simp: applyDisputeRefund_eq intro!: I split: option.split)
  have lmint: "epochs_ok (applyLoanMint s msg)"
    using ok by (auto simp: applyLoanMint_eq intro!: I split: option.split)
  have lrepay: "epochs_ok (applyLoanRepay s msg)"
    using ok by (auto simp: applyLoanRepay_eq intro!: I split: option.split)
  have vig: "epochs_ok (applyLoanVigAccrue s msg)"
    using ok by (auto simp: applyLoanVigAccrue_eq split: option.split)
  show ?thesis using ok
    by (simp add: applyScripOp_def applyPutPay_def applyAssignPay_def pay mint burn hold settle refund
        lmint lrepay vig)
qed

lemma epochs_ok_applyMessage: "epochs_ok s \<Longrightarrow> epochs_ok (applyMessage s m)"
  by (simp add: applyMessage_def Let_def epochs_ok_op)

text \<open>The seen set only grows while a log is applied.\<close>

interpretation seen: monotone_fold applyMessage ledger_ok "\<lambda>s t. seenMsgIDs s \<subseteq> seenMsgIDs t"
  by unfold_locales auto

interpretation ep: event_fold applyMessage epochs_ok
  by unfold_locales (rule epochs_ok_applyMessage)

lemma epochs_ok_reset: "epochs_ok (resetLedger s)"
  by (simp add: epochs_ok_def resetLedger_def)

lemma ledger_ok_entry: "ledger_ok s \<Longrightarrow> int64 (val e) \<Longrightarrow> ledger_ok (s\<lparr>balances := (balances s)(k \<mapsto> e)\<rparr>)"
  by (auto simp: ledger_ok_def Balance_def LoansByBorrower_def)

lemma ledger_ok_reservations [simp]: "ledger_ok (s\<lparr>reservations := w\<rparr>) = ledger_ok s"
  by (simp add: ledger_ok_def Balance_def LoansByBorrower_def)

lemma ledger_ok_decrement: "ledger_ok s \<Longrightarrow> ledger_ok (fst (DecrementBudget s k a t))"
  by (auto simp: DecrementBudget_def Let_def intro!: ledger_ok_entry split: option.split)

lemma ledger_ok_addBudget: "ledger_ok s \<Longrightarrow> int64 a \<Longrightarrow> ledger_ok (fst (AddBudget s k a t))"
  by (auto simp: AddBudget_def Let_def intro!: ledger_ok_entry split: option.split)

lemma ledger_ok_replay: "ledger_ok s \<Longrightarrow> ledger_ok (fst (scripReplay s log))"
  using lg.inv_run ledger_ok_reset by (auto simp: scripReplay_def split: option.splits)

lemma store_step_inv:
  assumes "store_step s t" "ledger_ok s" "epochs_ok s"
  shows "ledger_ok t \<and> epochs_ok t"
  using assms(1)
proof cases
  case (step_apply m)
  then show ?thesis using assms by (simp add: ledger_ok_applyMessage epochs_ok_applyMessage)
next
  case (step_replay log)
  then show ?thesis
    using assms ledger_ok_replay[OF assms(2), of log] ep.inv_run[of "resetLedger s\<lparr>scripReplaying := True\<rparr>"]
      epochs_ok_reset by (cases log) (auto simp: scripReplay_def)
next
  case (step_decrement k a t)
  then show ?thesis
    using assms ledger_ok_decrement
    by (auto simp: DecrementBudget_def epochs_ok_def Let_def split: option.split)
next
  case (step_add a k t)
  then show ?thesis
    using assms ledger_ok_addBudget
    by (auto simp: AddBudget_def epochs_ok_def Let_def split: option.split)
next
  case (step_save r)
  then show ?thesis using assms by (simp add: SaveReservation_def)
next
  case (step_delete rid)
  then show ?thesis using assms by (auto simp: DeleteReservation_def split: option.split)
next
  case (step_consume rid)
  then show ?thesis using assms by (auto simp: ConsumeReservation_def split: option.split)
qed

text \<open>Every state of the store: a fresh store, then any calls.\<close>

definition store_reachable :: "string \<Rightarrow> ledger \<Rightarrow> bool" where
  "store_reachable opKey s \<longleftrightarrow> store_step\<^sup>*\<^sup>* (emptyLedger opKey) s"

lemma empty_inv: "ledger_ok (emptyLedger opKey) \<and> epochs_ok (emptyLedger opKey)"
  by (simp add: ledger_ok_def emptyLedger_def Balance_def int64_def LoansByBorrower_def epochs_ok_def)

lemma steps_inv: "store_step\<^sup>*\<^sup>* s t \<Longrightarrow> ledger_ok s \<Longrightarrow> epochs_ok s \<Longrightarrow> ledger_ok t \<and> epochs_ok t"
  by (induction rule: rtranclp_induct) (auto dest: store_step_inv)

lemma reachable_inv: "store_reachable opKey s \<Longrightarrow> ledger_ok s \<and> epochs_ok s"
  unfolding store_reachable_def using steps_inv empty_inv by blast

section \<open>ETags\<close>

lemma append_sep_inj:
  "c \<notin> set a \<Longrightarrow> c \<notin> set a' \<Longrightarrow> a @ c # b = a' @ c # b' \<Longrightarrow> a = a' \<and> b = b'"
  by (induction a arbitrary: a') (metis Cons_eq_appendI append_Nil list.inject list.set_intros(1)
      list.exhaust, (case_tac a'; auto))

lemma etag_inj: "etag e = etag e' \<longleftrightarrow> epoch e = epoch e' \<and> gen e = gen e'"
proof
  assume "etag e = etag e'"
  then have "show_nat (epoch e) @ CHR ''-'' # show_nat (gen e) = show_nat (epoch e') @ CHR ''-'' # show_nat (gen e')"
    by (simp add: etag_def)
  then have "show_nat (epoch e) = show_nat (epoch e') \<and> show_nat (gen e) = show_nat (gen e')"
    by (rule append_sep_inj[OF show_nat_no_minus show_nat_no_minus])
  then show "epoch e = epoch e' \<and> gen e = gen e'" by (auto dest: show_nat_inj)
qed (simp add: etag_def)

lemma etag_nonempty [simp]: "etag e \<noteq> ''''"
  by (simp add: etag_def)

lemma DecrementBudget_Inr: "DecrementBudget s k a t = (s', Inr (v, t')) \<longleftrightarrow>
  (\<exists>e. balances s k = Some e \<and> t = etag e \<and> v = wrap64 (val e - a) \<and> 0 \<le> v
     \<and> t' = etag (e\<lparr>val := v, gen := uadd64 (gen e) 1\<rparr>)
     \<and> s' = s\<lparr>balances := (balances s)(k \<mapsto> e\<lparr>val := v, gen := uadd64 (gen e) 1\<rparr>)\<rparr>)"
  by (auto simp: DecrementBudget_def Let_def split: option.splits if_splits)

lemma uadd64_1_neq: "g < 18446744073709551616 \<Longrightarrow> uadd64 g 1 \<noteq> g"
  by (cases "g + 1 = 18446744073709551616") (auto simp: uadd64_def)

text \<open>
  \<open>advanced n s t k\<close>: between \<open>s\<close> and \<open>t\<close> the generation of \<open>k\<close>'s entry moved by at most \<open>n\<close>.
\<close>

definition advanced :: "nat \<Rightarrow> ledger \<Rightarrow> ledger \<Rightarrow> string \<Rightarrow> bool" where
  "advanced n s t k \<longleftrightarrow> (\<forall>e. balances s k = Some e \<longrightarrow>
     (\<exists>e' j. balances t k = Some e' \<and> j \<le> n \<and> gen e' mod 18446744073709551616 = (gen e + j) mod 18446744073709551616))"

lemma advanced_refl: "balances t k = balances s k \<Longrightarrow> advanced n s t k"
  by (auto simp: advanced_def intro: exI[of _ 0])

lemma advanced_mono: "advanced n s t k \<Longrightarrow> n \<le> m \<Longrightarrow> advanced m s t k"
  unfolding advanced_def by (meson order_trans)

lemma advanced_trans: "advanced n s t k \<Longrightarrow> advanced m t u k \<Longrightarrow> advanced (n + m) s u k"
proof -
  assume st: "advanced n s t k" and tu: "advanced m t u k"
  show ?thesis unfolding advanced_def
  proof (intro allI impI)
    fix e assume "balances s k = Some e"
    then obtain e1 i where 1: "balances t k = Some e1" "i \<le> n"
      "gen e1 mod 18446744073709551616 = (gen e + i) mod 18446744073709551616"
      using st by (auto simp: advanced_def)
    then obtain e2 j where 2: "balances u k = Some e2" "j \<le> m"
      "gen e2 mod 18446744073709551616 = (gen e1 + j) mod 18446744073709551616"
      using tu by (auto simp: advanced_def)
    have "(gen e1 + j) mod 18446744073709551616 = (gen e + i + j) mod 18446744073709551616"
      by (rule mod_add_cong[OF 1(3) refl])
    then show "\<exists>e' l. balances u k = Some e' \<and> l \<le> n + m \<and>
        gen e' mod 18446744073709551616 = (gen e + l) mod 18446744073709551616"
      using 1 2 by (intro exI[of _ e2] exI[of _ "i + j"]) (auto simp: add.assoc)
  qed
qed

lemma advanced_add: "advanced 1 s (addToBalance s j a) k"
  by (auto simp: advanced_def addToBalance_def entryOrNew_def uadd64_def Let_def
      intro: exI[of _ 1] exI[of _ 0])

lemma advanced_subtract: "advanced 1 s (fst (subtractFromBalance s j a)) k"
  by (auto simp: advanced_def subtractFromBalance_def entryOrNew_def uadd64_def Let_def
      intro: exI[of _ 1] exI[of _ 0])

lemma advanced_frame [simp]:
  "advanced n s (t\<lparr>totalSupply := x\<rparr>) k = advanced n s t k" "advanced n s (t\<lparr>totalBurned := x\<rparr>) k = advanced n s t k"
  "advanced n s (t\<lparr>totalLoanPrincipal := x\<rparr>) k = advanced n s t k" "advanced n s (t\<lparr>loans := y\<rparr>) k = advanced n s t k"
  "advanced n s (t\<lparr>loansByBorrower := z\<rparr>) k = advanced n s t k"
  "advanced n (s\<lparr>loans := y\<rparr>) t k = advanced n s t k"
  "advanced n (s\<lparr>loansByBorrower := z\<rparr>) t k = advanced n s t k"
  "advanced n (s\<lparr>totalLoanPrincipal := x\<rparr>) t k = advanced n s t k"
  "advanced n (s\<lparr>seenMsgIDs := u\<rparr>) t k = advanced n s t k"
  "advanced n s (t\<lparr>seenMsgIDs := u\<rparr>) k = advanced n s t k"
  "advanced n s (t\<lparr>reservations := w\<rparr>) k = advanced n s t k"
  "advanced n s (putRepaid t l r a) k = advanced n s t k"
  by (simp_all add: advanced_def putRepaid_def)

lemma advanced_self [simp]: "advanced n s s k"
  by (simp add: advanced_refl)

lemma advanced_op: "advanced 2 s (applyScripOp op s msg) k"
proof -
  have I: "advanced 2 s (addToBalance s j a) k" "advanced 2 s (fst (subtractFromBalance s j a)) k" for j a
    by (rule advanced_mono[OF advanced_add] advanced_mono[OF advanced_subtract], simp)+
  have J: "advanced 2 s (addToBalance (fst (subtractFromBalance s i b)) j a) k"
    "advanced 2 s (addToBalance (addToBalance s i b) j a) k" for i b j a
    using advanced_trans[OF advanced_subtract advanced_add] advanced_trans[OF advanced_add advanced_add]
    by (simp_all add: numeral_2_eq_2)
  have L: "advanced 2 s (addToBalance (s\<lparr>loans := y, loansByBorrower := z, totalLoanPrincipal := x\<rparr>) j a) k"
    for y z x j a
    using advanced_mono[where m = 2, OF advanced_add[of "s\<lparr>loans := y, loansByBorrower := z, totalLoanPrincipal := x\<rparr>"]]
    by simp
  have pay: "advanced 2 s (applyPay key s msg) k" for key
    by (auto simp: applyPay_eq split_beta I J split: option.split)
  have mint: "advanced 2 s (applyMint s msg) k" by (auto simp: applyMint_eq I split: option.split)
  have burn: "advanced 2 s (applyBurn s msg) k" by (simp add: applyBurn_def split: prod.split)
  have hold: "advanced 2 s (applyBuyHold s msg) k" by (auto simp: applyBuyHold_eq I split: option.split)
  have settle: "advanced 2 s (applyScripSettle_ledger s msg) k"
    by (auto simp: applyScripSettle_eq Let_def I J split: option.split)
  have refund: "advanced 2 s (applyDisputeRefund s msg) k"
    by (auto simp: applyDisputeRefund_eq I split: option.split)
  have lmint: "advanced 2 s (applyLoanMint s msg) k"
    by (auto simp: applyLoanMint_eq L split: option.split)
  have lrepay: "advanced 2 s (applyLoanRepay s msg) k"
    by (auto simp: applyLoanRepay_eq I split: option.split)
  have vig: "advanced 2 s (applyLoanVigAccrue s msg) k"
    by (auto simp: applyLoanVigAccrue_eq split: option.split)
  show ?thesis
    by (simp add: applyScripOp_def applyPutPay_def applyAssignPay_def pay mint burn hold settle refund
        lmint lrepay vig)
qed

lemma advanced_applyMessage: "advanced 2 s (applyMessage s m) k"
  using advanced_op[of "s\<lparr>seenMsgIDs := insert (ID m) (seenMsgIDs s)\<rparr>"]
  by (simp add: applyMessage_def Let_def)

text \<open>A step either starts a new epoch or keeps the epoch and advances by at most two.\<close>

lemma store_step_advanced: "store_step s t \<Longrightarrow>
  replayEpoch t = uadd64 (replayEpoch s) 1 \<or> replayEpoch t = replayEpoch s \<and> advanced 2 s t k"
proof (erule store_stepE)
  fix m assume "t = applyMessage s m"
  then show ?thesis by (simp add: advanced_applyMessage)
next
  fix log assume "t = fst (scripReplay s log)"
  then show ?thesis by (auto simp: scripReplay_def resetLedger_def split: option.split)
next
  fix j a tag assume t: "t = fst (DecrementBudget s j a tag)"
  have "advanced 2 s t k"
    by (auto simp: t advanced_def DecrementBudget_def uadd64_def Let_def intro: exI[of _ 1] exI[of _ 0]
        split: option.split)
  then show ?thesis by (auto simp: t DecrementBudget_def Let_def split: option.split)
next
  fix a j tag assume t: "t = fst (AddBudget s j a tag)"
  have "advanced 2 s t k"
    by (auto simp: t advanced_def AddBudget_def uadd64_def Let_def intro: exI[of _ 1] exI[of _ 0]
        split: option.split)
  then show ?thesis by (auto simp: t AddBudget_def Let_def split: option.split)
qed (auto simp: SaveReservation_def DeleteReservation_def ConsumeReservation_def split: option.split)

section \<open>A spent ETag stays spent\<close>

lemma stale_mod: "1 \<le> j \<Longrightarrow> j < 18446744073709551616 \<Longrightarrow>
  g \<noteq> (h::nat) \<or> g mod 18446744073709551616 \<noteq> (h + j) mod 18446744073709551616"
proof -
  assume j: "1 \<le> j" "j < 18446744073709551616"
  have "\<not> 18446744073709551616 dvd j" using j by (intro nat_dvd_not_less) auto
  moreover have "(h + j) mod 18446744073709551616 = h mod 18446744073709551616
      \<longleftrightarrow> 18446744073709551616 dvd (h + j - h)"
    by (rule mod_eq_dvd_iff_nat) simp
  ultimately show ?thesis by auto
qed

lemma stale_epoch: "1 \<le> j \<Longrightarrow> j < 18446744073709551616 \<Longrightarrow> E \<noteq> (E + j) mod (18446744073709551616::nat)"
proof
  assume j: "1 \<le> j" "j < 18446744073709551616" and E: "E = (E + j) mod 18446744073709551616"
  then have "E mod 18446744073709551616 = (E + j) mod 18446744073709551616" by (metis mod_mod_trivial)
  with stale_mod[OF j, of E E] show False by simp
qed

definition stale :: "nat \<Rightarrow> string \<Rightarrow> u64 \<Rightarrow> u64 \<Rightarrow> ledger \<Rightarrow> bool" where
  "stale n k E g t \<longleftrightarrow>
     (\<exists>j. 1 \<le> j \<and> j \<le> n \<and> replayEpoch t = (E + j) mod 18446744073709551616)
     \<or> (replayEpoch t = E \<and> (\<exists>e j. balances t k = Some e \<and> 1 \<le> j \<and> j \<le> 2 * n + 1
         \<and> gen e mod 18446744073709551616 = (g + j) mod 18446744073709551616))"

lemma stale_step:
  assumes st: "stale n k E g t" and step: "store_step t u"
  shows "stale (Suc n) k E g u"
proof -
  from store_step_advanced[OF step, of k]
  consider "replayEpoch u = uadd64 (replayEpoch t) 1" | "replayEpoch u = replayEpoch t" "advanced 2 t u k"
    by auto
  then show ?thesis
  proof cases
    case 1
    from st consider j where "1 \<le> j" "j \<le> n" "replayEpoch t = (E + j) mod 18446744073709551616"
      | "replayEpoch t = E" by (auto simp: stale_def)
    then show ?thesis
    proof cases
      case (1 j)
      then have "replayEpoch u = (E + (j + 1)) mod 18446744073709551616"
        using \<open>replayEpoch u = _\<close> unfolding uadd64_def by (simp add: mod_Suc_eq add.assoc)
      then show ?thesis using 1 by (auto simp: stale_def intro!: disjI1 exI[of _ "j + 1"])
    next
      case 2
      then show ?thesis using \<open>replayEpoch u = _\<close>
        by (auto simp: stale_def uadd64_def intro!: disjI1 exI[of _ 1])
    qed
  next
    case 2
    from st consider j where "1 \<le> j" "j \<le> n" "replayEpoch t = (E + j) mod 18446744073709551616"
      | e j where "replayEpoch t = E" "balances t k = Some e" "1 \<le> j" "j \<le> 2 * n + 1"
        "gen e mod 18446744073709551616 = (g + j) mod 18446744073709551616" by (auto simp: stale_def)
    then show ?thesis
    proof cases
      case (1 j)
      then show ?thesis using 2 by (auto simp: stale_def intro!: disjI1 exI[of _ j])
    next
      case e: (2 e j)
      then obtain e' i where e': "balances u k = Some e'" "i \<le> 2"
        "gen e' mod 18446744073709551616 = (gen e + i) mod 18446744073709551616"
        using 2 by (auto simp: advanced_def)
      have "(gen e + i) mod 18446744073709551616 = (g + j + i) mod 18446744073709551616"
        by (rule mod_add_cong[OF e(5) refl])
      then show ?thesis using 2 e e'
        by (auto simp: stale_def add.assoc intro!: disjI2 exI[of _ e'] exI[of _ "j + i"])
    qed
  qed
qed

lemma stale_steps: "(store_step ^^ n) s t \<Longrightarrow> stale 0 k E g s \<Longrightarrow> stale n k E g t"
proof (induction n arbitrary: t)
  case 0
  then show ?case by simp
next
  case (Suc n)
  then obtain u where "(store_step ^^ n) s u" "store_step u t" by auto
  with Suc show ?case using stale_step by blast
qed

lemma stale_conflict:
  assumes ok: "epochs_ok t" and st: "stale n k E g t" and n: "2 * n + 1 < 18446744073709551616"
    and tag: "t0 = etag e0" "epoch e0 = E" "gen e0 = g"
  shows "DecrementBudget t k b t0 = (t, Inl ErrConflict)"
proof -
  have "etag e \<noteq> t0" if e: "balances t k = Some e" for e
  proof
    assume "etag e = t0"
    then have eq: "replayEpoch t = E" "gen e = g" using ok e tag by (auto simp: etag_inj epochs_ok_def)
    from st consider j where "1 \<le> j" "j \<le> n" "replayEpoch t = (E + j) mod 18446744073709551616"
      | e j where "balances t k = Some e" "1 \<le> j" "j \<le> 2 * n + 1"
        "gen e mod 18446744073709551616 = (g + j) mod 18446744073709551616" by (auto simp: stale_def)
    then show False
    proof cases
      case (1 j)
      then show False using stale_epoch[of j E] n eq by simp
    next
      case (2 e' j)
      then show False using stale_mod[of j g g] n eq e by simp
    qed
  qed
  then show ?thesis by (auto simp: DecrementBudget_def split: option.split)
qed

section \<open>The interface the engine spends through\<close>

text \<open>
  \<open>scrip.SpendingStore\<close> (\<open>pkg/scrip/spending_store.go\<close>): balances read with a version tag,
  conditional decrements, increments, and reservations that are taken out exactly once. The lemmas
  are what the engine's hold, refund and settlement paths need of any implementation.
\<close>

locale spending_store =
  fixes get :: "'s \<Rightarrow> string \<Rightarrow> i64 \<times> string"
    and dec :: "'s \<Rightarrow> string \<Rightarrow> i64 \<Rightarrow> string \<Rightarrow> 's \<times> ('e + i64 \<times> string)"
    and add :: "'s \<Rightarrow> string \<Rightarrow> i64 \<Rightarrow> string \<Rightarrow> 's \<times> ('e + i64 \<times> string)"
    and bal :: "'s \<Rightarrow> string \<Rightarrow> i64"
    and ok :: "'s \<Rightarrow> bool"
  assumes get_bal: "fst (get s k) = bal s k"
    and get_absent: "snd (get s k) = [] \<Longrightarrow> bal s k = 0"
    and dec_current: "snd (get s k) \<noteq> [] \<Longrightarrow> 0 \<le> wrap64 (bal s k - a) \<Longrightarrow>
      \<exists>s' t'. dec s k a (snd (get s k)) = (s', Inr (wrap64 (bal s k - a), t'))"
    and dec_done: "dec s k a t = (s', Inr (v, t')) \<Longrightarrow>
      v = wrap64 (bal s k - a) \<and> 0 \<le> v \<and> bal s' = (bal s)(k := v) \<and> get s' k = (v, t')"
    and dec_refused: "dec s k a t = (s', Inl e) \<Longrightarrow> s' = s"
    and dec_ok: "ok s \<Longrightarrow> ok (fst (dec s k a t))"
    and add_blind: "int64 a \<Longrightarrow> \<exists>s' t'. add s k a [] = (s', Inr (wrap64 (bal s k + a), t'))
      \<and> bal s' = (bal s)(k := wrap64 (bal s k + a))"
    and add_ok: "ok s \<Longrightarrow> int64 a \<Longrightarrow> ok (fst (add s k a t))"
    and bal_int64: "ok s \<Longrightarrow> int64 (bal s k)"
begin

lemma get_then_dec:
  assumes "ok s" "get s k = (b, t)" "0 < a" "a \<le> b" "int64 a"
  shows "\<exists>s' t'. dec s k a t = (s', Inr (b - a, t')) \<and> bal s' = (bal s)(k := b - a)"
proof -
  have b: "b = bal s k" "t = snd (get s k)" using get_bal[of s k] assms(2) by simp_all
  have "int64 (b - a)" using assms(3-5) bal_int64[OF assms(1), of k] unfolding b(1) int64_def by linarith
  then have w: "wrap64 (bal s k - a) = b - a" unfolding b(1) by (rule wrap64_id)
  have "snd (get s k) \<noteq> []"
  proof
    assume "snd (get s k) = []"
    then have "b = 0" using get_absent b(1) by simp
    with assms(3,4) show False by simp
  qed
  moreover have "0 \<le> wrap64 (bal s k - a)" using w assms(4) by simp
  ultimately have "\<exists>s' t'. dec s k a t = (s', Inr (b - a, t'))"
    using dec_current[of s k a] unfolding w b(2) by blast
  then show ?thesis using dec_done by blast
qed

lemma dec_then_add_restores:
  assumes "ok s" "int64 a" "dec s k a t = (s1, Inr (v, t'))" "add s1 k a [] = (s2, x)"
  shows "bal s2 = bal s"
proof -
  have s1: "bal s1 = (bal s)(k := wrap64 (bal s k - a))" using dec_done[OF assms(3)] by simp
  obtain s' y where "add s1 k a [] = (s', Inr y)" "bal s' = (bal s1)(k := wrap64 (bal s1 k + a))"
    using add_blind[OF assms(2), of s1 k] by blast
  then have "bal s2 = (bal s1)(k := wrap64 (bal s1 k + a))" using assms(4) by simp
  then show ?thesis using s1 bal_int64[OF assms(1), of k] by (simp add: wrap64_id)
qed

end

lemma AddBudget_blind: "\<exists>s' t'. AddBudget s k a [] = (s', Inr (wrap64 (Balance s k + a), t'))
    \<and> Balance s' = (Balance s)(k := wrap64 (Balance s k + a))" if "int64 a"
  using that by (cases "balances s k") (auto simp: AddBudget_def Balance_def Let_def wrap64_id fun_eq_iff)


interpretation ls: spending_store GetBudget DecrementBudget AddBudget Balance ledger_ok
proof
  fix s k a t s' v t' and e :: scrip_err
  show "fst (GetBudget s k) = Balance s k"
    by (auto simp: GetBudget_def Balance_def split: option.split)
  show "snd (GetBudget s k) = [] \<Longrightarrow> Balance s k = 0"
    by (auto simp: GetBudget_def Balance_def split: option.splits)
  show "snd (GetBudget s k) \<noteq> [] \<Longrightarrow> 0 \<le> wrap64 (Balance s k - a) \<Longrightarrow>
      \<exists>s' t'. DecrementBudget s k a (snd (GetBudget s k)) = (s', Inr (wrap64 (Balance s k - a), t'))"
    by (cases "balances s k") (auto simp: GetBudget_def Balance_def DecrementBudget_def Let_def)
  show "DecrementBudget s k a t = (s', Inr (v, t')) \<Longrightarrow>
      v = wrap64 (Balance s k - a) \<and> 0 \<le> v \<and> Balance s' = (Balance s)(k := v) \<and> GetBudget s' k = (v, t')"
    by (auto simp: DecrementBudget_Inr Balance_def GetBudget_def fun_eq_iff)
  show "DecrementBudget s k a t = (s', Inl e) \<Longrightarrow> s' = s"
    by (auto simp: DecrementBudget_def Let_def split: option.splits if_splits)
  show "ledger_ok s \<Longrightarrow> ledger_ok (fst (DecrementBudget s k a t))" by (rule ledger_ok_decrement)
  show "ledger_ok s \<Longrightarrow> int64 a \<Longrightarrow> ledger_ok (fst (AddBudget s k a t))" by (rule ledger_ok_addBudget)
  show "ledger_ok s \<Longrightarrow> int64 (Balance s k)" by (simp add: ledger_ok_def)
  show "int64 a \<Longrightarrow> \<exists>s' t'. AddBudget s k a [] = (s', Inr (wrap64 (Balance s k + a), t'))
    \<and> Balance s' = (Balance s)(k := wrap64 (Balance s k + a))" by (rule AddBudget_blind)
qed

section \<open>Properties\<close>

text \<open>Messages the witnesses use.\<close>

definition mintMsg :: "string \<Rightarrow> string \<Rightarrow> i64 \<Rightarrow> message" where
  "mintMsg i k a = \<lparr>ID = i, Sender = ''op'',
     Payload = Some (JObj [(''recipient'', JStr k), (''amount'', JInt a)]),
     Tags = [TagScripMint], Antecedents = [], Timestamp = 1, Instance = ''''\<rparr>"

definition loanMsg :: "string \<Rightarrow> string \<Rightarrow> string \<Rightarrow> i64 \<Rightarrow> message" where
  "loanMsg i l b a = \<lparr>ID = i, Sender = ''op'',
     Payload = Some (JObj [(''borrower'', JStr b), (''principal'', JInt a), (''loan_id'', JStr l)]),
     Tags = [TagScripLoanMint], Antecedents = [], Timestamp = 1, Instance = ''''\<rparr>"

definition putPayMsg :: "string \<Rightarrow> string \<Rightarrow> string \<Rightarrow> i64 \<Rightarrow> message" where
  "putPayMsg i payer k a = \<lparr>ID = i, Sender = payer,
     Payload = Some (JObj [(''seller'', JStr k), (''amount'', JInt a)]),
     Tags = [TagScripPutPay], Antecedents = [], Timestamp = 2, Instance = ''''\<rparr>"

text \<open>
  C1: conservation. After a Replay the supply counter equals the sum of all balances less what the
  log's messages moved in from the escrow outside the balances (settlements and refunds in, holds
  out), counting each message ID once; modulo 2^64, as the counters are int64.
\<close>

theorem replay_supply_conservation:
  "totalSupply (fst (scripReplay s (Some log))) =
     wrap64 (circulating (fst (scripReplay s (Some log)))
       - sum_list (map (externalFlow (scripOperatorKey s)) (firstByID {} log)))"
  by (rule scripReplay_conserves) (simp add: scripReplay_def)

text \<open>
  C2: outside Replay no balance ever goes negative: whatever messages are applied, a debit that the
  account does not cover is refused. The bound is the int64 range: the largest balance and all the
  credits of the messages stay below 2^63.
\<close>

theorem live_balances_nonneg:
  assumes "\<not> scripReplaying s" and "\<forall>k. 0 \<le> Balance s k \<and> Balance s k \<le> B"
    and "B + sum_list (map payloadCredit ms) \<le> 9223372036854775807"
  shows "0 \<le> Balance (foldl applyMessage s ms) k"
  using bal_within_run[of B s ms] assms by (simp add: bal_within_def)

theorem live_balances_nonneg_witness:
  "0 \<le> Balance (foldl applyMessage (emptyLedger ''op'')
      [mintMsg ''m1'' ''op'' 5, putPayMsg ''m2'' ''op'' ''a'' 9]) ''op''"
proof (rule live_balances_nonneg[where B = 0])
  show "\<not> scripReplaying (emptyLedger ''op'')" by (simp add: emptyLedger_def)
  show "\<forall>k. 0 \<le> Balance (emptyLedger ''op'') k \<and> Balance (emptyLedger ''op'') k \<le> 0"
    by (simp add: emptyLedger_def Balance_def)
  show "0 + sum_list (map payloadCredit [mintMsg ''m1'' ''op'' 5, putPayMsg ''m2'' ''op'' ''a'' 9])
      \<le> 9223372036854775807" by code_simp
qed

text \<open>
  C4: in every state the store can reach, the outstanding-principal counter is the sum of the
  principals of the active loans, an active loan is never repaid in full, a repaid one owes no vig,
  and the borrower index lists exactly the borrower's loans, in the order they were minted.
\<close>

theorem store_loan_book:
  assumes "store_reachable opKey s"
  shows "totalLoanPrincipal s = wrap64 (\<Sum>(k, r)\<leftarrow>loans s. if loanStatus r = LoanActive then Principal r else 0)
    \<and> (\<forall>(k, r)\<in>set (loans s). loanStatus r \<noteq> LoanDefaulted
         \<and> (loanStatus r = LoanActive \<longleftrightarrow> Repaid r < Principal r)
         \<and> (loanStatus r = LoanRepaid \<longrightarrow> Outstanding r = 0))
    \<and> LoansByBorrower s b = map fst (filter (\<lambda>(k, r). BorrowerKey r = b) (loans s))"
proof -
  have ok: "ledger_ok s" using reachable_inv[OF assms] by simp
  have fn: "(\<lambda>(k, r). if loanStatus r = LoanActive then Principal r else 0) = activePrincipal \<circ> snd"
    by (auto simp: activePrincipal_def)
  have mem: "loan_ok r" if "(k, r) \<in> set (loans s)" for k r
    using ok that by (simp add: ledger_ok_def map_ok_def)
  have "loanStatus r \<noteq> LoanDefaulted \<and> (loanStatus r = LoanActive \<longleftrightarrow> Repaid r < Principal r)
      \<and> (loanStatus r = LoanRepaid \<longrightarrow> Outstanding r = 0)" if "loan_ok r" for r
    using that by (auto simp: loan_ok_def split: LoanStatus.splits)
  then show ?thesis using ok mem unfolding ledger_ok_def fn by auto
qed

theorem store_loan_book_witness:
  "totalLoanPrincipal (applyMessage (emptyLedger ''op'') (loanMsg ''m'' ''l'' ''b'' 7)) =
     wrap64 (\<Sum>(k, r)\<leftarrow>loans (applyMessage (emptyLedger ''op'') (loanMsg ''m'' ''l'' ''b'' 7)).
       if loanStatus r = LoanActive then Principal r else 0)"
proof -
  have "store_reachable ''op'' (applyMessage (emptyLedger ''op'') (loanMsg ''m'' ''l'' ''b'' 7))"
    by (auto simp: store_reachable_def intro: step_apply)
  from store_loan_book[OF this] show ?thesis by blast
qed

text \<open>
  C5: redelivery is harmless. Replaying a log in which messages repeat gives the same ledger as
  replaying each message ID once, at its first occurrence.
\<close>

theorem replay_ignores_duplicates:
  "scripReplay s (Some log) = scripReplay s (Some (firstByID {} log))"
  using fold_firstByID[of "resetLedger s\<lparr>scripReplaying := True\<rparr>" log]
  by (simp add: scripReplay_def resetLedger_def)

text \<open>
  C3: no double spend. Once an ETag has paid for a decrement it is refused for that account in every
  state the store reaches within 2^63 - 1 further calls, whatever those calls are: messages,
  credits, or Replays, which start a new epoch.
\<close>

theorem spent_etag_refused:
  assumes "store_reachable opKey s" and "DecrementBudget s k a tag = (s1, Inr r)"
    and "(store_step ^^ n) s1 t" and "2 * n + 1 < 18446744073709551616"
  shows "DecrementBudget t k b tag = (t, Inl ErrConflict)"
proof -
  obtain v t' where r: "r = (v, t')" by fastforce
  obtain e where e: "balances s k = Some e" "tag = etag e"
    "balances s1 k = Some (e\<lparr>val := v, gen := uadd64 (gen e) 1\<rparr>)" "replayEpoch s1 = replayEpoch s"
    using assms(2) unfolding r DecrementBudget_Inr by auto
  have inv: "ledger_ok s \<and> epochs_ok s" by (rule reachable_inv[OF assms(1)])
  then have ep: "epoch e = replayEpoch s" using e(1) by (auto simp: epochs_ok_def)
  have "store_step s s1" using step_decrement[of s k a tag] assms(2) by simp
  with assms(3) have "store_step\<^sup>*\<^sup>* s t" by (meson converse_rtranclp_into_rtranclp relpowp_imp_rtranclp)
  then have t: "epochs_ok t" using steps_inv inv by blast
  have "stale 0 k (replayEpoch s) (gen e) s1"
    using e by (auto simp: stale_def uadd64_def)
  from stale_conflict[OF t stale_steps[OF assms(3) this] assms(4) e(2) ep refl] show ?thesis .
qed

theorem spent_etag_refused_witness:
  "snd (DecrementBudget (applyMessage
      (fst (DecrementBudget (fst (AddBudget (emptyLedger ''op'') ''a'' 10 '''')) ''a'' 3 ''0-1''))
      (mintMsg ''m'' ''a'' 3)) ''a'' 3 ''0-1'') = Inl ErrConflict"
proof -
  let ?s = "fst (AddBudget (emptyLedger ''op'') ''a'' 10 '''')"
  have reach: "store_reachable ''op'' ?s"
    by (auto simp: store_reachable_def int64_def intro!: r_into_rtranclp step_add)
  have tag: "etag \<lparr>val = 10, gen = Suc 0, epoch = 0\<rparr> = ''0-1''" by code_simp
  have dec: "DecrementBudget ?s ''a'' 3 ''0-1'' =
      (fst (DecrementBudget ?s ''a'' 3 ''0-1''), Inr (7, etag \<lparr>val = 7, gen = 2, epoch = 0\<rparr>))"
    by (simp add: DecrementBudget_def AddBudget_def emptyLedger_def tag wrap64_def uadd64_def Let_def numeral_2_eq_2)
  have "(store_step ^^ 1) (fst (DecrementBudget ?s ''a'' 3 ''0-1''))
      (applyMessage (fst (DecrementBudget ?s ''a'' 3 ''0-1'')) (mintMsg ''m'' ''a'' 3))"
    by (auto intro: step_apply)
  from spent_etag_refused[OF reach dec this] show ?thesis by simp
qed

text \<open>
  C11: the operator gate. With an operator key configured, a message from anyone else moves nothing:
  it is remembered as seen and the rest of the ledger stays as it is.
\<close>

theorem ledger_operator_gate:
  assumes "scripOperatorKey s \<noteq> ''''" "Sender m \<noteq> scripOperatorKey s"
  shows "applyMessage s m = s\<lparr>seenMsgIDs := insert (ID m) (seenMsgIDs s)\<rparr>"
  using assms by (auto simp: applyMessage_def acceptedOp_def Let_def insert_absorb)

theorem ledger_operator_gate_witness:
  "balances (applyMessage (emptyLedger ''op'') (putPayMsg ''m'' ''eve'' ''eve'' 9)) ''eve'' = None"
  by (subst ledger_operator_gate) (simp_all add: emptyLedger_def putPayMsg_def)

text \<open>
  C12: a payment to a seller or a worker is all or nothing. Live, a payer that cannot cover the
  amount pays nothing and the payee gets nothing; otherwise exactly the amount changes hands.
\<close>

theorem payment_all_or_nothing:
  assumes "\<not> scripReplaying s" "Sender msg \<noteq> ''''" "amountOf key msg = Some (payee, a)"
  shows "Balance (applyPay key s msg) =
     (if wrap64 (Balance s (Sender msg) - a) < 0 then Balance s
      else let paid = (Balance s)(Sender msg := wrap64 (Balance s (Sender msg) - a))
           in paid(payee := wrap64 (paid payee + a)))"
  using assms by (auto simp: applyPay_eq split_beta Let_def fun_eq_iff)

theorem payment_all_or_nothing_witness:
  "Balance (applyPutPay (emptyLedger ''op'') (putPayMsg ''m'' ''op'' ''s'' 9)) = Balance (emptyLedger ''op'')"
proof -
  have "amountOf ''seller'' (putPayMsg ''m'' ''op'' ''s'' 9) = Some (''s'', 9)" by code_simp
  from payment_all_or_nothing[OF _ _ this, of "emptyLedger ''op''"]
  show ?thesis by (simp add: emptyLedger_def putPayMsg_def applyPutPay_def Balance_def wrap64_id int64_def)
qed

end
