(* ===== verification/Engine_Credit.thy ===== *)
theory Engine_Credit
  imports Scrip_Ledger
begin

text \<open>
  The engine's desk: how it emits its own messages (\<open>sendOperatorMessage\<close> of
  \<open>pkg/exchange/engine_core.go\<close>) and the money operations that emit one, then move scrip live: the
  operator mint (\<open>engine_mint.go\<close>), the deliver-on-credit rail (\<open>engine_credit.go\<close>) and the hold at
  buyer-accept (\<open>decAndSaveHold\<close>, \<open>engine_settle.go\<close>). Handlers run one at a time.
\<close>

section \<open>The engine's surroundings\<close>

text \<open>
  Options that are set once, and the outcomes of the calls that leave the program: random IDs, the clock,
  \<open>marshalFunc\<close> (which a test may make fail) and the append to the log file. Each draw takes the next number.
  \<open>MatchingFeeRate\<close> is 10, so a fee is a tenth of the price.
\<close>

record engine_env =
  OperatorPublicKey :: string
  LocalStoreSet :: bool
  ScripStoreSet :: bool
  FederationGuardEnabled :: bool
  AutoDeliverOnBuyerAccept :: bool
  env_id :: "nat \<Rightarrow> string"
  env_now :: "nat \<Rightarrow> gtime"
  env_marshal :: "nat \<Rightarrow> bool"
  env_append :: "nat \<Rightarrow> bool"

record desk =
  book :: ledger
  localLog :: "message list"
  matchToReservation :: "string \<rightharpoonup> string"
  lastEmitNanos :: i64
  creditCapRefused :: nat
  draws :: nat

datatype engine_err =
    ErrNoScrip | ErrBadRequest | ErrMarshal | ErrEmit | ErrCreditCap | ErrUnauthorized
  | ErrScrip scrip_err

abbreviation drawn :: "'z desk_scheme \<Rightarrow> 'z desk_scheme" where
  "drawn d \<equiv> d\<lparr>draws := Suc (draws d)\<rparr>"

definition newReservationID :: "'e engine_env_scheme \<Rightarrow> 'z desk_scheme \<Rightarrow> string \<times> 'z desk_scheme" where
  "newReservationID env d = (env_id env (draws d), drawn d)"

definition timeNow :: "'e engine_env_scheme \<Rightarrow> 'z desk_scheme \<Rightarrow> gtime \<times> 'z desk_scheme" where
  "timeNow env d = (env_now env (draws d), drawn d)"

definition marshal :: "'e engine_env_scheme \<Rightarrow> json \<Rightarrow> 'z desk_scheme \<Rightarrow> payload \<times> 'z desk_scheme" where
  "marshal env j d = (if env_marshal env (draws d) then Some j else None, drawn d)"

definition nextMonotonicTimestamp :: "'e engine_env_scheme \<Rightarrow> 'z desk_scheme \<Rightarrow> i64 \<times> 'z desk_scheme" where
  "nextMonotonicTimestamp env d = (case timeNow env d of (t, d1) \<Rightarrow>
     let now = (if unix_nano t \<le> lastEmitNanos d1 then wrap64 (lastEmitNanos d1 + 1) else unix_nano t)
     in (now, d1\<lparr>lastEmitNanos := now\<rparr>))"

text \<open>\<open>appendLocalRecord\<close> as the emitter sees it: the record is in the log, or nothing happened.\<close>

definition appendRecord :: "'e engine_env_scheme \<Rightarrow> message \<Rightarrow> 'z desk_scheme \<Rightarrow> bool \<times> 'z desk_scheme" where
  "appendRecord env m d = (if ID m \<noteq> '''' \<and> env_append env (draws d)
     then (True, (drawn d)\<lparr>localLog := localLog d @ [m]\<rparr>) else (False, drawn d))"

definition sendLocalOperatorMessage :: "'e engine_env_scheme \<Rightarrow> payload \<Rightarrow> string list \<Rightarrow> string list \<Rightarrow> 'z desk_scheme
    \<Rightarrow> message option \<times> 'z desk_scheme" where
  "sendLocalOperatorMessage env p tags ants d =
     (case newReservationID env d of (i, d1) \<Rightarrow>
      case nextMonotonicTimestamp env d1 of (ts, d2) \<Rightarrow>
      let m = \<lparr>ID = i, Sender = OperatorPublicKey env, Payload = p, Tags = tags, Antecedents = ants,
               Timestamp = ts, Instance = ''''\<rparr>
      in case appendRecord env m d2 of (ok, d3) \<Rightarrow> (if ok then Some m else None, d3))"

definition sendOperatorMessage :: "'e engine_env_scheme \<Rightarrow> payload \<Rightarrow> string list \<Rightarrow> string list \<Rightarrow> 'z desk_scheme
    \<Rightarrow> message option \<times> 'z desk_scheme" where
  "sendOperatorMessage env p tags ants d =
     (if \<not> LocalStoreSet env then (None, d) else sendLocalOperatorMessage env p tags ants d)"

text \<open>The live fold of an emitted message into the ledger (\<open>scripApplier\<close>).\<close>

definition foldScrip :: "message \<Rightarrow> 'z desk_scheme \<Rightarrow> 'z desk_scheme" where
  "foldScrip m d = d\<lparr>book := applyMessage (book d) m\<rparr>"

text \<open>Marshal, then send: how most emitters go.\<close>

definition emit :: "'e engine_env_scheme \<Rightarrow> json \<Rightarrow> string list \<Rightarrow> string list \<Rightarrow> 'z desk_scheme
    \<Rightarrow> (engine_err + message) \<times> 'z desk_scheme" where
  "emit env j tags ants d =
     (case marshal env j d of
        (None, d1) \<Rightarrow> (Inl ErrMarshal, d1)
      | (Some j', d1) \<Rightarrow> (case sendOperatorMessage env (Some j') tags ants d1 of
           (None, d2) \<Rightarrow> (Inl ErrEmit, d2) | (Some m, d2) \<Rightarrow> (Inr m, d2)))"

section \<open>Payloads the desk emits\<close>

definition mintPayload :: "string \<Rightarrow> i64 \<Rightarrow> string \<Rightarrow> json" where
  "mintPayload recipient amount ref = JObj [(''recipient'', JStr recipient), (''amount'', JInt amount),
     (''x402_tx_ref'', JStr ref), (''rate'', JInt 1000)]"

definition burnPayload :: "i64 \<Rightarrow> string \<Rightarrow> string \<Rightarrow> json" where
  "burnPayload amount reason src = JObj ([(''amount'', JInt amount), (''reason'', JStr reason)]
     @ (if src = '''' then [] else [(''source_msg'', JStr src)]))"

definition buyHoldPayload :: "string \<Rightarrow> i64 \<Rightarrow> i64 \<Rightarrow> i64 \<Rightarrow> string \<Rightarrow> string \<Rightarrow> string \<Rightarrow> json" where
  "buyHoldPayload buyer amount price fee rid buyMsg expires = JObj [(''buyer'', JStr buyer),
     (''amount'', JInt amount), (''price'', JInt price), (''fee'', JInt fee), (''reservation_id'', JStr rid),
     (''buy_msg'', JStr buyMsg), (''expires_at'', JStr expires)]"

definition settlePayload :: "string \<Rightarrow> string \<Rightarrow> i64 \<Rightarrow> i64 \<Rightarrow> i64 \<Rightarrow> string \<Rightarrow> json" where
  "settlePayload rid seller residual fee revenue matchMsg = JObj [(''reservation_id'', JStr rid),
     (''seller'', JStr seller), (''residual'', JInt residual), (''fee_burned'', JInt fee),
     (''exchange_revenue'', JInt revenue), (''match_msg'', JStr matchMsg), (''result_hash'', JStr '''')]"

definition refundPayload :: "string \<Rightarrow> i64 \<Rightarrow> string \<Rightarrow> string \<Rightarrow> json" where
  "refundPayload buyer amount rid disputeMsg = JObj [(''buyer'', JStr buyer), (''amount'', JInt amount),
     (''reservation_id'', JStr rid), (''dispute_msg'', JStr disputeMsg)]"

definition loanMintPayload :: "string \<Rightarrow> i64 \<Rightarrow> string \<Rightarrow> string \<Rightarrow> string \<Rightarrow> json" where
  "loanMintPayload borrower amount loanID settlement commitment = JObj [(''borrower'', JStr borrower),
     (''principal'', JInt amount), (''vig_rate_bps'', JInt 0), (''due_at'', JStr ''''),
     (''loan_id'', JStr loanID), (''settlement_msg_id'', JStr settlement),
     (''commitment_token_id'', JStr commitment)]"

definition loanRepayPayload :: "string \<Rightarrow> i64 \<Rightarrow> json" where
  "loanRepayPayload loanID amount = JObj [(''loan_id'', JStr loanID), (''amount'', JInt amount)]"

section \<open>The operator's mint\<close>

definition MintScrip :: "'e engine_env_scheme \<Rightarrow> string \<Rightarrow> i64 \<Rightarrow> 'z desk_scheme \<Rightarrow> engine_err option \<times> 'z desk_scheme" where
  "MintScrip env recipient amount d =
     (if \<not> ScripStoreSet env then (Some ErrNoScrip, d)
      else if recipient = '''' \<or> amount \<le> 0 then (Some ErrBadRequest, d)
      else case timeNow env d of (now, d1) \<Rightarrow>
        case emit env (mintPayload recipient amount (''operator-mint-'' @ show_i64 (unix_nano now))) [TagScripMint] [] d1 of
          (Inl e, d2) \<Rightarrow> (Some e, d2)
        | (Inr m, d2) \<Rightarrow> (None, foldScrip m d2))"

section \<open>Credit\<close>

definition creditTierEligible :: "'e engine_env_scheme \<Rightarrow> bool" where
  "creditTierEligible env \<longleftrightarrow> ScripStoreSet env \<and> \<not> FederationGuardEnabled env"

definition creditMaxOutstandingPerBuyer :: i64 where "creditMaxOutstandingPerBuyer = 300000"

definition owedOn :: "ledger \<Rightarrow> string \<Rightarrow> i64 option" where
  "owedOn s loanID = (case GetLoan s loanID of None \<Rightarrow> None
     | Some r \<Rightarrow> if loanStatus r \<noteq> LoanActive then None else Some (wrap64 (Principal r - Repaid r)))"

definition borrowerOutstandingPrincipal :: "ledger \<Rightarrow> string \<Rightarrow> i64" where
  "borrowerOutstandingPrincipal s borrower =
     foldl (\<lambda>tot l. case owedOn s l of None \<Rightarrow> tot | Some o1 \<Rightarrow> wrap64 (tot + o1)) 0 (LoansByBorrower s borrower)"

text \<open>Half of the credit is withheld, at most what is owed; the product may wrap.\<close>

definition repaymentAmount :: "ledger \<Rightarrow> string \<Rightarrow> i64 \<Rightarrow> i64" where
  "repaymentAmount s borrower gross =
     (if gross \<le> 0 then 0
      else let outstanding = borrowerOutstandingPrincipal s borrower in
        if outstanding \<le> 0 then 0
        else let w = goquot (wrap64 (gross * 50)) 100;
                 w1 = (if w > outstanding then outstanding else w)
             in if w1 > gross then gross else w1)"

text \<open>The loop of \<open>applyRepayment\<close> over the borrower's loans, oldest first.\<close>

fun repayLoop :: "'e engine_env_scheme \<Rightarrow> string \<Rightarrow> string list \<Rightarrow> i64 \<Rightarrow> 'z desk_scheme \<Rightarrow> 'z desk_scheme" where
  "repayLoop env cause [] remaining d = d"
| "repayLoop env cause (l # ls) remaining d =
     (if remaining \<le> 0 then d
      else case owedOn (book d) l of
          None \<Rightarrow> repayLoop env cause ls remaining d
        | Some owed \<Rightarrow>
            if owed \<le> 0 then repayLoop env cause ls remaining d
            else let apply1 = (if remaining > owed then owed else remaining) in
              (case emit env (loanRepayPayload l apply1) [TagScripLoanRepay] [cause] d of
                 (Inl e, d1) \<Rightarrow> repayLoop env cause ls remaining d1
               | (Inr m, d1) \<Rightarrow> repayLoop env cause ls (remaining - apply1) (foldScrip m d1)))"

definition applyRepayment :: "'e engine_env_scheme \<Rightarrow> string \<Rightarrow> i64 \<Rightarrow> string \<Rightarrow> 'z desk_scheme \<Rightarrow> 'z desk_scheme" where
  "applyRepayment env borrower amount cause d =
     (if amount \<le> 0 then d
      else repayLoop env cause (LoansByBorrower (book d) borrower) amount d)"

definition ensureCreditForShortfall :: "'e engine_env_scheme \<Rightarrow> string \<Rightarrow> i64 \<Rightarrow> string \<Rightarrow> string \<Rightarrow> 'z desk_scheme
    \<Rightarrow> engine_err option \<times> 'z desk_scheme" where
  "ensureCreditForShortfall env buyer hold acceptID matchID d =
     (if \<not> creditTierEligible env \<or> hold \<le> 0 then (None, d)
      else case GetBudget (book d) buyer of (bal, _) \<Rightarrow>
        if bal \<ge> hold then (None, d)
        else let shortfall = wrap64 (hold - bal) in
          if wrap64 (borrowerOutstandingPrincipal (book d) buyer + shortfall) > creditMaxOutstandingPerBuyer
          then (Some ErrCreditCap, d\<lparr>creditCapRefused := Suc (creditCapRefused d)\<rparr>)
          else case newReservationID env d of (rid, d1) \<Rightarrow>
            (case emit env (loanMintPayload buyer shortfall (''loan-'' @ rid) acceptID (''auto-credit:'' @ matchID))
                    [TagScripLoanMint] [acceptID] d1 of
               (Inl e, d2) \<Rightarrow> (Some e, d2)
             | (Inr m, d2) \<Rightarrow> (None, foldScrip m d2)))"

section \<open>The hold at buyer-accept\<close>

definition BalanceKey :: string where "BalanceKey = ''scrip:balance''"

definition reservationFor :: "'z desk_scheme \<Rightarrow> string \<Rightarrow> string option" where
  "reservationFor d matchID = matchToReservation d matchID"

definition setReservation :: "string \<Rightarrow> string \<Rightarrow> 'z desk_scheme \<Rightarrow> 'z desk_scheme" where
  "setReservation matchID rid d = d\<lparr>matchToReservation := (matchToReservation d)(matchID \<mapsto> rid)\<rparr>"

definition deleteReservation :: "string \<Rightarrow> 'z desk_scheme \<Rightarrow> 'z desk_scheme" where
  "deleteReservation matchID d = d\<lparr>matchToReservation := (matchToReservation d)(matchID := None)\<rparr>"

definition ReservationExpiryDuration :: int where "ReservationExpiryDuration = 5 * minute"

definition decAndSaveHold :: "'e engine_env_scheme \<Rightarrow> string \<Rightarrow> string \<Rightarrow> string \<Rightarrow> i64 \<Rightarrow> i64 \<Rightarrow> i64 \<Rightarrow> 'z desk_scheme
    \<Rightarrow> engine_err option \<times> 'z desk_scheme" where
  "decAndSaveHold env buyer acceptID matchID hold price fee d =
     (case GetBudget (book d) buyer of (bal, tag) \<Rightarrow>
      if bal < hold then (Some (ErrScrip ErrBudgetExceeded), d)
      else case newReservationID env d of (rid, d1) \<Rightarrow>
      case timeNow env d1 of (now, d2) \<Rightarrow>
      case emit env (buyHoldPayload buyer hold price fee rid matchID
             (format_rfc3339 (now + ReservationExpiryDuration))) [TagScripBuyHold] [acceptID] d2 of
        (Inl e, d3) \<Rightarrow> (Some e, d3)
      | (Inr m, d3) \<Rightarrow>
         (case DecrementBudget (book d3) buyer hold tag of
            (b, Inl e) \<Rightarrow> (Some (ErrScrip e), d3\<lparr>book := b\<rparr>)
          | (b, Inr (v, newTag)) \<Rightarrow>
             (case timeNow env (d3\<lparr>book := b\<rparr>) of (created, d4) \<Rightarrow>
                (None, setReservation matchID rid (d4\<lparr>book := SaveReservation (book d4) \<lparr>r_ID = rid, r_AgentKey = buyer,
                    r_RK = BalanceKey, r_ETag = newTag, r_Amount = hold, r_CreatedAt = created\<rparr>\<rparr>)))))"

section \<open>What an emission does\<close>

lemma send_Some:
  assumes "sendOperatorMessage env p tags ants d = (Some m, d')"
  shows "Payload m = p" "Tags m = tags" "Antecedents m = ants" "Sender m = OperatorPublicKey env"
    "ID m = env_id env (draws d)" "ID m \<noteq> ''''" "localLog d' = localLog d @ [m]" "book d' = book d"
    "matchToReservation d' = matchToReservation d" "draws d < draws d'" "lastEmitNanos d' = Timestamp m"
    "creditCapRefused d' = creditCapRefused d" "desk.more d' = desk.more d"
  using assms
  by (auto simp: sendOperatorMessage_def sendLocalOperatorMessage_def newReservationID_def timeNow_def
      nextMonotonicTimestamp_def appendRecord_def Let_def split: prod.splits if_splits)

lemma send_None:
  assumes "sendOperatorMessage env p tags ants d = (None, d')"
  shows "localLog d' = localLog d" "book d' = book d" "matchToReservation d' = matchToReservation d"
    "draws d \<le> draws d'" "creditCapRefused d' = creditCapRefused d" "desk.more d' = desk.more d"
  using assms
  by (auto simp: sendOperatorMessage_def sendLocalOperatorMessage_def newReservationID_def timeNow_def
      nextMonotonicTimestamp_def appendRecord_def Let_def split: prod.splits if_splits)

lemma marshal_frame:
  assumes "marshal env j d = (r, d')"
  shows "localLog d' = localLog d" "book d' = book d" "matchToReservation d' = matchToReservation d"
    "draws d' = Suc (draws d)" "creditCapRefused d' = creditCapRefused d" "desk.more d' = desk.more d"
    "r = None \<or> r = Some j"
  using assms by (auto simp: marshal_def)

lemma emit_Inr:
  assumes "emit env j tags ants d = (Inr m, d')"
  shows "Payload m = Some j" "Tags m = tags" "Antecedents m = ants" "Sender m = OperatorPublicKey env"
    "ID m = env_id env (Suc (draws d))" "ID m \<noteq> ''''" "localLog d' = localLog d @ [m]" "book d' = book d"
    "matchToReservation d' = matchToReservation d" "Suc (draws d) < draws d'"
    "creditCapRefused d' = creditCapRefused d" "desk.more d' = desk.more d"
proof -
  have "sendOperatorMessage env (Some j) tags ants (drawn d) = (Some m, d')"
    using assms by (auto simp: emit_def marshal_def split: prod.splits option.splits if_splits)
  note sh = send_Some[OF this]
  show "Payload m = Some j" "Tags m = tags" "Antecedents m = ants" "Sender m = OperatorPublicKey env"
    "ID m = env_id env (Suc (draws d))" "ID m \<noteq> ''''" "localLog d' = localLog d @ [m]" "book d' = book d"
    "matchToReservation d' = matchToReservation d" "Suc (draws d) < draws d'"
    "creditCapRefused d' = creditCapRefused d" "desk.more d' = desk.more d"
    using sh by simp_all
qed

lemma emit_Inl:
  assumes "emit env j tags ants d = (Inl e, d')"
  shows "localLog d' = localLog d" "book d' = book d" "matchToReservation d' = matchToReservation d"
    "draws d \<le> draws d'" "creditCapRefused d' = creditCapRefused d" "desk.more d' = desk.more d"
proof -
  have "d' = drawn d \<or> sendOperatorMessage env (Some j) tags ants (drawn d) = (None, d')"
    using assms by (auto simp: emit_def marshal_def split: prod.splits option.splits if_splits)
  then show "localLog d' = localLog d" "book d' = book d" "matchToReservation d' = matchToReservation d"
    "draws d \<le> draws d'" "creditCapRefused d' = creditCapRefused d" "desk.more d' = desk.more d"
    by (auto dest: send_None)
qed

lemma draw_frame:
  "newReservationID env d = (i, d') \<longleftrightarrow> i = env_id env (draws d) \<and> d' = drawn d"
  "timeNow env d = (t, d') \<longleftrightarrow> t = env_now env (draws d) \<and> d' = drawn d"
  by (auto simp: newReservationID_def timeNow_def)

section \<open>What the ledger decodes of the payloads\<close>

lemmas decode = lower_char_def unmarshal_def find_field_def on_field_def int64_def

lemma decode_mint: "Payload m = Some (mintPayload k a r) \<Longrightarrow> k \<noteq> '''' \<Longrightarrow> 0 < a \<Longrightarrow> int64 a \<Longrightarrow>
    amountOf ''recipient'' m = Some (k, a)"
  by (simp add: amountOf_def mintPayload_def amountFields_def amountZero_def decode)

lemma decode_hold: "Payload m = Some (buyHoldPayload k a p f r b e) \<Longrightarrow> k \<noteq> '''' \<Longrightarrow> 0 < a \<Longrightarrow> int64 a \<Longrightarrow>
    amountOf ''buyer'' m = Some (k, a)"
  by (simp add: amountOf_def buyHoldPayload_def amountFields_def amountZero_def decode)

lemma decode_refund: "Payload m = Some (refundPayload k a r c) \<Longrightarrow> k \<noteq> '''' \<Longrightarrow> 0 < a \<Longrightarrow> int64 a \<Longrightarrow>
    amountOf ''buyer'' m = Some (k, a)"
  by (simp add: amountOf_def refundPayload_def amountFields_def amountZero_def decode)

lemma decode_repay: "Payload m = Some (loanRepayPayload l a) \<Longrightarrow> l \<noteq> '''' \<Longrightarrow> 0 < a \<Longrightarrow> int64 a \<Longrightarrow>
    amountOf ''loan_id'' m = Some (l, a)"
  by (simp add: amountOf_def loanRepayPayload_def amountFields_def amountZero_def decode)

lemma decode_settle: "Payload m = Some (settlePayload r k a f v c) \<Longrightarrow> int64 a \<Longrightarrow> int64 f \<Longrightarrow> int64 v \<Longrightarrow>
    unmarshal settleFields (Payload m) settleZero =
      (\<lparr>sp_Seller = k, sp_Residual = a, sp_FeeBurned = f, sp_ExchangeRevenue = v\<rparr>, True)"
  by (simp add: settlePayload_def settleFields_def settleZero_def decode)

lemma decode_loan: "Payload m = Some (loanMintPayload k a l s c) \<Longrightarrow> int64 a \<Longrightarrow>
    unmarshal loanMintFields (Payload m) loanMintZero = (\<lparr>lm_Borrower = k, lm_Principal = a, lm_VigRateBPS = 0,
      lm_DueAt = '''', lm_LoanID = l, lm_SettlementMsgID = s, lm_CommitmentTokenID = c\<rparr>, True)"
  by (simp add: loanMintPayload_def loanMintFields_def loanMintZero_def decode)

section \<open>The running ledger and the log\<close>

text \<open>What of a ledger decides purchases: the balances and the loan book.\<close>

definition view :: "ledger \<Rightarrow> (string \<Rightarrow> i64) \<times> (string \<times> LoanRecord) list \<times> (string \<rightharpoonup> string list)" where
  "view s = (Balance s, loans s, loansByBorrower s)"

definition replayedLedger :: "'e engine_env_scheme \<Rightarrow> 'z desk_scheme \<Rightarrow> ledger" where
  "replayedLedger env d = foldl applyMessage ((resetLedger (emptyLedger (OperatorPublicKey env)))\<lparr>scripReplaying := True\<rparr>) (localLog d)"

definition fresh_draws :: "'e engine_env_scheme \<Rightarrow> 'z desk_scheme \<Rightarrow> bool" where
  "fresh_draws env d \<longleftrightarrow> inj (env_id env) \<and> (\<forall>n \<ge> draws d. env_id env n \<notin> ID ` set (localLog d))"

definition book_ok :: "'e engine_env_scheme \<Rightarrow> ledger \<Rightarrow> message list \<Rightarrow> bool" where
  "book_ok env b log \<longleftrightarrow> ledger_ok b \<and> \<not> scripReplaying b \<and> scripOperatorKey b = OperatorPublicKey env
     \<and> seenMsgIDs b \<subseteq> ID ` set log"

definition in_step :: "'e engine_env_scheme \<Rightarrow> 'z desk_scheme \<Rightarrow> bool" where
  "in_step env d \<longleftrightarrow> book_ok env (book d) (localLog d) \<and> fresh_draws env d
     \<and> view (book d) = view (replayedLedger env d)"

lemma view_eq: "view s = view t \<longleftrightarrow> Balance s = Balance t \<and> loans s = loans t \<and> loansByBorrower s = loansByBorrower t"
  by (simp add: view_def)

lemma Balance_add: "Balance (addToBalance s k a) = (Balance s)(k := wrap64 (Balance s k + a))"
  by (simp add: fun_eq_iff)

lemma Balance_sub_replay: "scripReplaying s \<Longrightarrow> Balance (fst (subtractFromBalance s k a)) = (Balance s)(k := wrap64 (Balance s k - a))"
  by (simp add: fun_eq_iff)

lemma Balance_sub_covered: "0 \<le> wrap64 (Balance s k - a) \<Longrightarrow>
    Balance (fst (subtractFromBalance s k a)) = (Balance s)(k := wrap64 (Balance s k - a))
    \<and> snd (subtractFromBalance s k a)"
  by (auto simp: subtractFromBalance_def Let_def Balance_def entryOrNew_def fun_eq_iff split: option.splits)

lemma view_frame [simp]:
  "view (s\<lparr>totalSupply := u\<rparr>) = view s" "view (s\<lparr>totalBurned := u\<rparr>) = view s"
  "view (s\<lparr>totalLoanPrincipal := u\<rparr>) = view s" "view (s\<lparr>seenMsgIDs := w\<rparr>) = view s"
  "view (s\<lparr>reservations := r\<rparr>) = view s" "view (SaveReservation s x) = view s"
  "view (s\<lparr>scripReplaying := y\<rparr>) = view s"
  by (simp_all add: view_def SaveReservation_def Balance_def fun_eq_iff)

lemma view_add: "view s = view t \<Longrightarrow> view (addToBalance s k a) = view (addToBalance t k a)"
  by (simp add: view_eq Balance_add)

lemma fold_seen: "seenMsgIDs (foldl applyMessage s ms) = seenMsgIDs s \<union> ID ` set ms"
  by (induction ms arbitrary: s) (auto simp: applyMessage_def Let_def)

lemma replayed_frame [simp]:
  "seenMsgIDs (replayedLedger env d) = ID ` set (localLog d)" "scripReplaying (replayedLedger env d)"
  "scripOperatorKey (replayedLedger env d) = OperatorPublicKey env"
  by (simp_all add: replayedLedger_def fold_seen emptyLedger_def resetLedger_def)

lemma replayed_append: "localLog d' = localLog d @ [m] \<Longrightarrow> replayedLedger env d' = applyMessage (replayedLedger env d) m"
  by (simp add: replayedLedger_def)

lemma replayed_cong: "localLog d' = localLog d \<Longrightarrow> replayedLedger env d' = replayedLedger env d"
  by (simp add: replayedLedger_def)

lemma applyMessage_op: "ID m \<notin> seenMsgIDs s \<Longrightarrow> scripOperatorKey s = Sender m \<Longrightarrow> scripOp (Tags m) = tag \<Longrightarrow> tag \<noteq> '''' \<Longrightarrow>
    applyMessage s m = applyScripOp tag (s\<lparr>seenMsgIDs := insert (ID m) (seenMsgIDs s)\<rparr>) m"
  by (simp add: applyMessage_def acceptedOp_def)

lemma fresh_send: "fresh_draws env d \<Longrightarrow> emit env j tags ants d = (Inr m, d') \<Longrightarrow>
    ID m \<notin> ID ` set (localLog d) \<and> fresh_draws env d'"
  using emit_Inr(5,7,10)[of env j tags ants d m d'] by (auto simp: fresh_draws_def dest!: injD)

lemma fresh_later: "fresh_draws env d \<Longrightarrow> localLog d' = localLog d \<Longrightarrow> draws d \<le> draws d' \<Longrightarrow> fresh_draws env d'"
  by (simp add: fresh_draws_def)

text \<open>The same while the running ledger still owes \<open>k\<close> the amount \<open>a\<close> that the log already gives.\<close>

definition owing :: "'e engine_env_scheme \<Rightarrow> string \<Rightarrow> i64 \<Rightarrow> 'z desk_scheme \<Rightarrow> bool" where
  "owing env k a d \<longleftrightarrow> book_ok env (book d) (localLog d) \<and> fresh_draws env d
     \<and> view (replayedLedger env d) = view (addToBalance (book d) k a)"

lemma view_add_0: "ledger_ok s \<Longrightarrow> view (addToBalance s k 0) = view s"
  by (auto simp: view_eq Balance_add ledger_ok_def wrap64_id fun_eq_iff)

lemma in_step_owing: "in_step env d \<longleftrightarrow> owing env k 0 d"
  by (auto simp: in_step_def owing_def book_ok_def view_add_0)

text \<open>Nothing of the ledger or the log has changed.\<close>

lemma owing_idle: "owing env k a d \<Longrightarrow> localLog d' = localLog d \<Longrightarrow> book d' = book d \<Longrightarrow> draws d \<le> draws d' \<Longrightarrow> owing env k a d'"
  unfolding owing_def using replayed_cong[of d' d env] fresh_later[of env d d'] by simp

lemma in_step_idle: "in_step env d \<Longrightarrow> localLog d' = localLog d \<Longrightarrow> book d' = book d \<Longrightarrow> draws d \<le> draws d' \<Longrightarrow> in_step env d'"
  unfolding in_step_def using replayed_cong[of d' d env] fresh_later[of env d d'] by simp

text \<open>
  An emitted record of the operation \<open>tag\<close>: the log's ledger advances by it. What the desk does with its own
  ledger must come to the same view.
\<close>

lemma in_step_emit:
  assumes d: "in_step env d" and s: "emit env j [tag] ants d = (Inr m, d1)" and tag: "tag \<in> set scripTags"
    and log: "localLog d' = localLog d1" and dr: "draws d1 \<le> draws d'"
    and book: "book_ok env (book d') (localLog d1)"
    and v: "view (book d') = view (applyScripOp tag (replayedLedger env d\<lparr>seenMsgIDs := insert (ID m) (ID ` set (localLog d))\<rparr>) m)"
  shows "in_step env d'"
proof -
  note sh = emit_Inr[OF s]
  have fr: "ID m \<notin> ID ` set (localLog d)" "fresh_draws env d1"
    using fresh_send[OF _ s] d by (simp_all add: in_step_def)
  have "tag \<noteq> ''''" using tag by (auto simp: scripTags_def)
  then have "replayedLedger env d' = applyScripOp tag (replayedLedger env d\<lparr>seenMsgIDs := insert (ID m) (ID ` set (localLog d))\<rparr>) m"
    using sh fr tag log replayed_append[of d' d m env] applyMessage_op[of m "replayedLedger env d" tag] by simp
  with v book fr log dr show ?thesis by (auto simp: in_step_def intro: fresh_later)
qed

text \<open>The emitter folds its message into the running ledger.\<close>

lemma book_ok_fold: "book_ok env b log \<Longrightarrow> book_ok env (applyMessage b m) (log @ [m])"
  by (auto simp: book_ok_def ledger_ok_applyMessage)

lemma owing_fold:
  assumes d: "owing env k a d" and s: "emit env j [tag] ants d = (Inr m, d1)" and tag: "tag \<in> set scripTags"
    and v: "\<And>s t. view t = view (addToBalance s k a) \<Longrightarrow> scripReplaying t \<Longrightarrow> view s = view (book d) \<Longrightarrow>
       view (applyScripOp tag t m) = view (addToBalance (applyScripOp tag s m) k a)"
  shows "owing env k a (foldScrip m d1)"
proof -
  note sh = emit_Inr[OF s]
  have ok: "book_ok env (book d) (localLog d)" and vw: "view (replayedLedger env d) = view (addToBalance (book d) k a)"
    and fd: "fresh_draws env d" using d by (simp_all add: owing_def)
  note fr = fresh_send[OF fd s]
  have new: "tag \<noteq> ''''" "ID m \<notin> seenMsgIDs (book d)" "scripOperatorKey (book d) = Sender m" "scripOp (Tags m) = tag"
    using tag fr ok sh by (auto simp: scripTags_def book_ok_def)
  have b: "book (foldScrip m d1) = applyScripOp tag (book d\<lparr>seenMsgIDs := insert (ID m) (seenMsgIDs (book d))\<rparr>) m"
    using sh(8) applyMessage_op[OF new(2,3,4,1)] by (simp add: foldScrip_def)
  have r: "replayedLedger env (foldScrip m d1)
      = applyScripOp tag (replayedLedger env d\<lparr>seenMsgIDs := insert (ID m) (ID ` set (localLog d))\<rparr>) m"
    using sh fr new replayed_append[of "foldScrip m d1" d m env] applyMessage_op[of m "replayedLedger env d" tag]
    by (simp add: foldScrip_def)
  have fresh: "fresh_draws env (foldScrip m d1)" by (rule fresh_later[of env d1]) (use fr in \<open>simp_all add: foldScrip_def\<close>)
  have "book_ok env (book (foldScrip m d1)) (localLog (foldScrip m d1))"
    using book_ok_fold[OF ok, of m] sh(7,8) by (simp add: foldScrip_def)
  moreover have "view (replayedLedger env (foldScrip m d1)) = view (addToBalance (book (foldScrip m d1)) k a)"
    unfolding r b by (rule v) (use vw in \<open>simp_all add: view_eq Balance_add\<close>)
  ultimately show ?thesis using fresh by (simp add: owing_def)
qed

lemma in_step_fold:
  assumes d: "in_step env d" and s: "emit env j [tag] ants d = (Inr m, d1)" and tag: "tag \<in> set scripTags"
    and v: "\<And>s t. view s = view t \<Longrightarrow> view (applyScripOp tag s m) = view (applyScripOp tag t m)"
  shows "in_step env (foldScrip m d1)"
proof -
  have ok: "ledger_ok (applyScripOp tag (book d) m)" using d ledger_ok_op by (simp add: in_step_def book_ok_def)
  have z: "view (addToBalance u k 0) = view u" if "view u = view w" "ledger_ok w" for u w :: ledger and k
    using view_add[OF that(1), of k 0] view_add_0[OF that(2)] that(1) by simp
  have "owing env '''' 0 (foldScrip m d1)"
  proof (rule owing_fold[OF _ s tag])
    show "owing env '''' 0 d" using d in_step_owing by blast
    fix s t assume st: "view t = view (addToBalance s '''' 0)" "view s = view (book d)"
    have l: "ledger_ok (book d)" using d by (simp add: in_step_def book_ok_def)
    have "view t = view s" using st z[OF st(2) l] by simp
    then show "view (applyScripOp tag t m) = view (addToBalance (applyScripOp tag s m) '''' 0)"
      using v[of t s] z[OF v[OF st(2)] ok] by simp
  qed
  then show ?thesis using in_step_owing by blast
qed

section \<open>Operations on equal views\<close>

lemma view_Mint: "view s = view t \<Longrightarrow> view (applyMint s m) = view (applyMint t m)"
  by (auto simp: applyMint_eq intro: view_add split: option.splits)

lemma view_Refund: "view s = view t \<Longrightarrow> view (applyDisputeRefund s m) = view (applyDisputeRefund t m)"
  by (auto simp: applyDisputeRefund_eq intro: view_add split: option.splits)

lemma view_Settle: "view s = view t \<Longrightarrow> view (applyScripSettle_ledger s m) = view (applyScripSettle_ledger t m)"
  by (auto simp: applyScripSettle_eq Let_def intro!: view_add split: option.splits)

lemma view_LoanMint: "view s = view t \<Longrightarrow> view (applyLoanMint s m) = view (applyLoanMint t m)"
  by (auto simp: applyLoanMint_eq view_eq Balance_add split: option.splits)

lemma view_putRepaid: "view s = view t \<Longrightarrow> view (putRepaid s l r a) = view (putRepaid t l r a)"
  by (simp add: view_eq putRepaid_def Balance_def)

lemma view_sub: "view s = view t \<Longrightarrow> 0 \<le> wrap64 (Balance s k - a) \<Longrightarrow> scripReplaying t \<Longrightarrow>
    view (fst (subtractFromBalance s k a)) = view (fst (subtractFromBalance t k a))"
  using Balance_sub_covered[of s k a] Balance_sub_replay[of t k a] by (simp add: view_eq)

lemma sub_replay_done: "scripReplaying t \<Longrightarrow> snd (subtractFromBalance t k a)"
  by (simp add: subtractFromBalance_def Let_def)

definition repay_covered :: "ledger \<Rightarrow> message \<Rightarrow> bool" where
  "repay_covered s m \<longleftrightarrow> (\<forall>l a r. amountOf ''loan_id'' m = Some (l, a) \<longrightarrow> map_of (loans s) l = Some r \<longrightarrow>
     0 \<le> wrap64 (Balance s (BorrowerKey r) - a))"

lemma applyLoanRepay_covered:
  assumes m: "amountOf ''loan_id'' m = Some (l, a)" and r: "map_of (loans s) l = Some r" "loanStatus r = LoanActive"
    and c: "scripReplaying s \<or> 0 \<le> wrap64 (Balance s (BorrowerKey r) - a)"
  shows "view (applyLoanRepay s m) = (if BorrowerKey r = '''' then Balance s
      else (Balance s)(BorrowerKey r := wrap64 (Balance s (BorrowerKey r) - a)),
      AList.update l (repayLoan r a) (loans s), loansByBorrower s)"
proof -
  have "Balance (fst (subtractFromBalance s (BorrowerKey r) a)) = (Balance s)(BorrowerKey r := wrap64 (Balance s (BorrowerKey r) - a))
      \<and> snd (subtractFromBalance s (BorrowerKey r) a)"
    using c Balance_sub_covered Balance_sub_replay sub_replay_done by blast
  then show ?thesis using m r by (simp add: applyLoanRepay_eq putRepaid_def view_def)
qed

lemma view_LoanRepay:
  assumes v: "view t = view (addToBalance s k w)" and t: "scripReplaying t" and c: "repay_covered s m"
  shows "view (applyLoanRepay t m) = view (addToBalance (applyLoanRepay s m) k w)"
proof (cases "amountOf ''loan_id'' m")
  case None
  then show ?thesis using v by (simp add: applyLoanRepay_eq)
next
  case (Some la)
  obtain l a where la: "la = (l, a)" by fastforce
  have l: "loans t = loans s" "loansByBorrower t = loansByBorrower s" "Balance t = (Balance s)(k := wrap64 (Balance s k + w))"
    using v by (simp_all add: view_eq Balance_add)
  show ?thesis
  proof (cases "\<exists>r. map_of (loans s) l = Some r \<and> loanStatus r = LoanActive")
    case False
    then have "applyLoanRepay s m = s" "applyLoanRepay t m = t"
      using Some la l by (auto simp: applyLoanRepay_eq split: option.splits)
    then show ?thesis using v by simp
  next
    case True
    then obtain r where r: "map_of (loans s) l = Some r" "loanStatus r = LoanActive" by blast
    have m: "amountOf ''loan_id'' m = Some (l, a)" using Some la by simp
    have cs: "0 \<le> wrap64 (Balance s (BorrowerKey r) - a)" using c m r by (simp add: repay_covered_def)
    note es = applyLoanRepay_covered[OF m r disjI2[OF cs]]
    have rt: "map_of (loans t) l = Some r" using r l by simp
    note et = applyLoanRepay_covered[OF m rt r(2) disjI1[OF t]]
    have "wrap64 (wrap64 (x + w) - a) = wrap64 (wrap64 (x - a) + w)" for x by (simp add: algebra_simps)
    then show ?thesis using es et l by (auto simp: view_def Balance_add fun_eq_iff)
  qed
qed

section \<open>The desk keeps ledger and log in step\<close>

lemma op_simps [simp]:
  "applyScripOp TagScripMint = applyMint" "applyScripOp TagScripBurn = applyBurn"
  "applyScripOp TagScripBuyHold = applyBuyHold" "applyScripOp TagScripSettle = applyScripSettle_ledger"
  "applyScripOp TagScripDisputeRefund = applyDisputeRefund" "applyScripOp TagScripLoanMint = applyLoanMint"
  "applyScripOp TagScripLoanRepay = applyLoanRepay"
  by (simp_all add: applyScripOp_def fun_eq_iff)

lemma in_step_drawn [simp]: "in_step env d \<Longrightarrow> in_step env (drawn d)"
  by (erule in_step_idle) simp_all

lemma in_step_fail: "in_step env d \<Longrightarrow> emit env j tags ants d = (Inl e, d') \<Longrightarrow> in_step env d'"
  using emit_Inl[of env j tags ants d e d'] by (auto intro: in_step_idle)

lemma owing_fail: "owing env k a d \<Longrightarrow> emit env j tags ants d = (Inl e, d') \<Longrightarrow> owing env k a d'"
  using emit_Inl[of env j tags ants d e d'] by (auto intro: owing_idle)

lemma op_tags [simp]: "TagScripMint \<in> set scripTags" "TagScripBurn \<in> set scripTags"
  "TagScripBuyHold \<in> set scripTags" "TagScripSettle \<in> set scripTags" "TagScripDisputeRefund \<in> set scripTags"
  "TagScripLoanMint \<in> set scripTags" "TagScripLoanRepay \<in> set scripTags"
  by (simp_all add: scripTags_def)

definition plain_op :: "string \<Rightarrow> bool" where
  "plain_op tag \<longleftrightarrow> tag \<in> {TagScripMint, TagScripSettle, TagScripDisputeRefund, TagScripLoanMint}"

lemma plain_op_tags [simp]: "plain_op TagScripMint" "plain_op TagScripSettle" "plain_op TagScripDisputeRefund"
  "plain_op TagScripLoanMint"
  by (simp_all add: plain_op_def)

lemma view_plain: "plain_op tag \<Longrightarrow> view s = view t \<Longrightarrow> view (applyScripOp tag s m) = view (applyScripOp tag t m)"
  by (auto simp: plain_op_def intro: view_Mint view_Settle view_Refund view_LoanMint)

lemma in_step_fold_plain: "in_step env d \<Longrightarrow> emit env j [tag] ants d = (Inr m, d1) \<Longrightarrow> plain_op tag \<Longrightarrow> in_step env (foldScrip m d1)"
  by (rule in_step_fold) (auto simp: plain_op_def intro!: view_plain)

lemma in_step_MintScrip: "in_step env d \<Longrightarrow> in_step env (snd (MintScrip env k a d))"
  by (auto simp: MintScrip_def draw_frame split: prod.split sum.split
      dest: in_step_fail[OF in_step_drawn] in_step_fold_plain[OF in_step_drawn])

lemma in_step_credit: "in_step env d \<Longrightarrow> in_step env (snd (ensureCreditForShortfall env b h i j d))"
  by (auto simp: ensureCreditForShortfall_def draw_frame Let_def split: prod.split sum.split
      dest: in_step_fail[OF in_step_drawn] in_step_fold_plain[OF in_step_drawn] intro: in_step_idle)

text \<open>A repayment the borrower's balance covers is applied live and on replay alike.\<close>

lemma loans_of: "ledger_ok s \<Longrightarrow> l \<in> set (LoansByBorrower s b) \<Longrightarrow> \<exists>r. map_of (loans s) l = Some r \<and> BorrowerKey r = b"
  by (auto simp: ledger_ok_def map_ok_def)

lemma owedOn_Some: "owedOn s l = Some w \<longleftrightarrow>
    (\<exists>r. map_of (loans s) l = Some r \<and> loanStatus r = LoanActive \<and> w = wrap64 (Principal r - Repaid r))"
  by (auto simp: owedOn_def GetLoan_def split: option.splits)

lemma repay_amount: "Payload m = Some (loanRepayPayload l a) \<Longrightarrow> 0 < a \<Longrightarrow> int64 a \<Longrightarrow>
    amountOf ''loan_id'' m = (if l = '''' then None else Some (l, a))"
  by (auto simp: decode_repay) (simp add: amountOf_def loanRepayPayload_def amountFields_def amountZero_def decode)

lemma repay_live:
  assumes d: "owing env k w d" and e: "emit env (loanRepayPayload l a) [TagScripLoanRepay] ants d = (Inr m, d1)"
    and r: "map_of (loans (book d)) l = Some r" "loanStatus r = LoanActive"
    and a: "0 < a" "a \<le> Balance (book d) (BorrowerKey r)"
  shows "owing env k w (foldScrip m d1)"
    "Balance (book d) (BorrowerKey r) - a \<le> Balance (book (foldScrip m d1)) (BorrowerKey r)"
    "\<And>k r'. map_of (loans (book d)) k = Some r' \<Longrightarrow>
       \<exists>r2. map_of (loans (book (foldScrip m d1))) k = Some r2 \<and> BorrowerKey r2 = BorrowerKey r'"
proof -
  have "int64 (Balance (book d) k)" for k using d by (simp add: owing_def book_ok_def ledger_ok_def)
  from this[of "BorrowerKey r"] have i: "int64 a" and i': "int64 (Balance (book d) (BorrowerKey r) - a)"
    using a unfolding int64_def by linarith+
  then have w: "wrap64 (Balance (book d) (BorrowerKey r) - a) = Balance (book d) (BorrowerKey r) - a"
    by (intro wrap64_id)
  note sh = emit_Inr[OF e]
  have am: "amountOf ''loan_id'' m = (if l = '''' then None else Some (l, a))"
    using repay_amount[OF sh(1) a(1) i] .
  have cov: "repay_covered s m" if "view s = view (book d)" for s
  proof -
    have "Balance s = Balance (book d)" "loans s = loans (book d)" using that by (simp_all add: view_eq)
    then show ?thesis unfolding repay_covered_def am using r(1) w a(2) by simp
  qed
  show "owing env k w (foldScrip m d1)"
    by (rule owing_fold[OF d e]) (auto intro!: view_LoanRepay cov)
  define s where "s = book d\<lparr>seenMsgIDs := insert (ID m) (seenMsgIDs (book d))\<rparr>"
  have b: "book (foldScrip m d1) = (if ID m \<in> seenMsgIDs (book d) then book d else applyLoanRepay s m)"
  proof (cases "ID m \<in> seenMsgIDs (book d)")
    case True
    then show ?thesis using sh(8) by (simp add: foldScrip_def applyMessage_def)
  next
    case False
    have "scripOperatorKey (book d) = Sender m" "scripOp (Tags m) = TagScripLoanRepay"
      using d sh(2,4) by (simp_all add: owing_def book_ok_def)
    with applyMessage_op[OF False this] False sh(8) show ?thesis by (simp add: foldScrip_def s_def)
  qed
  have s: "loans s = loans (book d)" "Balance s = Balance (book d)" by (simp_all add: s_def)
  have nn: "0 \<le> wrap64 (Balance s (BorrowerKey r) - a)" using w a s by simp
  have ap: "applyLoanRepay s m = (if l = '''' then s
      else putRepaid (if BorrowerKey r = '''' then s else fst (subtractFromBalance s (BorrowerKey r) a)) l r a)"
    using am r s Balance_sub_covered[OF nn] by (simp add: applyLoanRepay_eq)
  show "Balance (book d) (BorrowerKey r) - a \<le> Balance (book (foldScrip m d1)) (BorrowerKey r)"
    using a(1) w s Balance_sub_covered[OF nn] by (auto simp: b ap putRepaid_def)
  show "\<exists>r2. map_of (loans (book (foldScrip m d1))) k = Some r2 \<and> BorrowerKey r2 = BorrowerKey r'"
    if "map_of (loans (book d)) k = Some r'" for k r'
    using that r(1) s unfolding b ap putRepaid_def by (cases "k = l") auto
qed

lemma owing_repayLoop:
  "owing env k w d \<Longrightarrow> (\<forall>l \<in> set ls. \<exists>r. map_of (loans (book d)) l = Some r \<and> BorrowerKey r = b) \<Longrightarrow>
    remaining \<le> Balance (book d) b \<Longrightarrow> owing env k w (repayLoop env cause ls remaining d)"
proof (induction ls arbitrary: remaining d)
  case Nil
  then show ?case by simp
next
  case (Cons l ls)
  show ?case
  proof (cases "owedOn (book d) l")
    case None
    with Cons show ?thesis by simp
  next
    case (Some owed)
    let ?a = "if remaining > owed then owed else remaining"
    obtain r where r: "map_of (loans (book d)) l = Some r" "loanStatus r = LoanActive" "BorrowerKey r = b"
      using Some Cons.prems(2) by (auto simp: owedOn_Some)
    obtain res d1 where e: "emit env (loanRepayPayload l ?a) [TagScripLoanRepay] [cause] d = (res, d1)" by fastforce
    show ?thesis
    proof (cases "remaining \<le> 0 \<or> owed \<le> 0")
      case True
      with Cons Some show ?thesis by auto
    next
      case False
      then have a: "0 < ?a" "?a \<le> Balance (book d) (BorrowerKey r)" using Cons.prems(3) r(3) by auto
      show ?thesis
      proof (cases res)
        case (Inl err)
        note fr = emit_Inl[OF e[unfolded Inl]]
        have "owing env k w (repayLoop env cause ls remaining d1)"
          by (rule Cons.IH) (use Cons.prems fr owing_fail[OF Cons.prems(1) e[unfolded Inl]] in auto)
        with Inl False Some e show ?thesis by simp
      next
        case (Inr m)
        note live = repay_live[OF Cons.prems(1) e[unfolded Inr] r(1,2) a]
        have "owing env k w (repayLoop env cause ls (remaining - ?a) (foldScrip m d1))"
          by (rule Cons.IH[OF live(1)]) (use Cons.prems(2,3) live(2,3) r in \<open>fastforce+\<close>)
        with Inr False Some e show ?thesis by simp
      qed
    qed
  qed
qed

lemma owing_applyRepayment: "owing env k w d \<Longrightarrow> amount \<le> Balance (book d) b \<Longrightarrow> owing env k w (applyRepayment env b amount cause d)"
  using owing_repayLoop[of env k w d "LoansByBorrower (book d) b" b amount cause] loans_of[of "book d" _ b]
  by (simp add: applyRepayment_def) (metis owing_def book_ok_def)

text \<open>The hold: the record is in the log first, then the buyer's balance goes down by the same amount.\<close>

lemma view_BuyHold: "scripReplaying t \<Longrightarrow> amountOf ''buyer'' m = Some (k, a) \<Longrightarrow>
    view (applyBuyHold t m) = ((Balance t)(k := wrap64 (Balance t k - a)), loans t, loansByBorrower t)"
  by (simp add: applyBuyHold_eq view_def Balance_sub_replay)

lemma DecrementBudget_frame: "DecrementBudget s k a t = (s', res) \<Longrightarrow>
    loans s' = loans s \<and> loansByBorrower s' = loansByBorrower s \<and> scripReplaying s' = scripReplaying s
    \<and> scripOperatorKey s' = scripOperatorKey s \<and> seenMsgIDs s' = seenMsgIDs s \<and> reservations s' = reservations s"
  by (auto simp: DecrementBudget_def Let_def split: option.splits if_splits)

lemma DecrementBudget_current:
  assumes "ledger_ok s" "GetBudget s k = (b, t)" "0 < a" "a \<le> b"
  shows "\<exists>s' t'. DecrementBudget s k a t = (s', Inr (b - a, t')) \<and> Balance s' = (Balance s)(k := b - a)"
proof (rule ls.get_then_dec[OF assms])
  have "b = Balance s k" using assms(2) by (auto simp: GetBudget_def Balance_def split: option.splits)
  moreover have "int64 (Balance s k)" using assms(1) by (simp add: ledger_ok_def)
  ultimately show "int64 a" using assms(3,4) by (simp add: int64_def)
qed

lemma hold_done:
  assumes d: "in_step env d" and h: "0 < hold" and b: "buyer \<noteq> ''''"
  shows "in_step env (snd (decAndSaveHold env buyer i j hold price fee d))"
proof -
  obtain bal tag where g: "GetBudget (book d) buyer = (bal, tag)" by fastforce
  show ?thesis
  proof (cases "bal < hold")
    case True
    then show ?thesis using d g by (simp add: decAndSaveHold_def)
  next
    case False
    define d2 where "d2 = drawn (drawn d)"
    define rid where "rid = env_id env (draws d)"
    define pay where "pay = buyHoldPayload buyer hold price fee rid j (format_rfc3339 (env_now env (Suc (draws d)) + ReservationExpiryDuration))"
    have d2: "in_step env d2" "book d2 = book d" "localLog d2 = localLog d"
      using in_step_drawn[OF in_step_drawn[OF d]] by (simp_all add: d2_def)
    obtain res d3 where e: "emit env pay [TagScripBuyHold] [i] d2 = (res, d3)" by fastforce
    show ?thesis
    proof (cases res)
      case (Inl err)
      with False g e in_step_fail[OF d2(1)] show ?thesis
        by (simp add: decAndSaveHold_def draw_frame newReservationID_def timeNow_def d2_def pay_def rid_def)
    next
      case (Inr m)
      note sh = emit_Inr[OF e[unfolded Inr]]
      have ok: "ledger_ok (book d)" using d by (simp add: in_step_def book_ok_def)
      have bal: "bal = Balance (book d) buyer" using g by (auto simp: GetBudget_def Balance_def split: option.splits)
      obtain b' t' where dec: "DecrementBudget (book d) buyer hold tag = (b', Inr (bal - hold, t'))"
        "Balance b' = (Balance (book d))(buyer := bal - hold)"
        using DecrementBudget_current[OF ok g h] False by auto
      have i1: "int64 bal" using ok bal by (simp add: ledger_ok_def)
      then have i: "int64 hold" "int64 (bal - hold)" using h False by (simp_all add: int64_def)
      have w: "wrap64 (bal - hold) = bal - hold" by (rule wrap64_id[OF i(2)])
      have am: "amountOf ''buyer'' m = Some (buyer, hold)"
        using decode_hold[OF sh(1)[unfolded pay_def] b h i(1)] .
      note fr = DecrementBudget_frame[OF dec(1)]
      define d4 where "d4 = snd (decAndSaveHold env buyer i j hold price fee d)"
      have d4: "localLog d4 = localLog d3" "draws d3 \<le> draws d4"
        "\<exists>x. book d4 = SaveReservation b' x"
        using False g e Inr dec(1) sh(8) d2(2)
        by (auto simp: d4_def decAndSaveHold_def newReservationID_def timeNow_def d2_def pay_def rid_def setReservation_def)
      have "in_step env d4"
      proof (rule in_step_emit[OF d2(1) e[unfolded Inr] _ d4(1,2)])
        have "ledger_ok b'" using ledger_ok_decrement[OF ok, of buyer hold tag] dec(1) by simp
        then show "book_ok env (book d4) (localLog d3)"
          using d4(3) fr d sh(7) d2(3) by (auto simp: book_ok_def in_step_def SaveReservation_def)
        show "view (book d4) = view (applyScripOp TagScripBuyHold
            (replayedLedger env d2\<lparr>seenMsgIDs := insert (ID m) (ID ` set (localLog d2))\<rparr>) m)"
        proof -
          have "view (book d4) = view b'" using d4(3) by auto
          also have "\<dots> = ((Balance (book d))(buyer := wrap64 (Balance (book d) buyer - hold)), loans (book d), loansByBorrower (book d))"
            using dec(2) fr w bal by (simp add: view_def)
          also have "\<dots> = view (applyScripOp TagScripBuyHold
            (replayedLedger env d2\<lparr>seenMsgIDs := insert (ID m) (ID ` set (localLog d2))\<rparr>) m)"
            using d2(1,2) view_BuyHold[OF _ am, of "replayedLedger env d2\<lparr>seenMsgIDs := insert (ID m) (ID ` set (localLog d2))\<rparr>"]
            by (simp add: in_step_def view_eq)
          finally show ?thesis .
        qed
      qed simp
      then show ?thesis by (simp add: d4_def)
    qed
  qed
qed

section \<open>Records that move no balance\<close>

definition neutral :: "string list \<Rightarrow> bool" where
  "neutral tags \<longleftrightarrow> scripOp tags = '''' \<or> scripOp tags = TagScripBurn"

lemma neutral_tags [simp]: "neutral [TagConsume]" "neutral [TagAssign]" "neutral [TagScripBurn]"
  "neutral [TagSettle, TagPhasePrefix @ p]" "neutral [TagSettle, TagPhasePrefix @ p, ''exchange:verdict:rejected'']"
  by (simp_all add: neutral_def scripTags_def)

lemma view_neutral: "neutral (Tags m) \<Longrightarrow> view (applyMessage s m) = view s"
  by (auto simp: neutral_def applyMessage_def acceptedOp_def Let_def applyBurn_def split: prod.splits)

lemma owing_book:
  assumes "owing env k a d" "localLog d' = localLog d" "draws d \<le> draws d'" "book_ok env (book d') (localLog d)"
    "view (addToBalance (book d') k' a') = view (addToBalance (book d) k a)"
  shows "owing env k' a' d'"
  using assms replayed_cong[of d' d env] fresh_later[of env d d'] by (simp add: owing_def)

lemma book_ok_later: "book_ok env b log \<Longrightarrow> book_ok env b (log @ [m])"
  by (auto simp: book_ok_def)

lemma owing_send_neutral:
  assumes d: "owing env k a d" and s: "sendOperatorMessage env p tags ants d = (Some m, d1)" and n: "neutral tags"
  shows "owing env k a d1"
proof -
  note sh = send_Some[OF s]
  have "view (replayedLedger env d1) = view (replayedLedger env d)"
    using view_neutral[of m] sh(2) n replayed_append[OF sh(7), of env] by simp
  moreover have "fresh_draws env d1"
    using d sh(5,7,10) by (auto simp: owing_def fresh_draws_def dest!: injD)
  ultimately show ?thesis using d sh(7,8) by (simp add: owing_def book_ok_later)
qed

lemma owing_send_fail: "owing env k a d \<Longrightarrow> sendOperatorMessage env p tags ants d = (None, d') \<Longrightarrow> owing env k a d'"
  using send_None[of env p tags ants d d'] by (auto intro: owing_idle)

lemma owing_send: "owing env k a d \<Longrightarrow> neutral tags \<Longrightarrow> owing env k a (snd (sendOperatorMessage env p tags ants d))"
  by (cases "sendOperatorMessage env p tags ants d"; cases "fst (sendOperatorMessage env p tags ants d)")
    (auto dest: owing_send_fail owing_send_neutral)

lemma owing_marshal: "owing env k a d \<Longrightarrow> marshal env j d = (r, d') \<Longrightarrow> owing env k a d'"
  using marshal_frame[of env j d r d'] by (auto intro: owing_idle)

lemma owing_emit: "owing env k a d \<Longrightarrow> neutral tags \<Longrightarrow> emit env j tags ants d = (res, d') \<Longrightarrow> owing env k a d'"
  by (auto simp: emit_def split: prod.splits option.splits dest: owing_send_neutral owing_send_fail owing_marshal)

text \<open>A record of someone else's that the intake appends: it names no accepted scrip operation.\<close>

lemma owing_intake:
  assumes d: "owing env k a d" and m: "Sender m \<noteq> OperatorPublicKey env" "OperatorPublicKey env \<noteq> ''''" "\<forall>n. env_id env n \<noteq> ID m"
  shows "owing env k a (d\<lparr>localLog := localLog d @ [m]\<rparr>)"
proof -
  let ?d = "d\<lparr>localLog := localLog d @ [m]\<rparr>"
  have "acceptedOp (OperatorPublicKey env) m = ''''" using m by (simp add: acceptedOp_def)
  then have "view (applyMessage (replayedLedger env d) m) = view (replayedLedger env d)"
    by (simp add: applyMessage_def Let_def)
  then have "view (replayedLedger env ?d) = view (replayedLedger env d)" using replayed_append[of ?d d m env] by simp
  then show ?thesis using d m(3) by (auto simp: owing_def fresh_draws_def book_ok_later)
qed

end
