(* ===== verification/Engine_Credit_Laws.thy ===== *)
theory Engine_Credit_Laws
  imports Engine_Credit
begin

text \<open>The cap on what a buyer may owe: what a minted loan adds, and that asking for credit keeps the cap.\<close>

section \<open>The credit cap\<close>

lemma outstanding_unfold: "borrowerOutstandingPrincipal s b =
    foldl (\<lambda>tot l. case owedOn s l of None \<Rightarrow> tot | Some w \<Rightarrow> wrap64 (tot + w)) 0 (LoansByBorrower s b)"
  by (simp add: borrowerOutstandingPrincipal_def)

lemma outstanding_cong:
  assumes "\<And>l. l \<in> set ls \<Longrightarrow> owedOn s l = owedOn t l"
  shows "foldl (\<lambda>tot l. case owedOn s l of None \<Rightarrow> tot | Some w \<Rightarrow> wrap64 (tot + w)) z ls
    = foldl (\<lambda>tot l. case owedOn t l of None \<Rightarrow> tot | Some w \<Rightarrow> wrap64 (tot + w)) z ls"
  using assms by (induction ls arbitrary: z) auto

lemma outstanding_view: "view s = view t \<Longrightarrow> borrowerOutstandingPrincipal s b = borrowerOutstandingPrincipal t b"
  by (simp add: borrowerOutstandingPrincipal_def LoansByBorrower_def owedOn_def GetLoan_def view_eq)

text \<open>A loan under a new ID adds its principal to what its borrower owes, and to the balance.\<close>

lemma loan_minted:
  assumes ok: "ledger_ok s" and p: "Payload m = Some (loanMintPayload b a l sm c)" and a: "0 < a" "int64 a"
    and new: "map_of (loans s) l = None" "b \<noteq> ''''" "l \<noteq> ''''"
  shows "borrowerOutstandingPrincipal (applyLoanMint s m) b = wrap64 (borrowerOutstandingPrincipal s b + a)"
    "Balance (applyLoanMint s m) = (Balance s)(b := wrap64 (Balance s b + a))"
proof -
  let ?t = "applyLoanMint s m"
  let ?r = "newLoan \<lparr>lm_Borrower = b, lm_Principal = a, lm_VigRateBPS = 0, lm_DueAt = '''', lm_LoanID = l,
      lm_SettlementMsgID = sm, lm_CommitmentTokenID = c\<rparr>"
  have t: "loans ?t = loans s @ [(l, ?r)]" "LoansByBorrower ?t b = LoansByBorrower s b @ [l]"
    and bal: "Balance ?t = (Balance s)(b := wrap64 (Balance s b + a))"
    using decode_loan[OF p a(2)] a new update_new[OF new(1)]
    by (simp_all add: applyLoanMint_def LoansByBorrower_def getd_def Balance_def fun_eq_iff addToBalance_def entryOrNew_def Let_def
        split: option.split)
  have old: "owedOn ?t k = owedOn s k" if "k \<in> set (LoansByBorrower s b)" for k
  proof -
    have "k \<noteq> l" using loans_of[OF ok that] new(1) by auto
    then show ?thesis using t(1) by (simp add: owedOn_def GetLoan_def map_of_append[symmetric] map_add_def split: option.split)
  qed
  have "owedOn ?t l = Some a" using t(1) new(1) a(2) by (simp add: owedOn_Some newLoan_def wrap64_id map_add_def)
  then show "borrowerOutstandingPrincipal ?t b = wrap64 (borrowerOutstandingPrincipal s b + a)"
    using outstanding_cong[OF old] by (simp add: outstanding_unfold t(2))
  show "Balance ?t = (Balance s)(b := wrap64 (Balance s b + a))" by (rule bal)
qed

text \<open>The ways a request for credit goes.\<close>

lemma GetBudget_Balance: "GetBudget s k = (bal, tag) \<Longrightarrow> bal = Balance s k"
  by (auto simp: GetBudget_def Balance_def split: option.splits)

lemma credit_cases:
  assumes "ensureCreditForShortfall env buyer hold acceptID matchID d = (r, d')" "0 < hold"
  obtains "r = None" "d' = d" "\<not> creditTierEligible env \<or> hold \<le> Balance (book d) buyer"
    | er where "r = Some er" "book d' = book d"
    | m d2 where "r = None" "d' = foldScrip m d2" "Balance (book d) buyer < hold"
      "wrap64 (borrowerOutstandingPrincipal (book d) buyer + wrap64 (hold - Balance (book d) buyer)) \<le> creditMaxOutstandingPerBuyer"
      "emit env (loanMintPayload buyer (wrap64 (hold - Balance (book d) buyer)) (''loan-'' @ env_id env (draws d)) acceptID
         (''auto-credit:'' @ matchID)) [TagScripLoanMint] [acceptID] (drawn d) = (Inr m, d2)"
proof -
  obtain bal tag where g: "GetBudget (book d) buyer = (bal, tag)" by fastforce
  note bal = GetBudget_Balance[OF g]
  show thesis
  proof (cases "\<not> creditTierEligible env \<or> bal \<ge> hold")
    case True
    then show thesis using assms g bal by (intro that(1)) (auto simp: ensureCreditForShortfall_def split: if_splits)
  next
    case el: False
    let ?s = "wrap64 (hold - bal)"
    let ?p = "loanMintPayload buyer ?s (''loan-'' @ env_id env (draws d)) acceptID (''auto-credit:'' @ matchID)"
    obtain x d2 where e: "emit env ?p [TagScripLoanMint] [acceptID] (drawn d) = (x, d2)" by fastforce
    have u: "ensureCreditForShortfall env buyer hold acceptID matchID d =
        (if wrap64 (borrowerOutstandingPrincipal (book d) buyer + ?s) > creditMaxOutstandingPerBuyer
         then (Some ErrCreditCap, d\<lparr>creditCapRefused := Suc (creditCapRefused d)\<rparr>)
         else case x of Inl er \<Rightarrow> (Some er, d2) | Inr m \<Rightarrow> (None, foldScrip m d2))"
      using el g e assms(2) by (simp add: ensureCreditForShortfall_def newReservationID_def Let_def split: sum.split)
    show thesis
    proof (cases "wrap64 (borrowerOutstandingPrincipal (book d) buyer + ?s) > creditMaxOutstandingPerBuyer")
      case True
      then show thesis using assms(1) u by (intro that(2)[of ErrCreditCap]) auto
    next
      case False
      show thesis
      proof (cases x)
        case (Inl er)
        then show thesis using assms(1) u e False emit_Inl(2)[OF e[unfolded Inl]] by (intro that(2)[of er]) auto
      next
        case (Inr m)
        then show thesis using assms(1) u e el bal False by (intro that(3)[of m d2]) auto
      qed
    qed
  qed
qed

section \<open>Properties\<close>

text \<open>
  C38: credit stays under its cap and covers the hold. Where a buyer owes at most the cap, asking for credit leaves
  it at most the cap; an eligible buyer who is not refused can pay the hold afterwards, nobody else's balance
  moves, and a refusal or a failed emission leaves the ledger as it was.
\<close>

theorem credit_capped:
  assumes ok: "book_ok env (book d) (localLog d)" "fresh_draws env d" and hold: "0 < hold" "int64 hold"
    and buyer: "0 \<le> Balance (book d) buyer" "buyer \<noteq> ''''"
    and new: "map_of (loans (book d)) (''loan-'' @ env_id env (draws d)) = None"
    and cap: "borrowerOutstandingPrincipal (book d) buyer \<le> creditMaxOutstandingPerBuyer"
    and run: "ensureCreditForShortfall env buyer hold acceptID matchID d = (r, d')"
  shows "borrowerOutstandingPrincipal (book d') buyer \<le> creditMaxOutstandingPerBuyer
    \<and> (r = None \<and> creditTierEligible env \<longrightarrow> hold \<le> Balance (book d') buyer)
    \<and> (r \<noteq> None \<longrightarrow> book d' = book d) \<and> (\<forall>k. k \<noteq> buyer \<longrightarrow> Balance (book d') k = Balance (book d) k)"
  using run hold(1)
proof (cases rule: credit_cases)
  case (3 m d2)
  note sh = emit_Inr[OF 3(5)]
  let ?s = "wrap64 (hold - Balance (book d) buyer)"
  let ?b = "book d\<lparr>seenMsgIDs := insert (ID m) (seenMsgIDs (book d))\<rparr>"
  have s: "?s = hold - Balance (book d) buyer" "0 < ?s" "int64 ?s"
    using 3(3) hold buyer(1) by (simp_all add: wrap64_id int64_def)
  have "ID m \<notin> seenMsgIDs (book d)"
    using fresh_send[OF fresh_later[OF ok(2), of "drawn d"] 3(5)] ok(1) by (auto simp: book_ok_def)
  from applyMessage_op[OF this, of TagScripLoanMint] have b: "book d' = applyLoanMint ?b m"
    using sh(2,4,8) ok(1) by (simp add: 3(2) foldScrip_def book_ok_def)
  have n: "ledger_ok ?b" "map_of (loans ?b) (''loan-'' @ env_id env (draws d)) = None"
    "''loan-'' @ env_id env (draws d) \<noteq> ''''" using ok(1) new by (simp_all add: book_ok_def)
  note lm = loan_minted[OF n(1) sh(1) s(2,3) n(2) buyer(2) n(3)]
  have bb: "Balance ?b = Balance (book d)" "borrowerOutstandingPrincipal ?b buyer = borrowerOutstandingPrincipal (book d) buyer"
    using outstanding_view[of ?b "book d" buyer] by (simp_all add: Balance_def fun_eq_iff)
  have "wrap64 (Balance (book d) buyer + ?s) = hold" using s hold(2) by (simp add: wrap64_id)
  then show ?thesis using lm b bb 3(1,4) s(1) by simp
qed (use cap in auto)

text \<open>A fresh buyer asks for 5 and is lent it.\<close>

definition demoEnv :: "unit engine_env_scheme" where
  "demoEnv = \<lparr>OperatorPublicKey = ''op'', LocalStoreSet = True, ScripStoreSet = True, FederationGuardEnabled = False,
     AutoDeliverOnBuyerAccept = False, env_id = (\<lambda>n. replicate n CHR ''r'' @ ''i''), env_now = (\<lambda>_. 0),
     env_marshal = (\<lambda>_. True), env_append = (\<lambda>_. True)\<rparr>"

definition demoDesk :: "unit desk_scheme" where
  "demoDesk = \<lparr>book = emptyLedger ''op'', localLog = [], matchToReservation = Map.empty, lastEmitNanos = 0,
     creditCapRefused = 0, draws = 0\<rparr>"

lemma ids_inj: "inj (\<lambda>n. replicate n CHR ''r'' @ ''i'')"
  by (rule injI) (auto dest: arg_cong[where f=length])

lemma credit_capped_witness:
  "borrowerOutstandingPrincipal (book (snd (ensureCreditForShortfall demoEnv ''b'' 5 ''a'' ''m'' demoDesk))) ''b'' \<le> 300000
    \<and> Balance (book (snd (ensureCreditForShortfall demoEnv ''b'' 5 ''a'' ''m'' demoDesk))) ''c'' = 0"
proof -
  have "book_ok demoEnv (book demoDesk) (localLog demoDesk)" "fresh_draws demoEnv demoDesk"
    using ids_inj by (simp_all add: book_ok_def fresh_draws_def demoEnv_def demoDesk_def emptyLedger_def ledger_ok_def Balance_def
        int64_def LoansByBorrower_def map_ok_def)
  moreover have "Balance (book demoDesk) k = 0" "borrowerOutstandingPrincipal (book demoDesk) ''b'' = 0"
    "loans (book demoDesk) = []" for k
    by (simp_all add: demoDesk_def emptyLedger_def Balance_def borrowerOutstandingPrincipal_def LoansByBorrower_def)
  ultimately show ?thesis
    using credit_capped[of demoEnv demoDesk 5 "''b''" "''a''" "''m''"
        "fst (ensureCreditForShortfall demoEnv ''b'' 5 ''a'' ''m'' demoDesk)" "snd (ensureCreditForShortfall demoEnv ''b'' 5 ''a'' ''m'' demoDesk)"]
    by (simp add: int64_def creditMaxOutstandingPerBuyer_def)
qed

end
