(* ===== verification/Engine_Pricing.thy ===== *)
theory Engine_Pricing
  imports State_Behavioral Engine_Credit
begin

text \<open>
  The delivery price of an entry (\<open>computePrice\<close> and its factors, \<open>pkg/exchange/engine_pricing.go\<close>). Floats are
  the rationals they denote; every operation is rounded to the nearest double (amd64, no fused multiply-add), in
  the code's order. The \<open>1.0 + x\<close> and the constants are rounded as the compiler rounds them.
\<close>

section \<open>Factors\<close>

abbreviation f64_mul :: "rat \<Rightarrow> rat \<Rightarrow> rat" where "f64_mul a b \<equiv> f64_round (a * b)"
abbreviation f64_add :: "rat \<Rightarrow> rat \<Rightarrow> rat" where "f64_add a b \<equiv> f64_round (a + b)"
abbreviation f64_sub :: "rat \<Rightarrow> rat \<Rightarrow> rat" where "f64_sub a b \<equiv> f64_round (a - b)"
abbreviation f64_over :: "rat \<Rightarrow> rat \<Rightarrow> rat" where "f64_over a b \<equiv> f64_round (a / b)"
abbreviation f64 :: "int \<Rightarrow> rat" where "f64 n \<equiv> of_int (f64_of_int n)"

definition HighReuseResidualDenominator :: i64 where "HighReuseResidualDenominator = 5"
definition ResidualRate :: i64 where "ResidualRate = 10"
definition MatchingFeeRate :: i64 where "MatchingFeeRate = 10"

definition residualDenominatorFor :: "put_env \<Rightarrow> InventoryEntry option \<Rightarrow> i64" where
  "residualDenominatorFor penv en = (case en of None \<Rightarrow> ResidualRate
     | Some e \<Rightarrow> if IsHighReuseArtifact penv e then HighReuseResidualDenominator else ResidualRate)"

definition residualFractionFor :: "put_env \<Rightarrow> InventoryEntry \<Rightarrow> rat" where
  "residualFractionFor penv e = f64_over 1 (f64 (residualDenominatorFor penv (Some e)))"

definition resaleAmortizationDivisor :: "put_env \<Rightarrow> InventoryEntry \<Rightarrow> rat" where
  "resaleAmortizationDivisor penv e =
     f64_over (f64_mul 4 (f64_sub 1 (residualFractionFor penv e))) (f64_sub 1 (f64_over 1 10))"

definition computeDemandFactor :: "exchange_state \<Rightarrow> string \<Rightarrow> rat" where
  "computeDemandFactor s e = f64_add 1 (f64_mul (of_nat (min 10 (EntryDemandCount s e))) (f64_over 1 10))"

definition computeAgeFactor :: "gtime \<Rightarrow> i64 \<Rightarrow> rat" where
  "computeAgeFactor now ts =
     (if ts \<le> 0 then 1
      else let ageSec = f64_over (f64 (wrap64 (unix_nano now - ts))) 1000000000;
               decay = min 1 (f64_over ageSec 5184000)
           in f64_sub 1 (f64_mul (1/2) decay))"

definition computeRepFactor :: "exchange_state \<Rightarrow> string \<Rightarrow> rat" where
  "computeRepFactor s k = f64_add (f64_over 8 10) (f64_mul (f64_over (f64 (SellerReputation s k)) 100) (f64_over 4 10))"

definition computeSizeFactor :: "i64 \<Rightarrow> rat" where
  "computeSizeFactor sz =
     (if sz \<le> 0 then 1
      else f64_add 1 (min (f64_over 3 10) (f64_mul (f64_over (f64 sz) 1024) (f64_over 3 1000))))"

definition computeFastFactor :: "gtime \<Rightarrow> exchange_state \<Rightarrow> string \<Rightarrow> rat" where
  "computeFastFactor now s e = (let m = Multiplier (GetPriceAdjustment now s e) in if m \<le> 0 then 1 else m)"

definition computeDensityFactor :: "rat \<Rightarrow> exchange_state \<Rightarrow> InventoryEntry \<Rightarrow> rat" where
  "computeDensityFactor markup s e =
     (if CompressedFrom e = '''' \<or> ContentSize e \<le> 0 then 1
      else case GetInventoryEntry s (CompressedFrom e) of
          None \<Rightarrow> 1
        | Some orig \<Rightarrow> if ContentSize orig \<le> 0 then 1
            else f64_mul (f64_over (f64 (ContentSize orig)) (f64 (ContentSize e))) markup)"

definition computeTierFactor :: "string \<Rightarrow> rat" where
  "computeTierFactor tier = (if tier = ''hot'' then 3/2 else if tier = ''warm'' then f64_over 12 10 else 1)"

definition computeConfidence :: "exchange_state \<Rightarrow> InventoryEntry \<Rightarrow> rat" where
  "computeConfidence s e = f64_over (f64 (SellerReputation s (SellerKey e))) 100"

definition densityMarkupFactor :: "rat \<Rightarrow> rat" where
  "densityMarkupFactor m = (if m > 0 then m else f64_over 12 10)"

section \<open>The price\<close>

text \<open>\<open>math.Round\<close>: half away from zero.\<close>

definition math_round :: "rat \<Rightarrow> int" where
  "math_round x = (if x \<ge> 0 then \<lfloor>x + 1/2\<rfloor> else - \<lfloor>- x + 1/2\<rfloor>)"

definition MaxInt64 :: i64 where "MaxInt64 = 9223372036854775807"

text \<open>The acquisition-scale base, or the price where a guard answers at once.\<close>

definition priceBase :: "InventoryEntry \<Rightarrow> i64 + rat" where
  "priceBase e =
     (if PutPrice e > 0 then
        (if PutPrice e > 76861433640456465 then Inl MaxInt64 else Inr (f64_mul (f64 (PutPrice e)) (f64_over 12 10)))
      else if TokenCost e \<le> 0 then Inl 1
      else if TokenCost e > 131762457669353940 then Inl MaxInt64
      else Inr (max 1 (f64_mul (f64 (TokenCost e)) (f64_over 7 10))))"

definition computePrice :: "put_env \<Rightarrow> rat \<Rightarrow> gtime \<Rightarrow> exchange_state \<Rightarrow> InventoryEntry \<Rightarrow> i64" where
  "computePrice penv markup now s e = (case priceBase e of
       Inl p \<Rightarrow> p
     | Inr base \<Rightarrow>
        let price = foldl f64_mul base [computeDemandFactor s (EntryID e), computeAgeFactor now (PutTimestamp e),
              computeRepFactor s (SellerKey e), computeSizeFactor (ContentSize e), computeFastFactor now s (EntryID e),
              computeDensityFactor (densityMarkupFactor markup) s e, computeTierFactor (CompressionTier e)];
            rounded = math_round (f64_over price (resaleAmortizationDivisor penv e))
        in if rounded < 1 then 1 else if rounded \<ge> 9223372036854775808 then MaxInt64 else rounded)"

lemma computePrice_range: "1 \<le> computePrice penv markup now s e \<and> computePrice penv markup now s e \<le> MaxInt64"
  by (auto simp: computePrice_def priceBase_def MaxInt64_def Let_def split: sum.splits if_splits)

end
