(* ===== verification/Engine_Settle.thy ===== *)
theory Engine_Settle
  imports Engine_Pricing
begin

text \<open>
  The settlement engine (\<open>pkg/exchange/engine_settle.go\<close>, with \<open>recordBuyerSettlement\<close>, \<open>stagePredictions\<close> and the
  reservation map of \<open>engine_core.go\<close>): what the operator does when a settle message is dispatched. Each handler
  is one function on the engine, which is the desk together with the exchange state; it returns the error the
  dispatcher logs. The match index and log lines are left out, the prose of guides is a parameter.
\<close>

section \<open>The engine\<close>

text \<open>\<open>mapOrder\<close> is the order Go ranges over a co-occurrence map in, \<open>env_nonce\<close> the random nonces of \<open>nip44.Seal\<close>.\<close>

record engine_opts = engine_env +
  penv :: put_env
  blobFetch :: "(string \<Rightarrow> string option) option"
  DensityMarkupFactor :: rat
  BrokeredMatchReward :: i64
  mapOrder :: "(string \<times> int) list \<Rightarrow> (string \<times> int) list"
  env_nonce :: "nat \<Rightarrow> string"
  prose :: "string \<Rightarrow> string"

record engine = desk +
  st :: exchange_state
  buyerRecentEntries :: "string \<rightharpoonup> (string \<times> gtime) list"

definition applyState :: "engine_opts \<Rightarrow> message \<Rightarrow> engine \<Rightarrow> engine" where
  "applyState o1 m e = e\<lparr>st := Apply (penv o1) (env_now o1 (draws e)) (blobFetch o1) (st e) m\<rparr>"

text \<open>Send, then fold the message into the live state.\<close>

definition emitApply :: "engine_opts \<Rightarrow> json \<Rightarrow> string list \<Rightarrow> string list \<Rightarrow> engine \<Rightarrow> engine_err option \<times> engine" where
  "emitApply o1 j tags ants e = (case emit o1 j tags ants e of
       (Inl er, e1) \<Rightarrow> (Some er, e1) | (Inr m, e1) \<Rightarrow> (None, applyState o1 m e1))"

definition liveReservation :: "engine \<Rightarrow> string \<Rightarrow> string option" where
  "liveReservation e m = (case reservationFor e m of None \<Rightarrow> None | Some r \<Rightarrow> if r = '''' then None else Some r)"

definition shortKey :: "string \<Rightarrow> string" where
  "shortKey k = take 8 k"

definition brokeredMatchReward :: "i64 \<Rightarrow> i64" where
  "brokeredMatchReward r = (if r > 0 then r else 100)"

definition phaseTags :: "string \<Rightarrow> string list" where
  "phaseTags phase = [TagSettle, TagPhasePrefix @ phase]"

section \<open>Completion: signals and predictions\<close>

definition emitConsumeSignal :: "engine_opts \<Rightarrow> message \<Rightarrow> engine \<Rightarrow> engine_err option \<times> engine" where
  "emitConsumeSignal o1 msg e = (case Antecedents msg of [] \<Rightarrow> (Some ErrBadRequest, e)
   | d # _ \<Rightarrow> (case EntryForDeliver (st e) d of None \<Rightarrow> (Some ErrBadRequest, e)
     | Some en \<Rightarrow> emitApply o1 (JObj [(''buyer_key'', JStr (Sender msg)), (''entry_id'', JStr (EntryID en))])
         [TagConsume] [ID msg] e))"

definition buyerSessionWindow :: int where "buyerSessionWindow = hour"

definition recordBuyerSettlement :: "engine_opts \<Rightarrow> string \<Rightarrow> string \<Rightarrow> engine \<Rightarrow> engine" where
  "recordBuyerSettlement o1 buyer entryID e0 = (case timeNow o1 e0 of (now, e) \<Rightarrow>
     let valid = filter (\<lambda>(_, t). t > now - buyerSessionWindow) (getd [] (buyerRecentEntries e) buyer);
         s1 = foldl (\<lambda>s (prev, _). UpdateCoOccurrence (mapOrder o1) prev entryID s) (st e) valid;
         valid1 = valid @ [(entryID, now)];
         valid2 = (if length valid1 > 10 then drop (length valid1 - 10) valid1 else valid1)
     in e\<lparr>st := s1, buyerRecentEntries := (buyerRecentEntries e)(buyer \<mapsto> valid2)\<rparr>)"

definition MaxPredictionFanout :: nat where "MaxPredictionFanout = 3"
definition PredictionAssignTTL :: int where "PredictionAssignTTL = 2 * hour"

definition predictionPayload :: "string \<Rightarrow> i64 \<Rightarrow> string \<Rightarrow> string \<Rightarrow> json" where
  "predictionPayload entryID reward deadline settled = JObj [(''deadline_at'', JStr deadline),
     (''description'', JStr (''Predicted next-work for entry '' @ shortKey settled @ '' ''
        @ [CHR 0xE2, CHR 0x80, CHR 0x94] @ '' brokered match standing offer'')),
     (''entry_id'', JStr entryID), (''reward'', JInt reward), (''task_type'', JStr ''brokered-match'')]"

fun stageLoop :: "engine_opts \<Rightarrow> string \<Rightarrow> string \<Rightarrow> string list \<Rightarrow> nat \<Rightarrow> engine \<Rightarrow> engine" where
  "stageLoop o1 deadline settled [] posted e = e"
| "stageLoop o1 deadline settled (p # ps) posted e =
     (if posted \<ge> MaxPredictionFanout then e
      else if OpenPredictionAssignsForEntry (env_now o1 (draws e)) (st e) p \<ge> MaxPredictionFanout
      then stageLoop o1 deadline settled ps posted (drawn e)
      else case emitApply o1 (predictionPayload p (brokeredMatchReward (BrokeredMatchReward o1)) deadline settled)
             [TagAssign] [] (drawn e) of
          (Some er, e1) \<Rightarrow> stageLoop o1 deadline settled ps posted e1
        | (None, e1) \<Rightarrow> stageLoop o1 deadline settled ps (Suc posted) e1)"

definition stagePredictions :: "engine_opts \<Rightarrow> string \<Rightarrow> engine \<Rightarrow> engine" where
  "stagePredictions o1 settled e =
     (if \<not> LocalStoreSet o1 then e
      else let predicted = PredictNext (mapOrder o1) (st e) settled in
        if predicted = [] then e
        else case timeNow o1 e of (now, e1) \<Rightarrow>
          stageLoop o1 (format_rfc3339 (now + PredictionAssignTTL)) settled predicted 0 e1)"

section \<open>Completion: scrip\<close>

definition resolveSellerFromComplete :: "message \<Rightarrow> engine \<Rightarrow> (string \<times> string) option" where
  "resolveSellerFromComplete msg e = (case Antecedents msg of [] \<Rightarrow> None
     | d # _ \<Rightarrow> map_option (\<lambda>k. (k, d)) (SellerKeyForDeliver (st e) d))"

definition hasLiveReservationForComplete :: "message \<Rightarrow> engine \<Rightarrow> bool" where
  "hasLiveReservationForComplete msg e = (case resolveSellerFromComplete msg e of None \<Rightarrow> False
     | Some (_, d) \<Rightarrow> (case MatchForDeliver (st e) d of None \<Rightarrow> False | Some m \<Rightarrow> liveReservation e m \<noteq> None))"

text \<open>\<open>restore\<close> puts a reservation back for a retry; \<open>credit\<close> is the unconditional \<open>AddBudget\<close>, which cannot fail.\<close>

definition restore :: "Reservation \<Rightarrow> 'z desk_scheme \<Rightarrow> 'z desk_scheme" where
  "restore res d = d\<lparr>book := SaveReservation (book d) res\<rparr>"

definition credit :: "string \<Rightarrow> i64 \<Rightarrow> 'z desk_scheme \<Rightarrow> 'z desk_scheme" where
  "credit k a d = (if a \<le> 0 then d else d\<lparr>book := fst (AddBudget (book d) k a '''')\<rparr>)"

definition handleDeadlineMissRefund :: "engine_opts \<Rightarrow> message \<Rightarrow> string \<Rightarrow> string \<Rightarrow> i64 \<Rightarrow> engine
    \<Rightarrow> engine_err option \<times> engine" where
  "handleDeadlineMissRefund o1 msg matchID rid insured e =
     (case ConsumeReservation (book e) rid of
        (b, Inl er) \<Rightarrow> (Some (ErrScrip er), e)
      | (b, Inr res) \<Rightarrow>
          let amount = (if insured \<le> 0 then r_Amount res else insured) in
          (case emit o1 (refundPayload (r_AgentKey res) amount rid (ID msg)) [TagScripDisputeRefund] [ID msg] (e\<lparr>book := b\<rparr>) of
             (Inl er, e1) \<Rightarrow> (Some er, restore res e1)
           | (Inr m, e1) \<Rightarrow>
               (let e2 = e1\<lparr>book := fst (AddBudget (book e1) (r_AgentKey res) amount '''')\<rparr>
                in (None, e2\<lparr>st := ClearMatchGuarantee matchID (st e2)\<rparr>))))"

definition checkDeadlineMiss :: "engine_opts \<Rightarrow> message \<Rightarrow> string \<Rightarrow> string \<Rightarrow> engine \<Rightarrow> bool \<times> engine" where
  "checkDeadlineMiss o1 msg matchID rid e = (case GuaranteeForMatch (st e) matchID of None \<Rightarrow> (False, e)
     | Some (deadline, insured) \<Rightarrow>
        (case DeliverTimeForMatch (st e) matchID of None \<Rightarrow> (False, e)
         | Some ts \<Rightarrow>
            if ts = 0 \<or> \<not> ts > deadline then (False, e)
            else case handleDeadlineMissRefund o1 msg matchID rid insured e of
                (Some er, e1) \<Rightarrow> (False, e1) | (None, e1) \<Rightarrow> (True, e1)))"

text \<open>The split of a held amount: price, fee, the seller's residual and the operator's revenue.\<close>

definition settleSplit :: "i64 \<Rightarrow> i64 \<Rightarrow> i64 \<times> i64 \<times> i64 \<times> i64" where
  "settleSplit amount denom =
     (let price = goquot (wrap64 (amount * MatchingFeeRate)) (MatchingFeeRate + 1);
          residual = goquot price denom
      in (price, goquot price MatchingFeeRate, residual, wrap64 (price - residual)))"

definition marshalSettlePayloads :: "engine_opts \<Rightarrow> message \<Rightarrow> string \<Rightarrow> string \<Rightarrow> string \<Rightarrow> i64 \<Rightarrow> i64 \<Rightarrow> i64 \<Rightarrow> engine
    \<Rightarrow> (json \<times> json option) option \<times> engine" where
  "marshalSettlePayloads o1 msg matchID seller rid residual fee revenue e =
     (case marshal o1 (settlePayload rid seller residual fee revenue matchID) e of
        (None, e1) \<Rightarrow> (None, e1)
      | (Some sp, e1) \<Rightarrow>
          if fee > 0 then
            (case marshal o1 (burnPayload fee ''matching-fee'' (ID msg)) e1 of
               (None, e2) \<Rightarrow> (None, e2) | (Some bp, e2) \<Rightarrow> (Some (sp, Some bp), e2))
          else (Some (sp, None), e1))"

definition sendBurn :: "engine_opts \<Rightarrow> message \<Rightarrow> json option \<Rightarrow> engine \<Rightarrow> engine" where
  "sendBurn o1 msg bp e = (case bp of None \<Rightarrow> e
     | Some j \<Rightarrow> snd (sendOperatorMessage o1 (Some j) [TagScripBurn] [ID msg] e))"

definition performScripSettlement :: "engine_opts \<Rightarrow> message \<Rightarrow> string \<Rightarrow> string \<Rightarrow> string \<Rightarrow> InventoryEntry option \<Rightarrow> engine
    \<Rightarrow> engine_err option \<times> engine" where
  "performScripSettlement o1 msg seller matchID rid settled e =
     (if IsMatchSettled (st e) matchID then (None, e)
      else case ConsumeReservation (book e) rid of
          (b, Inl er) \<Rightarrow> (None, e)
        | (b, Inr res) \<Rightarrow>
          (case settleSplit (r_Amount res) (residualDenominatorFor (penv o1) settled) of (price, fee, residual, revenue) \<Rightarrow>
           let e1 = e\<lparr>book := b\<rparr>; withheld = repaymentAmount (book e1) seller residual in
           case marshalSettlePayloads o1 msg matchID seller rid residual fee revenue e1 of
             (None, e2) \<Rightarrow> (Some ErrMarshal, restore res e2)
           | (Some (sp, bp), e2) \<Rightarrow>
              (case sendOperatorMessage o1 (Some sp) [TagScripSettle] [ID msg] e2 of
                 (None, e3) \<Rightarrow> (Some ErrEmit, restore res e3)
               | (Some m, e3) \<Rightarrow>
                  (let e4 = deleteReservation matchID e3;
                       e5 = sendBurn o1 msg bp (e4\<lparr>st := markMatchSettled matchID (st e4)\<rparr>);
                       e6 = credit seller residual e5;
                       e7 = (if withheld > 0 then applyRepayment o1 seller withheld (ID msg) e6 else e6)
                   in (None, credit (OperatorKey (st e7)) revenue e7)))))"

definition handleSettleComplete :: "engine_opts \<Rightarrow> message \<Rightarrow> engine \<Rightarrow> engine_err option \<times> engine" where
  "handleSettleComplete o1 msg e = (case resolveSellerFromComplete msg e of None \<Rightarrow> (None, e)
     | Some (seller, d) \<Rightarrow> (case MatchForDeliver (st e) d of None \<Rightarrow> (None, e)
       | Some m \<Rightarrow>
          let settled = EntryForDeliver (st e) d;
              e1 = (case settled of None \<Rightarrow> e
                | Some en \<Rightarrow> stagePredictions o1 (EntryID en) (recordBuyerSettlement o1 (Sender msg) (EntryID en) e))
          in case liveReservation e1 m of None \<Rightarrow> (None, e1)
             | Some rid \<Rightarrow>
                (case checkDeadlineMiss o1 msg m rid e1 of
                   (True, e2) \<Rightarrow> (None, e2)
                 | (False, e2) \<Rightarrow> performScripSettlement o1 msg seller m rid settled e2)))"

section \<open>Buyer-accept\<close>

definition rejectPayload :: "engine_opts \<Rightarrow> string \<Rightarrow> string \<Rightarrow> json" where
  "rejectPayload o1 acceptID reason = JObj [(''entry_id'', JStr acceptID),
     (''guide'', JStr (prose o1 (if reason = ''not-allowlisted'' then ''reject-not-allowlisted'' else ''reject-scrip''))),
     (''phase'', JStr ''buyer-accept-reject''), (''reason'', JStr reason)]"

definition emitBuyerAcceptReject :: "engine_opts \<Rightarrow> string \<Rightarrow> string \<Rightarrow> engine \<Rightarrow> engine_err option \<times> engine" where
  "emitBuyerAcceptReject o1 acceptID reason e =
     (case emit o1 (rejectPayload o1 acceptID reason)
        (phaseTags ''buyer-accept-reject'' @ [''exchange:verdict:rejected'']) [acceptID] e of
        (Inl er, e1) \<Rightarrow> (Some er, e1) | (Inr m, e1) \<Rightarrow> (None, e1))"

definition entryPrice :: "engine_opts \<Rightarrow> InventoryEntry \<Rightarrow> engine \<Rightarrow> i64 \<times> engine" where
  "entryPrice o1 en e = (case timeNow o1 e of (now, e1) \<Rightarrow> (computePrice (penv o1) (DensityMarkupFactor o1) now (st e1) en, e1))"

text \<open>The fallback price where the log records no amount for the hold.\<close>

definition recomputedHold :: "engine_opts \<Rightarrow> string \<Rightarrow> engine \<Rightarrow> i64 \<times> engine" where
  "recomputedHold o1 matchID e = (case GetInventoryEntry (st e) (MatchEntryID (st e) matchID) of None \<Rightarrow> (0, e)
     | Some en \<Rightarrow> (case entryPrice o1 en e of (p, e1) \<Rightarrow> (wrap64 (p + goquot p MatchingFeeRate), e1)))"

definition restoreExistingHold :: "engine_opts \<Rightarrow> message \<Rightarrow> string \<Rightarrow> string \<Rightarrow> engine \<Rightarrow> engine_err option \<times> engine" where
  "restoreExistingHold o1 msg matchID rid e =
     (if IsMatchSettled (st e) matchID then (None, e)
      else case GetBudget (book e) (Sender msg) of (_, tag) \<Rightarrow>
      case (case GetBuyHoldAmount (st e) matchID of Some a \<Rightarrow> (a, e) | None \<Rightarrow> recomputedHold o1 matchID e) of (hold, e1) \<Rightarrow>
      case timeNow o1 e1 of (now, e2) \<Rightarrow>
        (None, setReservation matchID rid (restore \<lparr>r_ID = rid, r_AgentKey = Sender msg, r_RK = BalanceKey,
           r_ETag = tag, r_Amount = hold, r_CreatedAt = now\<rparr> e2)))"

section \<open>Delivery\<close>

text \<open>
  The code also logs the first 24 bytes of the content hash. The slice is in range: the hashes that get here are
  stock hashes, \<open>sha256:\<close> and 64 hexadecimal digits, and \<open>emitDeliverContent\<close> computes its own.
\<close>

definition sendDeliverMessage :: "engine_opts \<Rightarrow> message \<Rightarrow> json \<Rightarrow> engine \<Rightarrow> (engine_err + message option) \<times> engine" where
  "sendDeliverMessage o1 msg j e = (case emit o1 j (phaseTags ''deliver'') [ID msg] e of
      (Inl er, e1) \<Rightarrow> (Inl er, e1) | (Inr m, e1) \<Rightarrow> (Inr (Some m), e1))"

definition emitDeliverPointer :: "engine_opts \<Rightarrow> message \<Rightarrow> InventoryEntry \<Rightarrow> string \<Rightarrow> engine
    \<Rightarrow> (engine_err + message option) \<times> engine" where
  "emitDeliverPointer o1 msg en buyer e =
     (if ContentHash en = '''' then (Inr None, e)
      else sendDeliverMessage o1 msg (JObj [(''blob_pointer'', JStr (BlobPointer en)), (''buyer'', JStr buyer),
        (''content_hash'', JStr (ContentHash en)), (''entry_id'', JStr (EntryID en)),
        (''guide'', JStr (prose o1 ''deliver-pointer'')), (''phase'', JStr ''deliver'')]) e)"

text \<open>The content key goes from the seller's wrap to a wrap for the buyer; content and ciphertext stay off the wire.\<close>

definition emitDeliverEnvelope :: "engine_opts \<Rightarrow> message \<Rightarrow> InventoryEntry \<Rightarrow> string \<Rightarrow> engine
    \<Rightarrow> (engine_err + message option) \<times> engine" where
  "emitDeliverEnvelope o1 msg en buyer e =
     (if CiphertextHash en = '''' then (Inr None, e)
      else case operatorSigner (penv o1) of None \<Rightarrow> (Inr None, e)
      | Some ecdh \<Rightarrow>
        (case Open (nip44Lib (penv o1)) ecdh (SellerKey en) (WrappedCEKOperator en) of None \<Rightarrow> (Inl ErrBadRequest, e)
         | Some cek \<Rightarrow>
           (case Seal (nip44Lib (penv o1)) ecdh buyer (env_nonce o1 (draws e)) cek of None \<Rightarrow> (Inl ErrBadRequest, drawn e)
            | Some wrapped \<Rightarrow> sendDeliverMessage o1 msg (JObj [
                (''ciphertext_hash'', JStr (CiphertextHash en)),
                (''ciphertext_ref'', JObj [if BlobPointer en \<noteq> '''' then (''blob_pointer'', JStr (BlobPointer en))
                   else (''put_event'', JStr (PutMsgID en))]),
                (''content_alg'', JStr ''chacha20poly1305''), (''entry_id'', JStr (EntryID en)),
                (''guide'', JStr (prose o1 ''deliver-envelope'')),
                (''key_wrap'', JObj [(''alg'', JStr ''nip44-v2-secp256k1''), (''recipient'', JStr buyer), (''wrapped'', JStr wrapped)]),
                (''phase'', JStr ''deliver''), (''v'', JInt 2)]) (drawn e))))"

definition deliverGuideFor :: "engine_opts \<Rightarrow> string \<Rightarrow> engine \<Rightarrow> string" where
  "deliverGuideFor o1 buyer e =
     (let owed = (if ScripStoreSet o1 then borrowerOutstandingPrincipal (book e) buyer else 0) in
      if owed \<le> 0 then prose o1 ''deliver''
      else prose o1 ''deliver'' @ prose o1 ''deliver-debt-1'' @ show_i64 owed @ prose o1 ''deliver-debt-2'')"

definition emitDeliverContent :: "engine_opts \<Rightarrow> message \<Rightarrow> InventoryEntry \<Rightarrow> string \<Rightarrow> engine
    \<Rightarrow> (engine_err + message option) \<times> engine" where
  "emitDeliverContent o1 msg en buyer e =
     (if WrappedCEKOperator en \<noteq> '''' then emitDeliverEnvelope o1 msg en buyer e
      else if LegacyPlaintext en then (Inr None, e)
      else if BlobPointer en \<noteq> '''' then emitDeliverPointer o1 msg en buyer e
      else if Content en = '''' then (Inr None, e)
      else if length (Content en) > BlossomOffloadThreshold then (Inr None, e)
      else sendDeliverMessage o1 msg (JObj [(''buyer'', JStr buyer), (''content'', JStr (b64_encode (Content en))),
        (''content_hash'', JStr (sha256Ref (Content en))), (''entry_id'', JStr (EntryID en)),
        (''guide'', JStr (deliverGuideFor o1 buyer e)), (''phase'', JStr ''deliver'')]) e)"

definition autoDeliverOnBuyerAccept :: "engine_opts \<Rightarrow> message \<Rightarrow> string \<Rightarrow> engine \<Rightarrow> engine" where
  "autoDeliverOnBuyerAccept o1 msg matchID e =
     (case liveReservation e matchID of None \<Rightarrow> e
      | Some _ \<Rightarrow> (case GetInventoryEntry (st e) (MatchEntryID (st e) matchID) of None \<Rightarrow> e
        | Some en \<Rightarrow>
            if MatchBuyerKey (st e) matchID = '''' then e
            else case emitDeliverContent o1 msg en (MatchBuyerKey (st e) matchID) e of
                (Inr (Some m), e1) \<Rightarrow> applyState o1 m e1 | (_, e1) \<Rightarrow> e1))"

text \<open>The payload of an incoming deliver: the engine's own answers carry content or a pointer.\<close>

definition incomingFields :: "(string \<times> string) fields" where
  "incomingFields = [(''content'', on_field dec_string fst (\<lambda>f p. (f (fst p), snd p))),
     (''blob_pointer'', on_field dec_string snd (\<lambda>f p. (fst p, f (snd p))))]"

definition ownDeliver :: "message \<Rightarrow> bool" where
  "ownDeliver msg \<longleftrightarrow> (case unmarshal incomingFields (Payload msg) ('''', '''') of ((c, b), ok) \<Rightarrow> ok \<and> (c \<noteq> '''' \<or> b \<noteq> ''''))"

definition handleSettleDeliverContent :: "engine_opts \<Rightarrow> message \<Rightarrow> engine \<Rightarrow> engine_err option \<times> engine" where
  "handleSettleDeliverContent o1 msg e =
     (if ownDeliver msg then (None, e)
      else case EntryForDeliver (st e) (ID msg) of None \<Rightarrow> (None, e)
      | Some en \<Rightarrow> (case MatchForDeliver (st e) (ID msg) of None \<Rightarrow> (None, e)
        | Some m \<Rightarrow>
            if MatchBuyerKey (st e) m = '''' then (None, e)
            else if ScripStoreSet o1 \<and> liveReservation e m = None then (None, e)
            else case emitDeliverContent o1 msg en (MatchBuyerKey (st e) m) e of
                (Inl er, e1) \<Rightarrow> (Some er, e1) | (Inr _, e1) \<Rightarrow> (None, e1)))"

section \<open>The buyer-accept handler\<close>

definition freshHold :: "engine_opts \<Rightarrow> message \<Rightarrow> string \<Rightarrow> InventoryEntry \<Rightarrow> engine \<Rightarrow> engine_err option \<times> engine" where
  "freshHold o1 msg matchID en e =
     (case entryPrice o1 en e of (price, e1) \<Rightarrow>
      let fee = goquot price MatchingFeeRate; hold = wrap64 (price + fee);
          e2 = snd (ensureCreditForShortfall o1 (Sender msg) hold (ID msg) matchID e1)
      in case decAndSaveHold o1 (Sender msg) (ID msg) matchID hold price fee e2 of
          (Some er, e3) \<Rightarrow>
            (Some er, if er = ErrScrip ErrBudgetExceeded then snd (emitBuyerAcceptReject o1 (ID msg) ''insufficient_scrip'' e3) else e3)
        | (None, e3) \<Rightarrow> (None, if AutoDeliverOnBuyerAccept o1 then autoDeliverOnBuyerAccept o1 msg matchID e3 else e3))"

definition handleSettleBuyerAcceptScrip :: "engine_opts \<Rightarrow> message \<Rightarrow> engine \<Rightarrow> engine_err option \<times> engine" where
  "handleSettleBuyerAcceptScrip o1 msg e = (case Antecedents msg of [] \<Rightarrow> (None, e)
   | a # _ \<Rightarrow>
     (case ResolveMatchFromAntecedent (st e) a of (matchID, buyer, found) \<Rightarrow>
        if \<not> found \<or> Sender msg \<noteq> buyer then (None, e)
        else if IsMatchSettled (st e) matchID then (None, e)
        else if liveReservation e matchID \<noteq> None then (None, e)
        else if GetBuyHoldReservation (st e) matchID \<noteq> ''''
        then restoreExistingHold o1 msg matchID (GetBuyHoldReservation (st e) matchID) e
        else case GetInventoryEntry (st e) (MatchEntryID (st e) matchID) of None \<Rightarrow> (None, e)
          | Some en \<Rightarrow> freshHold o1 msg matchID en e))"

section \<open>Previews and disputes\<close>

definition previewPayload :: "engine_opts \<Rightarrow> InventoryEntry \<Rightarrow> json" where
  "previewPayload o1 en = JObj [(''content_type'', JStr (ContentType en)), (''entry_id'', JStr (EntryID en)),
     (''guide'', JStr (prose o1 ''preview'')), (''teaser'', JStr (Teaser en))]"

definition sendPreviewResponse :: "engine_opts \<Rightarrow> message \<Rightarrow> InventoryEntry \<Rightarrow> engine \<Rightarrow> engine_err option \<times> engine" where
  "sendPreviewResponse o1 msg en e = emitApply o1 (previewPayload o1 en) (phaseTags ''preview'') [ID msg] e"

definition handleSettlePreviewRequest :: "engine_opts \<Rightarrow> message \<Rightarrow> engine \<Rightarrow> engine_err option \<times> engine" where
  "handleSettlePreviewRequest o1 msg e = (case Antecedents msg of [] \<Rightarrow> (None, e)
   | a # _ \<Rightarrow> (case MatchInfo (st e) a (ID msg) of (buyer, entryID, known, tracked) \<Rightarrow>
       if \<not> known \<or> Sender msg \<noteq> buyer \<or> \<not> tracked then (None, e)
       else case GetInventoryEntry (st e) entryID of None \<Rightarrow> (None, e)
         | Some en \<Rightarrow> sendPreviewResponse o1 msg en e))"

definition disputeFields :: "(string \<times> string) fields" where
  "disputeFields = [(''reservation_id'', on_field dec_string fst (\<lambda>f p. (f (fst p), snd p))),
     (''buyer_key'', on_field dec_string snd (\<lambda>f p. (fst p, f (snd p))))]"

text \<open>The refund goes out of the reservation the dispute names, once its owner is known to be the sender.\<close>

definition refundDispute :: "engine_opts \<Rightarrow> message \<Rightarrow> string \<Rightarrow> engine \<Rightarrow> engine_err option \<times> engine" where
  "refundDispute o1 msg rid e = (case GetReservation (book e) rid of Inl _ \<Rightarrow> (None, e)
   | Inr owner \<Rightarrow>
     if Sender msg \<noteq> r_AgentKey owner then (Some ErrUnauthorized, e)
     else case ConsumeReservation (book e) rid of
        (b, Inl _) \<Rightarrow> (None, e)
      | (b, Inr res) \<Rightarrow>
         (case marshal o1 (refundPayload (r_AgentKey res) (r_Amount res) rid (ID msg)) (e\<lparr>book := b\<rparr>) of
            (None, e1) \<Rightarrow> (Some ErrMarshal, restore res e1)
          | (Some j, e1) \<Rightarrow>
             (let e2 = e1\<lparr>book := fst (AddBudget (book e1) (r_AgentKey res) (r_Amount res) '''')\<rparr>
              in (None, snd (sendOperatorMessage o1 (Some j) [TagScripDisputeRefund] [ID msg] e2)))))"

definition handleSettleSmallContentDispute :: "engine_opts \<Rightarrow> message \<Rightarrow> engine \<Rightarrow> engine_err option \<times> engine" where
  "handleSettleSmallContentDispute o1 msg e =
     (if \<not> ScripStoreSet o1 then (None, e)
      else case unmarshal disputeFields (Payload msg) ('''', '''') of ((rid, buyer), ok) \<Rightarrow>
        if \<not> ok then (Some ErrBadRequest, e)
        else if rid = '''' \<or> buyer = '''' then (None, e)
        else case Antecedents msg of [] \<Rightarrow> (None, e)
        | d # _ \<Rightarrow> (case EntryForDeliver (st e) d of None \<Rightarrow> (None, e)
          | Some en \<Rightarrow> if \<not> isSmallContent en then (None, e) else refundDispute o1 msg rid e))"

section \<open>The settle handler\<close>

definition handleSettle :: "engine_opts \<Rightarrow> message \<Rightarrow> engine \<Rightarrow> engine_err option \<times> engine" where
  "handleSettle o1 msg e =
     (let phase = settlePhaseFromTags (Tags msg) in
      if phase = ''preview-request'' then handleSettlePreviewRequest o1 msg e
      else if phase = ''small-content-dispute'' then handleSettleSmallContentDispute o1 msg e
      else if phase = ''deliver'' then handleSettleDeliverContent o1 msg e
      else let e1 = (if phase = ''complete'' \<and> (\<not> ScripStoreSet o1 \<or> hasLiveReservationForComplete msg e)
                     then snd (emitConsumeSignal o1 msg e) else e)
        in if \<not> ScripStoreSet o1 then (None, e1)
           else if phase = ''buyer-accept'' then handleSettleBuyerAcceptScrip o1 msg e1
           else if phase \<noteq> ''complete'' then (None, e1)
           else handleSettleComplete o1 msg e1)"

end
