(* ===== verification/Engine_Settle_Laws.thy ===== *)
theory Engine_Settle_Laws
  imports Engine_Settle Exchange_Laws
begin

text \<open>
  What the settlement engine keeps: the running ledger stays the one a replay of the log would rebuild, through
  every settle handler; content goes out only against a live reservation; a match settles once.
\<close>

section \<open>Handlers that move no scrip\<close>

lemma owing_applyState: "owing o1 k a e \<Longrightarrow> owing o1 k a (applyState o1 m e)"
  by (erule owing_idle) (simp_all add: applyState_def)

lemma owing_emitApply: "owing o1 k a e \<Longrightarrow> neutral tags \<Longrightarrow> owing o1 k a (snd (emitApply o1 j tags ants e))"
  by (auto simp: emitApply_def split: prod.split sum.split dest: owing_emit intro!: owing_applyState)

lemma owing_st: "owing o1 k a e \<Longrightarrow> owing o1 k a (e\<lparr>st := s\<rparr>)"
  by (erule owing_idle) simp_all

lemma owing_emitConsume: "owing o1 k a e \<Longrightarrow> owing o1 k a (snd (emitConsumeSignal o1 msg e))"
  by (auto simp: emitConsumeSignal_def split: list.split option.split intro!: owing_emitApply)

lemma owing_drawn: "owing o1 k a d \<Longrightarrow> owing o1 k a (drawn d)"
  by (erule owing_idle) simp_all

lemma owing_recordBuyer: "owing o1 k a e \<Longrightarrow> owing o1 k a (recordBuyerSettlement o1 b i e)"
  by (auto simp: recordBuyerSettlement_def timeNow_def Let_def intro: owing_idle)

lemma owing_stageLoop: "owing o1 k a e \<Longrightarrow> owing o1 k a (stageLoop o1 dl settled ps n e)"
proof (induction ps arbitrary: n e)
  case Nil
  then show ?case by simp
next
  case (Cons p ps)
  let ?r = "emitApply o1 (predictionPayload p (brokeredMatchReward (BrokeredMatchReward o1)) dl settled) [TagAssign] [] (drawn e)"
  have "owing o1 k a (drawn e)" using Cons.prems by (rule owing_drawn)
  moreover from this have "owing o1 k a (snd ?r)" by (rule owing_emitApply) simp
  ultimately show ?case using Cons by (cases ?r) (auto split: option.split)
qed

lemma owing_stagePredictions: "owing o1 k a e \<Longrightarrow> owing o1 k a (stagePredictions o1 i e)"
  by (auto simp: stagePredictions_def timeNow_def Let_def intro!: owing_stageLoop owing_drawn)

lemma neutral_phase [simp]: "neutral (phaseTags p)" "neutral (phaseTags p @ [''exchange:verdict:rejected''])"
  by (simp_all add: phaseTags_def neutral_def scripTags_def)

lemma owing_emit_snd: "owing o1 k a d \<Longrightarrow> neutral tags \<Longrightarrow> owing o1 k a (snd (emit o1 j tags ants d))"
  by (cases "emit o1 j tags ants d") (auto dest: owing_emit)

lemma sendDeliver_snd: "snd (sendDeliverMessage o1 msg j e) = snd (emit o1 j (phaseTags ''deliver'') [ID msg] e)"
  by (simp add: sendDeliverMessage_def split: prod.split sum.split)

lemma reject_snd: "snd (emitBuyerAcceptReject o1 i r e) =
    snd (emit o1 (rejectPayload o1 i r) (phaseTags ''buyer-accept-reject'' @ [''exchange:verdict:rejected'']) [i] e)"
  by (simp add: emitBuyerAcceptReject_def split: prod.split sum.split)

lemma owing_emitDeliver: "owing o1 k a e \<Longrightarrow> owing o1 k a (snd (emitDeliverContent o1 msg en b e))"
  by (auto simp: emitDeliverContent_def emitDeliverEnvelope_def emitDeliverPointer_def sendDeliver_snd split: option.split
      intro!: owing_emit_snd owing_drawn)

lemma owing_emitDeliver': "emitDeliverContent o1 msg en b e = (r, e1) \<Longrightarrow> owing o1 k a e \<Longrightarrow> owing o1 k a e1"
  using owing_emitDeliver[of o1 k a e msg en b] by simp

lemma owing_autoDeliver: "owing o1 k a e \<Longrightarrow> owing o1 k a (autoDeliverOnBuyerAccept o1 msg m e)"
  by (auto simp: autoDeliverOnBuyerAccept_def split: option.split sum.split prod.split
      dest: owing_emitDeliver' intro!: owing_applyState)

lemma owing_deliver: "owing o1 k a e \<Longrightarrow> owing o1 k a (snd (handleSettleDeliverContent o1 msg e))"
  by (auto simp: handleSettleDeliverContent_def split: option.split sum.split prod.split dest: owing_emitDeliver')

lemma owing_preview: "owing o1 k a e \<Longrightarrow> owing o1 k a (snd (handleSettlePreviewRequest o1 msg e))"
  by (auto simp: handleSettlePreviewRequest_def sendPreviewResponse_def
      split: list.split prod.split option.split intro!: owing_emitApply)

lemma owing_reject: "owing o1 k a e \<Longrightarrow> owing o1 k a (snd (emitBuyerAcceptReject o1 i r e))"
  unfolding reject_snd by (erule owing_emit_snd) simp

section \<open>Reservations and credits\<close>

lemma AddBudget_frame: "loans (fst (AddBudget s k a t)) = loans s" "loansByBorrower (fst (AddBudget s k a t)) = loansByBorrower s"
  "scripReplaying (fst (AddBudget s k a t)) = scripReplaying s" "scripOperatorKey (fst (AddBudget s k a t)) = scripOperatorKey s"
  "seenMsgIDs (fst (AddBudget s k a t)) = seenMsgIDs s" "reservations (fst (AddBudget s k a t)) = reservations s"
  by (auto simp: AddBudget_def Let_def split: option.split)

lemma view_AddBudget: "int64 a \<Longrightarrow> view (fst (AddBudget s k a '''')) = view (addToBalance s k a)"
  using AddBudget_blind[of a s k] AddBudget_frame[of s k a "''''"] by (auto simp: view_eq Balance_add)

lemma book_ok_AddBudget: "book_ok env b lg \<Longrightarrow> int64 a \<Longrightarrow> book_ok env (fst (AddBudget b k a t)) lg"
  using AddBudget_frame[of b k a t] ledger_ok_addBudget[of b a k t] by (simp add: book_ok_def)

lemma book_ok_reservations: "book_ok env (b\<lparr>reservations := w\<rparr>) lg = book_ok env b lg"
  by (simp add: book_ok_def)

lemma owing_reservations:
  "owing o1 k a e \<Longrightarrow> owing o1 k a (e\<lparr>book := book e\<lparr>reservations := w\<rparr>\<rparr>)"
  by (rule owing_book[of o1 k a e]) (auto simp: book_ok_reservations owing_def view_eq Balance_add Balance_def)

lemma owing_restore: "owing o1 k a e \<Longrightarrow> owing o1 k a (restore r e)"
  using owing_reservations by (simp add: restore_def SaveReservation_def)

lemma owing_map: "owing o1 k a e \<Longrightarrow> owing o1 k a (setReservation i j e)" "owing o1 k a e \<Longrightarrow> owing o1 k a (deleteReservation i e)"
  by (erule owing_idle; simp add: setReservation_def deleteReservation_def)+

lemma consume_cases: "ConsumeReservation s rid = (b, Inr r) \<Longrightarrow> reservations s rid = Some r \<and> b = s\<lparr>reservations := (reservations s)(rid := None)\<rparr>"
  by (auto simp: ConsumeReservation_def split: option.splits)

section \<open>Settling a held amount\<close>

lemma settleSplit_range:
  assumes "0 < a" "a \<le> 922337203685477580" "0 < den" "settleSplit a den = (price, fee, residual, revenue)"
  shows "0 \<le> residual" "0 \<le> revenue" "0 \<le> fee" "residual + revenue = price" "price + fee \<le> a" "int64 residual" "int64 revenue" "int64 fee"
proof -
  have w: "wrap64 (a * 10) = a * 10" using assms(1,2) by (intro wrap64_id) (simp add: int64_def)
  have p: "price = a * 10 div 11" "fee = price div 10" "residual = price div den"
    using assms by (auto simp: settleSplit_def MatchingFeeRate_def w goquot_pos Let_def)
  have r: "0 \<le> price" "price \<le> a" using assms(1) unfolding p(1) by linarith+
  then have r': "0 \<le> residual" "residual \<le> price"
    using assms(3) p(3) zdiv_mono2[of price 1 den] by (simp_all add: pos_imp_zdiv_nonneg_iff)
  have w2: "wrap64 (price - residual) = price - residual"
    using r r' assms(2) by (intro wrap64_id) (simp add: int64_def)
  have rev: "revenue = price - residual" using assms(4) p w2 by (auto simp: settleSplit_def Let_def)
  show "0 \<le> residual" "0 \<le> revenue" "residual + revenue = price" using r' rev by simp_all
  show "0 \<le> fee" using p(2) r by simp
  have "11 * price \<le> a * 10" unfolding p(1) by linarith
  then show "price + fee \<le> a" using p(2) r(1) by linarith
  show "int64 residual" "int64 revenue" "int64 fee" using r r' rev assms(2) p(2) by (auto simp: int64_def)
qed

lemma consume_owing: "owing o1 k a e \<Longrightarrow> ConsumeReservation (book e) rid = (b, Inr r) \<Longrightarrow> owing o1 k a (e\<lparr>book := b\<rparr>)"
  using owing_reservations[of o1 k a e] by (auto dest!: consume_cases)

text \<open>Sending does not read the ledger.\<close>

lemma send_book: "sendOperatorMessage o1 p tags ants (d\<lparr>book := b\<rparr>) =
    (fst (sendOperatorMessage o1 p tags ants d), (snd (sendOperatorMessage o1 p tags ants d))\<lparr>book := b\<rparr>)"
  by (auto simp: sendOperatorMessage_def sendLocalOperatorMessage_def newReservationID_def timeNow_def
      nextMonotonicTimestamp_def appendRecord_def Let_def split: prod.split)

lemma more_st: "desk.more (d' :: engine) = desk.more d \<Longrightarrow> st d' = st d"
  by (cases d; cases d') simp

lemma send_frame: "book (snd (sendOperatorMessage o1 p tags ants d)) = book d"
  "desk.more (snd (sendOperatorMessage o1 p tags ants d)) = desk.more d"
  by (auto simp: sendOperatorMessage_def sendLocalOperatorMessage_def newReservationID_def timeNow_def
      nextMonotonicTimestamp_def appendRecord_def Let_def split: prod.split)

lemma sendBurn_frame: "book (sendBurn o1 msg bp e) = book e" "st (sendBurn o1 msg bp e) = st e"
  "sendBurn o1 msg bp (e\<lparr>book := b\<rparr>) = (sendBurn o1 msg bp e)\<lparr>book := b\<rparr>"
  by (auto simp: sendBurn_def send_frame send_book more_st[OF send_frame(2)] split: option.split)

lemma owing_sendBurn: "owing o1 k a e \<Longrightarrow> owing o1 k a (sendBurn o1 msg bp e)"
  by (auto simp: sendBurn_def split: option.split intro: owing_send)

lemma add_frame: "loans (addToBalance s k a) = loans s" "loansByBorrower (addToBalance s k a) = loansByBorrower s"
  "scripReplaying (addToBalance s k a) = scripReplaying s" "scripOperatorKey (addToBalance s k a) = scripOperatorKey s"
  "seenMsgIDs (addToBalance s k a) = seenMsgIDs s"
  by (simp_all add: addToBalance_def Let_def split: option.split)

lemma book_ok_add: "book_ok env b lg \<Longrightarrow> book_ok env (addToBalance b k a) lg"
  by (simp add: book_ok_def add_frame ledger_ok_add)

text \<open>The settle record is in the log: replay now gives the seller the residual and the operator the revenue.\<close>

lemma settle_sent:
  assumes d: "in_step env d" and s: "sendOperatorMessage env (Some (settlePayload rid seller res fee rv mm)) [TagScripSettle] ants d = (Some m, d1)"
    and k: "seller \<noteq> ''''" "OperatorPublicKey env \<noteq> ''''" and r: "0 \<le> res" "0 \<le> rv" "int64 res" "int64 rv" "int64 fee"
  shows "owing env (OperatorPublicKey env) rv (d1\<lparr>book := addToBalance (book d1) seller res\<rparr>)"
proof -
  note sh = send_Some[OF s]
  have ok: "book_ok env (book d) (localLog d)" and fd: "fresh_draws env d" and v: "view (book d) = view (replayedLedger env d)"
    using d by (simp_all add: in_step_def)
  let ?t = "replayedLedger env d\<lparr>seenMsgIDs := insert (ID m) (ID ` set (localLog d))\<rparr>"
  have new: "ID m \<notin> seenMsgIDs (replayedLedger env d)" using fd sh(5) by (simp add: fresh_draws_def)
  have "replayedLedger env d1 = applyScripSettle_ledger ?t m"
    using replayed_append[OF sh(7), of env] applyMessage_op[OF new, of TagScripSettle] sh(2,4) by simp
  moreover have "settleOf m = Some (seller, res, rv)"
    using decode_settle[OF sh(1) r(3,5,4)] k r(1,2) sh(4) by (simp add: settleOf_def)
  ultimately have "view (replayedLedger env d1) = view (addToBalance (addToBalance (book d) seller res) (OperatorPublicKey env) rv)"
    using r(1,2) v ok sh(4) by (auto simp: applyScripSettle_eq Let_def view_eq Balance_add book_ok_def ledger_ok_def wrap64_id fun_eq_iff add_frame)
  moreover have "fresh_draws env d1" using fd sh(5,7,10) by (auto simp: fresh_draws_def dest!: injD)
  ultimately show ?thesis
    using sh(7,8) ok book_ok_add[OF book_ok_later[OF ok]] replayed_cong[of "d1\<lparr>book := addToBalance (book d1) seller res\<rparr>" d1 env]
    by (simp add: owing_def fresh_draws_def)
qed

text \<open>Crediting the book by what the log already gives.\<close>

lemma credit_frame: "localLog (credit k a d) = localLog d" "draws (credit k a d) = draws d" "desk.more (credit k a d) = desk.more d"
  by (simp_all add: credit_def)

lemma credit_view: "book_ok env (book d) lg \<Longrightarrow> 0 \<le> a \<Longrightarrow> int64 a \<Longrightarrow>
    book_ok env (book (credit k a d)) lg \<and> view (book (credit k a d)) = view (addToBalance (book d) k a)"
  using book_ok_AddBudget[of env "book d" lg a k "[]"]
  by (cases "a = 0") (simp_all add: credit_def view_AddBudget view_add_0 book_ok_def)

lemma credit_pending:
  assumes "owing env k a (d\<lparr>book := addToBalance (book d) k' a'\<rparr>)" "book_ok env (book d) (localLog d)" "0 \<le> a'" "int64 a'"
  shows "owing env k a (credit k' a' d)"
  by (rule owing_book[OF assms(1)])
    (use credit_view[OF assms(2-4), of k'] in \<open>auto simp: credit_frame intro: view_add\<close>)

lemma credit_owed:
  assumes "owing env k a d" "0 \<le> a" "int64 a"
  shows "in_step env (credit k a d)"
proof -
  have ok: "book_ok env (book d) (localLog d)" using assms(1) by (simp add: owing_def)
  note c = credit_view[OF ok assms(2,3), of k]
  have "owing env k 0 (credit k a d)"
    by (rule owing_book[OF assms(1)]) (use c in \<open>auto simp: credit_frame book_ok_def view_add_0\<close>)
  then show ?thesis using in_step_owing by blast
qed

lemma applyRepayment_more: "desk.more (applyRepayment env b a c d) = desk.more d"
proof -
  have "desk.more (repayLoop env c ls r d) = desk.more d" for ls r
  proof (induction ls arbitrary: r d)
    case (Cons l ls)
    then show ?case
      by (auto simp: foldScrip_def Let_def split: option.split prod.split sum.split dest: emit_Inr(12) emit_Inl(6))
  qed simp
  then show ?thesis by (simp add: applyRepayment_def)
qed

lemma repaymentAmount_le: "0 \<le> gross \<Longrightarrow> repaymentAmount s b gross \<le> gross"
  by (simp add: repaymentAmount_def Let_def)

lemma owing_marshalSettle: "marshalSettlePayloads o1 msg mi seller rid res fee rv e = (p, e') \<Longrightarrow> owing o1 k a e \<Longrightarrow>
    owing o1 k a e' \<and> book e' = book e \<and> st e' = st e
    \<and> (\<forall>sp bp. p = Some (sp, bp) \<longrightarrow> sp = settlePayload rid seller res fee rv mi)"
  by (auto simp: marshalSettlePayloads_def marshal_def split: prod.splits option.splits if_splits intro: owing_idle)

lemma credited_covers:
  assumes "0 \<le> Balance b k" "Balance b k \<le> 2 ^ 62" "0 \<le> a" "a \<le> 922337203685477580"
  shows "a \<le> Balance (addToBalance b k a) k"
proof -
  have "wrap64 (Balance b k + a) = Balance b k + a" using assms by (intro wrap64_id) (simp add: int64_def)
  then show ?thesis using assms(1) by simp
qed

lemma in_step_perform:
  assumes d: "in_step o1 e" and op: "OperatorKey (st e) = OperatorPublicKey o1" "OperatorPublicKey o1 \<noteq> ''''"
    and bal: "0 \<le> Balance (book e) seller" "Balance (book e) seller \<le> 2 ^ 62"
    and res: "\<forall>res. reservations (book e) rid = Some res \<longrightarrow> 0 < r_Amount res \<and> r_Amount res \<le> 922337203685477580"
    and seller: "seller \<noteq> ''''"
  shows "in_step o1 (snd (performScripSettlement o1 msg seller mi rid en e))"
proof (cases "IsMatchSettled (st e) mi")
  case True
  then show ?thesis using d by (simp add: performScripSettlement_def)
next
  case False
  obtain b cr where c: "ConsumeReservation (book e) rid = (b, cr)" by fastforce
  show ?thesis
  proof (cases cr)
    case (Inl er)
    then show ?thesis using d c False by (simp add: performScripSettlement_def)
  next
    case (Inr r)
    obtain price fee residual revenue where sp:
      "settleSplit (r_Amount r) (residualDenominatorFor (penv o1) en) = (price, fee, residual, revenue)"
      by (metis prod_cases4)
    have r: "reservations (book e) rid = Some r" "b = book e\<lparr>reservations := (reservations (book e))(rid := None)\<rparr>"
      using consume_cases c Inr by auto
    have "0 < residualDenominatorFor (penv o1) en"
      by (auto simp: residualDenominatorFor_def ResidualRate_def HighReuseResidualDenominator_def split: option.split)
    note rg = settleSplit_range[OF _ _ this sp]
    have rg: "0 \<le> residual" "0 \<le> revenue" "int64 residual" "int64 revenue" "int64 fee" "residual \<le> 922337203685477580"
      using rg res r(1) by auto
    define e1 where "e1 = e\<lparr>book := b\<rparr>"
    have e1: "owing o1 '''' 0 e1" using d c Inr in_step_owing consume_owing unfolding e1_def by blast
    obtain p e2 where m: "marshalSettlePayloads o1 msg mi seller rid residual fee revenue e1 = (p, e2)" by fastforce
    note m' = owing_marshalSettle[OF m e1]
    show ?thesis
    proof (cases p)
      case None
      have "owing o1 '''' 0 (restore r e2)" using m' owing_restore by blast
      then have "in_step o1 (restore r e2)" using in_step_owing by blast
      with None show ?thesis using False c Inr sp m by (simp add: performScripSettlement_def e1_def Let_def)
    next
      case (Some q)
      obtain bp where q: "p = Some (settlePayload rid seller residual fee revenue mi, bp)"
        using Some m' by (cases q) auto
      obtain x e3 where s: "sendOperatorMessage o1 (Some (settlePayload rid seller residual fee revenue mi)) [TagScripSettle] [ID msg] e2 = (x, e3)"
        by fastforce
      have e2: "in_step o1 e2" using m' in_step_owing by blast
      show ?thesis
      proof (cases x)
        case None
        have "owing o1 '''' 0 (restore r e3)" using owing_send_fail[OF _ s[unfolded None]] m' owing_restore by blast
        then have "in_step o1 (restore r e3)" using in_step_owing by blast
        with None q s show ?thesis using False c Inr sp m by (simp add: performScripSettlement_def e1_def Let_def)
      next
        case (Some y)
        note s = s[unfolded Some]
        define e4 where "e4 = (deleteReservation mi e3)\<lparr>st := markMatchSettled mi (st (deleteReservation mi e3))\<rparr>"
        have st4: "st (deleteReservation mi e3) = st e3" by (simp add: deleteReservation_def)
        define e5 where "e5 = sendBurn o1 msg bp e4"
        define e6 where "e6 = credit seller residual e5"
        define w where "w = repaymentAmount b seller residual"
        define e7 where "e7 = (if w > 0 then applyRepayment o1 seller w (ID msg) e6 else e6)"
        have b3: "book e3 = b" "st e3 = st e" using send_Some(8)[OF s] more_st[OF send_Some(13)[OF s]] m' by (simp_all add: e1_def)
        have "owing o1 (OperatorPublicKey o1) revenue (e3\<lparr>book := addToBalance (book e3) seller residual\<rparr>)"
          by (rule settle_sent[OF e2 s seller op(2) rg(1-5)])
        then have "owing o1 (OperatorPublicKey o1) revenue (e4\<lparr>book := addToBalance (book e4) seller residual\<rparr>)"
          by (rule owing_idle) (simp_all add: e4_def deleteReservation_def)
        from owing_sendBurn[OF this, of msg bp]
        have p5: "owing o1 (OperatorPublicKey o1) revenue (e5\<lparr>book := addToBalance (book e5) seller residual\<rparr>)"
          by (simp add: e5_def sendBurn_frame)
        have b5: "book e5 = b" using b3 by (simp add: e5_def sendBurn_frame e4_def deleteReservation_def)
        have "ledger_ok b" using m' by (auto simp: owing_def book_ok_def e1_def)
        then have ok5: "book_ok o1 (book e5) (localLog e5)" using p5 b5 by (simp add: owing_def book_ok_def add_frame)
        have p6: "owing o1 (OperatorPublicKey o1) revenue e6"
          unfolding e6_def by (rule credit_pending[OF p5 ok5 rg(1,3)])
        have "view (book e6) = view (addToBalance b seller residual)"
          using credit_view[OF ok5 rg(1,3)] b5 by (simp add: e6_def)
        moreover have bb: "Balance b = Balance (book e)" using r(2) by (simp add: Balance_def fun_eq_iff)
        ultimately have "residual \<le> Balance (book e6) seller"
          using credited_covers[of b seller residual] bal rg(1,6) bb by (simp add: view_eq)
        then have "w \<le> Balance (book e6) seller" using repaymentAmount_le[OF rg(1), of b seller] by (simp add: w_def)
        then have p7: "owing o1 (OperatorPublicKey o1) revenue e7"
          using owing_applyRepayment[OF p6] p6 by (simp add: e7_def)
        have "desk.more e7 = desk.more e5"
          by (simp add: e7_def applyRepayment_more e6_def credit_frame)
        then have "st e7 = markMatchSettled mi (st e)"
          using more_st[of e7 e5] b3 by (simp add: e5_def sendBurn_frame e4_def st4)
        then have "OperatorKey (st e7) = OperatorPublicKey o1" using op by (simp add: markMatchSettled_def)
        then have "in_step o1 (credit (OperatorKey (st e7)) revenue e7)" using credit_owed[OF p7 rg(2,4)] by simp
        moreover have "snd (performScripSettlement o1 msg seller mi rid en e) = credit (OperatorKey (st e7)) revenue e7"
          using False c Inr sp m q s Some
          by (simp add: performScripSettlement_def Let_def e1_def[symmetric] e4_def e5_def e6_def e7_def w_def) (simp add: e1_def)
        ultimately show ?thesis by simp
      qed
    qed
  qed
qed

section \<open>Refunds\<close>

lemma refund_done:
  assumes d: "in_step env d" and e: "emit env (refundPayload k a rid c) [TagScripDisputeRefund] ants d = (Inr m, d1)"
    and k: "k \<noteq> ''''" and a: "0 < a" "int64 a" and d': "localLog d' = localLog d1" "draws d1 \<le> draws d'"
    "book d' = fst (AddBudget (book d) k a '''')"
  shows "in_step env d'"
proof (rule in_step_emit[OF d e _ d'(1,2)])
  note sh = emit_Inr[OF e]
  have ok: "book_ok env (book d) (localLog d)" using d by (simp add: in_step_def)
  show "book_ok env (book d') (localLog d1)"
    using book_ok_AddBudget[OF book_ok_later[OF ok] a(2)] sh(7) d'(3) by simp
  let ?t = "replayedLedger env d\<lparr>seenMsgIDs := insert (ID m) (ID ` set (localLog d))\<rparr>"
  have "applyDisputeRefund ?t m = addToBalance ?t k a"
    using decode_refund[OF sh(1) k a] by (simp add: applyDisputeRefund_eq)
  moreover have "view (addToBalance ?t k a) = view (addToBalance (book d) k a)"
    by (rule view_add) (use d in \<open>simp add: in_step_def\<close>)
  ultimately show "view (book d') = view (applyScripOp TagScripDisputeRefund ?t m)"
    using a(2) d'(3) by (simp add: view_AddBudget)
qed simp

lemma in_step_restore: "in_step env d \<Longrightarrow> in_step env (restore r d)"
  using in_step_owing owing_restore by blast

lemma in_step_consume: "in_step o1 e \<Longrightarrow> ConsumeReservation (book e) rid = (b, Inr r) \<Longrightarrow> in_step o1 (e\<lparr>book := b\<rparr>)"
  using in_step_owing consume_owing by blast

lemma in_step_deadline:
  assumes d: "in_step o1 e" and i: "int64 insured"
    and res: "\<forall>res. reservations (book e) rid = Some res \<longrightarrow> r_AgentKey res \<noteq> '''' \<and> 0 < r_Amount res \<and> int64 (r_Amount res)"
  shows "in_step o1 (snd (handleDeadlineMissRefund o1 msg mi rid insured e))"
proof -
  obtain b cr where c: "ConsumeReservation (book e) rid = (b, cr)" by fastforce
  show ?thesis
  proof (cases cr)
    case (Inl er)
    then show ?thesis using d c by (simp add: handleDeadlineMissRefund_def)
  next
    case (Inr r)
    let ?a = "if insured \<le> 0 then r_Amount r else insured"
    have r: "r_AgentKey r \<noteq> ''''" "0 < ?a" "int64 ?a" using res i consume_cases c Inr by auto
    have d1: "in_step o1 (e\<lparr>book := b\<rparr>)" using in_step_consume d c Inr by blast
    obtain x e1 where x: "emit o1 (refundPayload (r_AgentKey r) ?a rid (ID msg)) [TagScripDisputeRefund] [ID msg] (e\<lparr>book := b\<rparr>) = (x, e1)"
      by fastforce
    show ?thesis
    proof (cases x)
      case (Inl er)
      then show ?thesis using c Inr x in_step_restore[OF in_step_fail[OF d1 x[unfolded Inl]], of r]
        by (simp add: handleDeadlineMissRefund_def Let_def)
    next
      case (Inr m)
      note sh = emit_Inr[OF x[unfolded Inr]]
      show ?thesis
        by (rule refund_done[OF d1 x[unfolded Inr] r])
          (use c \<open>cr = Inr r\<close> x Inr sh in \<open>simp_all add: handleDeadlineMissRefund_def Let_def\<close>)
    qed
  qed
qed

section \<open>Completion records leave the book and the guarantees\<close>

lemma op_consume: "exchangeOp [TagConsume] = TagConsume" "exchangeOp [TagAssign] = TagAssign"
  by code_simp+

lemma guarantee_assign: "matchGuarantee (applyAssign s m) = matchGuarantee (s :: exchange_state)"
  by (simp add: applyAssign_def Let_def setAssign_def recordFoldDenial_def split: prod.split option.split list.split)

lemma guarantee_consume: "matchGuarantee (applyConsume s m) = matchGuarantee s"
  by (simp add: applyConsume_def recordFoldDenial_def split: prod.split)

lemma guarantee_hops: "matchGuarantee (trackSenderHopDepth s m) = matchGuarantee s"
  by (simp add: trackSenderHopDepth_def addHopDepth_def Let_def split: option.split)

lemma dispatch_records: "exchangeOp (Tags m) = TagConsume \<Longrightarrow> dispatch env now s m b = applyConsume s m"
  "exchangeOp (Tags m) = TagAssign \<Longrightarrow> dispatch env now s m b = applyAssign s m"
  by (simp_all add: dispatch_def)

lemma guarantee_frame: "Tags m = [TagConsume] \<or> Tags m = [TagAssign] \<Longrightarrow> matchGuarantee (Apply env now store s m) = matchGuarantee s"
  unfolding Apply_def applyLocked_def Let_def
  by (elim disjE) (simp_all only: dispatch_records op_consume Tags_canonMsg guarantee_assign guarantee_consume guarantee_hops simp_thms split: if_split)

lemma stock_frame: "Tags m = [TagConsume] \<or> Tags m = [TagAssign] \<Longrightarrow> stock (Apply env now store s m) = stock s"
  unfolding Apply_def applyLocked_def Let_def
  by (elim disjE) (simp_all only: dispatch_records op_consume Tags_canonMsg frames simp_thms split: if_split)

lemma inventory_frame: "Tags m = [TagConsume] \<or> Tags m = [TagAssign] \<Longrightarrow> inventory (Apply env now store s m) = inventory s"
  using stock_frame[of m env now store s] by (simp add: stock_def)

lemma operator_frame: "OperatorKey (Apply env now store s m) = OperatorKey s"
  using applyLocked_cfg[of env now s m] by (simp add: Apply_def cfg_def)

definition undisturbed :: "engine \<Rightarrow> engine \<Rightarrow> bool" where
  "undisturbed e e' \<longleftrightarrow> book e' = book e \<and> OperatorKey (st e') = OperatorKey (st e)
     \<and> matchGuarantee (st e') = matchGuarantee (st e) \<and> inventory (st e') = inventory (st e)"

lemma undisturbed_refl [simp]: "undisturbed e e"
  by (simp add: undisturbed_def)

lemma undisturbed_trans: "undisturbed e e1 \<Longrightarrow> undisturbed e1 e2 \<Longrightarrow> undisturbed e e2"
  by (simp add: undisturbed_def)

lemma undisturbed_drawn: "undisturbed e (drawn e)"
  by (simp add: undisturbed_def)

lemma undisturbed_emitApply:
  assumes "tags = [TagConsume] \<or> tags = [TagAssign]"
  shows "undisturbed e (snd (emitApply o1 j tags ants e))"
proof (cases "emit o1 j tags ants e")
  case (Pair r e1)
  show ?thesis
  proof (cases r)
    case (Inl er)
    then show ?thesis
      using Pair emit_Inl[OF Pair[unfolded Inl]] more_st[OF emit_Inl(6)[OF Pair[unfolded Inl]]]
      by (simp add: emitApply_def undisturbed_def)
  next
    case (Inr m)
    note sh = emit_Inr[OF Pair[unfolded Inr]]
    show ?thesis
      using Pair Inr sh more_st[OF sh(12)] assms guarantee_frame[of m] inventory_frame[of m] operator_frame
      by (auto simp: emitApply_def undisturbed_def applyState_def)
  qed
qed

lemma undisturbed_consume: "undisturbed e (snd (emitConsumeSignal o1 msg e))"
  by (simp add: emitConsumeSignal_def undisturbed_emitApply split: list.split option.split)

lemma coUpdate_frame: "OperatorKey (UpdateCoOccurrence ord a b s) = OperatorKey s"
  "matchGuarantee (UpdateCoOccurrence ord a b s) = matchGuarantee s" "inventory (UpdateCoOccurrence ord a b s) = inventory s"
  by (simp_all add: UpdateCoOccurrence_def)

lemma coUpdates_frame:
  "OperatorKey (foldl (\<lambda>s (p, t :: gtime). UpdateCoOccurrence ord p b s) s xs) = OperatorKey s
   \<and> matchGuarantee (foldl (\<lambda>s (p, t :: gtime). UpdateCoOccurrence ord p b s) s xs) = matchGuarantee s
   \<and> inventory (foldl (\<lambda>s (p, t :: gtime). UpdateCoOccurrence ord p b s) s xs) = inventory s"
  by (induction xs arbitrary: s) (simp_all add: coUpdate_frame split: prod.split)

lemma undisturbed_recordBuyer: "undisturbed e (recordBuyerSettlement o1 b i e)"
  by (simp add: recordBuyerSettlement_def timeNow_def Let_def undisturbed_def coUpdates_frame)

lemma undisturbed_stageLoop: "undisturbed e (stageLoop o1 dl settled ps n e)"
proof (induction ps arbitrary: n e)
  case (Cons p ps)
  let ?r = "emitApply o1 (predictionPayload p (brokeredMatchReward (BrokeredMatchReward o1)) dl settled) [TagAssign] [] (drawn e)"
  have "undisturbed e (snd ?r)"
    by (rule undisturbed_trans[OF undisturbed_drawn undisturbed_emitApply]) simp
  then show ?case using Cons.IH undisturbed_drawn
    by (cases ?r) (auto split: option.split intro: undisturbed_trans)
qed simp

lemma undisturbed_predictions: "undisturbed e (stagePredictions o1 i e)"
  by (simp add: stagePredictions_def timeNow_def Let_def undisturbed_trans[OF undisturbed_drawn undisturbed_stageLoop])

section \<open>Every settle handler keeps ledger and log in step\<close>

text \<open>
  The arithmetic range of an engine: balances below a quarter of the range, reservations whose product with the
  fee rate does not wrap, prices whose fee can be added, parties that have names.
\<close>

definition solvent :: "engine_opts \<Rightarrow> engine \<Rightarrow> bool" where
  "solvent o1 e \<longleftrightarrow> OperatorKey (st e) = OperatorPublicKey o1 \<and> OperatorPublicKey o1 \<noteq> ''''
     \<and> (\<forall>k. 0 \<le> Balance (book e) k \<and> Balance (book e) k \<le> 2 ^ 62)
     \<and> (\<forall>i r. reservations (book e) i = Some r \<longrightarrow> r_ID r = i \<and> r_AgentKey r \<noteq> '''' \<and> 0 < r_Amount r
          \<and> r_Amount r \<le> 922337203685477580)
     \<and> (\<forall>m d a. matchGuarantee (st e) m = Some (d, a) \<longrightarrow> int64 a)
     \<and> (\<forall>en \<in> snd ` set (inventory (st e)). SellerKey en \<noteq> '''')"

definition priced :: "engine_opts \<Rightarrow> engine \<Rightarrow> bool" where
  "priced o1 e \<longleftrightarrow> (\<forall>en \<in> snd ` set (inventory (st e)). \<forall>now.
     computePrice (penv o1) (DensityMarkupFactor o1) now (st e) en \<le> 8384883669867978007)"

text \<open>A step that changed a balance and left no record of it.\<close>

definition unlogged :: "engine \<Rightarrow> engine \<Rightarrow> bool" where
  "unlogged e e' \<longleftrightarrow> localLog e' = localLog e \<and> Balance (book e') \<noteq> Balance (book e)"

lemma solvent_resolve: "solvent o1 e \<Longrightarrow> resolveSellerFromComplete msg e = Some (k, d) \<Longrightarrow> k \<noteq> ''''"
  by (auto simp: solvent_def resolveSellerFromComplete_def SellerKeyForDeliver_def EntryForDeliver_def Let_def
      split: list.splits option.splits if_splits dest!: map_of_SomeD)

text \<open>A refund that fails leaves the reservation as it was.\<close>

lemma deadline_failed:
  assumes "handleDeadlineMissRefund o1 msg mi rid ins e = (Some er, e1)"
    and "\<forall>r. reservations (book e) rid = Some r \<longrightarrow> r_ID r = rid"
  shows "st e1 = st e \<and> Balance (book e1) = Balance (book e) \<and> reservations (book e1) = reservations (book e)"
proof (cases "ConsumeReservation (book e) rid")
  case (Pair b cr)
  show ?thesis
  proof (cases cr)
    case (Inl x)
    then show ?thesis using assms(1) Pair by (simp add: handleDeadlineMissRefund_def)
  next
    case (Inr r)
    note c = consume_cases[OF Pair[unfolded Inr]]
    then obtain e2 y where "e1 = restore r e2" and e2: "emit o1 y [TagScripDisputeRefund] [ID msg] (e\<lparr>book := b\<rparr>) = (Inl er, e2)"
      using assms(1) Pair Inr by (auto simp: handleDeadlineMissRefund_def Let_def split: prod.splits sum.splits)
    then show ?thesis using c assms(2) emit_Inl(2)[OF e2] more_st[OF emit_Inl(6)[OF e2]]
      by (simp add: restore_def SaveReservation_def Balance_def fun_eq_iff)
  qed
qed

lemma in_step_complete:
  assumes d: "in_step o1 e" and f: "solvent o1 e" and u: "undisturbed e e0" and s: "in_step o1 e0" and k: "seller \<noteq> ''''"
  shows "in_step o1 (case checkDeadlineMiss o1 msg m rid e0 of (True, e2) \<Rightarrow> e2
      | (False, e2) \<Rightarrow> snd (performScripSettlement o1 msg seller m rid en e2))"
proof -
  have res: "\<forall>res. reservations (book e0) rid = Some res \<longrightarrow> r_ID res = rid \<and> r_AgentKey res \<noteq> '''' \<and> 0 < r_Amount res \<and> r_Amount res \<le> 922337203685477580"
    using f u by (simp add: solvent_def undisturbed_def)
  have perf: "in_step o1 (snd (performScripSettlement o1 msg seller m rid en e0))"
    by (rule in_step_perform[OF s]) (use f u k in \<open>auto simp: solvent_def undisturbed_def\<close>)
  show ?thesis
  proof (cases "checkDeadlineMiss o1 msg m rid e0 = (False, e0)")
    case True
    with perf show ?thesis by simp
  next
    case False
    then obtain dl ins where g: "matchGuarantee (st e0) m = Some (dl, ins)"
      and c: "checkDeadlineMiss o1 msg m rid e0 = (case handleDeadlineMissRefund o1 msg m rid ins e0 of
        (Some er, e1) \<Rightarrow> (False, e1) | (None, e1) \<Rightarrow> (True, e1))"
      by (auto simp: checkDeadlineMiss_def GuaranteeForMatch_def split: option.splits prod.splits if_splits)
    have i: "int64 ins" using f u g by (auto simp: solvent_def undisturbed_def)
    obtain r e1 where h: "handleDeadlineMissRefund o1 msg m rid ins e0 = (r, e1)" by fastforce
    have e1: "in_step o1 e1"
      using in_step_deadline[OF s i, of rid msg m] res h by (force simp: int64_def)
    show ?thesis
    proof (cases r)
      case None
      then show ?thesis using c h e1 by simp
    next
      case (Some er)
      have "st e1 = st e0 \<and> Balance (book e1) = Balance (book e0) \<and> reservations (book e1) = reservations (book e0)"
        using deadline_failed h Some res by blast
      then have "in_step o1 (snd (performScripSettlement o1 msg seller m rid en e1))"
        by (intro in_step_perform[OF e1]) (use f u k res in \<open>auto simp: solvent_def undisturbed_def\<close>)
      then show ?thesis using c h Some by simp
    qed
  qed
qed

lemma in_step_plain: "in_step o1 e \<Longrightarrow> (\<And>k a. owing o1 k a e \<Longrightarrow> owing o1 k a e') \<Longrightarrow> in_step o1 e'"
  using in_step_owing[of o1 e "[]"] in_step_owing[of o1 e' "[]"] by simp

lemma priced_entry: "priced o1 e \<Longrightarrow> GetInventoryEntry (st e) i = Some en \<Longrightarrow>
    computePrice (penv o1) (DensityMarkupFactor o1) now (st e) en \<le> 8384883669867978007"
  by (force simp: priced_def GetInventoryEntry_def dest!: map_of_SomeD)

lemma hold_positive:
  assumes "1 \<le> p" "p \<le> 8384883669867978007"
  shows "0 < wrap64 (p + goquot p MatchingFeeRate)"
proof -
  have q: "goquot p MatchingFeeRate = p div 10" using assms by (simp add: goquot_pos MatchingFeeRate_def)
  have "0 \<le> p div 10" "p + p div 10 \<le> 9223372036854775807" using assms by linarith+
  then show ?thesis using assms(1) unfolding q by (subst wrap64_id) (auto simp: int64_def)
qed

lemma in_step_freshHold:
  assumes d: "in_step o1 e" and f: "priced o1 e" and b: "Sender msg \<noteq> ''''" and en: "GetInventoryEntry (st e) i = Some en"
  shows "in_step o1 (snd (freshHold o1 msg mi en e))"
proof -
  define price where "price = computePrice (penv o1) (DensityMarkupFactor o1) (env_now o1 (draws e)) (st e) en"
  define hold where "hold = wrap64 (price + goquot price MatchingFeeRate)"
  have h: "0 < hold"
    using hold_positive priced_entry[OF f en] computePrice_range unfolding hold_def price_def by blast
  define e2 where "e2 = snd (ensureCreditForShortfall o1 (Sender msg) hold (ID msg) mi (drawn e))"
  have e2: "in_step o1 e2" using in_step_credit[OF in_step_drawn[OF d]] by (simp add: e2_def)
  obtain r e3 where r: "decAndSaveHold o1 (Sender msg) (ID msg) mi hold price (goquot price MatchingFeeRate) e2 = (r, e3)" by fastforce
  have e3: "in_step o1 e3" using hold_done[OF e2 h b, of "ID msg" mi price "goquot price MatchingFeeRate"] r by simp
  show ?thesis
    using r e3 in_step_plain[OF e3 owing_reject] in_step_plain[OF e3 owing_autoDeliver]
    by (simp add: freshHold_def entryPrice_def timeNow_def Let_def price_def[symmetric] hold_def[symmetric] e2_def[symmetric]
        split: option.split)
qed

lemma restoreHold_shape: "snd (restoreExistingHold o1 msg mi rid e) = e
    \<or> (\<exists>x n. draws e \<le> n \<and> snd (restoreExistingHold o1 msg mi rid e) = setReservation mi rid (restore x (e\<lparr>draws := n\<rparr>)))"
proof -
  have self: "e\<lparr>draws := draws e\<rparr> = e" by simp
  have "\<exists>h n. (case GetBuyHoldAmount (st e) mi of Some a \<Rightarrow> (a, e) | None \<Rightarrow> recomputedHold o1 mi e) = (h, e\<lparr>draws := n\<rparr>) \<and> draws e \<le> n"
  proof (cases "GetBuyHoldAmount (st e) mi")
    case None
    then show ?thesis
    proof (cases "GetInventoryEntry (st e) (MatchEntryID (st e) mi)")
      case None
      then show ?thesis using \<open>GetBuyHoldAmount (st e) mi = None\<close> self
        by (intro exI[of _ 0] exI[of _ "draws e"]) (simp add: recomputedHold_def)
    next
      case (Some en)
      obtain p where "entryPrice o1 en e = (p, drawn e)" by (simp add: entryPrice_def timeNow_def)
      then show ?thesis using None Some
        by (intro exI[of _ "wrap64 (p + goquot p MatchingFeeRate)"] exI[of _ "Suc (draws e)"]) (simp add: recomputedHold_def)
    qed
  next
    case (Some a)
    then show ?thesis using self by (intro exI[of _ a] exI[of _ "draws e"]) simp
  qed
  then obtain h n where "(case GetBuyHoldAmount (st e) mi of Some a \<Rightarrow> (a, e) | None \<Rightarrow> recomputedHold o1 mi e) = (h, e\<lparr>draws := n\<rparr>)"
    "draws e \<le> n" by blast
  then show ?thesis
    by (cases "GetBudget (book e) (Sender msg)"; cases "IsMatchSettled (st e) mi")
      (simp_all add: restoreExistingHold_def timeNow_def, intro disjI2 exI conjI, rule le_SucI, assumption, rule refl)
qed

lemma in_step_restoreHold: "in_step o1 e \<Longrightarrow> in_step o1 (snd (restoreExistingHold o1 msg mi rid e))"
proof -
  assume d: "in_step o1 e"
  have "in_step o1 (setReservation mi rid (restore x (e\<lparr>draws := n\<rparr>)))" if "draws e \<le> n" for x n
  proof (rule in_step_plain)
    show "in_step o1 (e\<lparr>draws := n\<rparr>)" using d by (rule in_step_idle) (simp_all add: that)
  qed (intro owing_map owing_restore)
  then show ?thesis using restoreHold_shape[of o1 msg mi rid e] d by auto
qed

lemma in_step_accept:
  assumes "in_step o1 e" "priced o1 e" "Sender msg \<noteq> ''''"
  shows "in_step o1 (snd (handleSettleBuyerAcceptScrip o1 msg e))"
  using assms(1) in_step_restoreHold[OF assms(1)] in_step_freshHold[OF assms]
  by (simp add: handleSettleBuyerAcceptScrip_def split: list.split prod.split option.split)

lemma reserved_range: "solvent o1 e \<Longrightarrow> reservations (book e) i = Some r \<Longrightarrow>
    r_AgentKey r \<noteq> '''' \<and> 0 < r_Amount r \<and> int64 (r_Amount r)"
  by (fastforce simp: solvent_def int64_def)

text \<open>The refund of a dispute credits the buyer first and then emits the record, whose failure it ignores.\<close>

lemma refund_unlogged:
  assumes f: "solvent o1 e" and c: "ConsumeReservation (book e) rid = (b, Inr r)"
    and m: "marshal o1 j (e\<lparr>book := b\<rparr>) = (p, e1)" and s: "sendOperatorMessage o1 q tags ants e1 = (None, e2)"
  shows "unlogged e (e2\<lparr>book := fst (AddBudget b (r_AgentKey r) (r_Amount r) '''')\<rparr>)"
proof -
  note r = reserved_range[OF f conjunct1[OF consume_cases[OF c]]]
  have "r_Amount r \<le> 922337203685477580" "0 \<le> Balance (book e) (r_AgentKey r)" "Balance (book e) (r_AgentKey r) \<le> 2 ^ 62"
    using f conjunct1[OF consume_cases[OF c]] by (auto simp: solvent_def)
  then have w: "wrap64 (Balance (book e) (r_AgentKey r) + r_Amount r) \<noteq> Balance (book e) (r_AgentKey r)"
    using r by (subst wrap64_id) (auto simp: int64_def)
  have b: "Balance b = Balance (book e)" using consume_cases[OF c] by (simp add: Balance_def fun_eq_iff)
  have "Balance (fst (AddBudget b (r_AgentKey r) (r_Amount r) '''')) (r_AgentKey r)
      = wrap64 (Balance (book e) (r_AgentKey r) + r_Amount r)"
    using view_AddBudget[of "r_Amount r" b "r_AgentKey r"] r by (simp add: view_eq Balance_add b)
  then have "Balance (fst (AddBudget b (r_AgentKey r) (r_Amount r) '''')) \<noteq> Balance (book e)" using w by auto
  then show ?thesis using send_None(1)[OF s] marshal_frame(1)[OF m] by (simp add: unlogged_def)
qed

lemma in_step_dispute:
  assumes d: "in_step o1 e" and f: "solvent o1 e" and kept: "\<not> unlogged e (snd (refundDispute o1 msg rid e))"
  shows "in_step o1 (snd (refundDispute o1 msg rid e))"
proof (cases "ConsumeReservation (book e) rid")
  case (Pair b cr)
  show ?thesis
  proof (cases cr)
    case (Inl x)
    then show ?thesis using d Pair by (simp add: refundDispute_def split: sum.split)
  next
    case (Inr r)
    have r: "r_AgentKey r \<noteq> ''''" "0 < r_Amount r" "int64 (r_Amount r)"
      using reserved_range[OF f] consume_cases[OF Pair[unfolded Inr]] by blast+
    note d1 = in_step_consume[OF d Pair[unfolded Inr]]
    let ?j = "refundPayload (r_AgentKey r) (r_Amount r) rid (ID msg)"
    obtain p e1 where m: "marshal o1 ?j (e\<lparr>book := b\<rparr>) = (p, e1)" by fastforce
    show ?thesis
    proof (cases p)
      case None
      have "in_step o1 (restore r e1)"
        by (rule in_step_restore, rule in_step_plain[OF d1]) (use owing_marshal[OF _ m] in blast)
      then show ?thesis using None Pair Inr m d by (simp add: refundDispute_def split: sum.split)
    next
      case (Some j)
      then have j: "j = ?j" "book e1 = b" using m by (auto simp: marshal_def split: if_splits)
      obtain q e2 where s: "sendOperatorMessage o1 (Some ?j) [TagScripDisputeRefund] [ID msg] e1 = (q, e2)" by fastforce
      let ?b = "fst (AddBudget b (r_AgentKey r) (r_Amount r) '''')"
      have run: "snd (refundDispute o1 msg rid e) = e \<or> snd (refundDispute o1 msg rid e) = e2\<lparr>book := ?b\<rparr>"
        using Pair Inr m Some j s by (simp add: refundDispute_def send_book Let_def split: sum.split)
      show ?thesis
      proof (cases q)
        case None
        then show ?thesis using run d kept refund_unlogged[OF f Pair[unfolded Inr] m s[unfolded None]] by auto
      next
        case (Some y)
        then have "emit o1 ?j [TagScripDisputeRefund] [ID msg] (e\<lparr>book := b\<rparr>) = (Inr y, e2)"
          using s m \<open>p = Some j\<close> j(1) by (simp add: emit_def)
        then have "in_step o1 (e2\<lparr>book := ?b\<rparr>)" by (rule refund_done[OF d1 _ r]) simp_all
        then show ?thesis using run d by auto
      qed
    qed
  qed
qed

lemma dispute_shape: "snd (handleSettleSmallContentDispute o1 msg e) = e
    \<or> (\<exists>rid. snd (handleSettleSmallContentDispute o1 msg e) = snd (refundDispute o1 msg rid e))"
  by (simp add: handleSettleSmallContentDispute_def split: prod.split list.split option.split) blast

lemma in_step_handleComplete:
  assumes d: "in_step o1 e" and f: "solvent o1 e"
  shows "in_step o1 (snd (handleSettleComplete o1 msg e))"
proof (cases "resolveSellerFromComplete msg e")
  case None
  then show ?thesis using d by (simp add: handleSettleComplete_def)
next
  case (Some kd)
  obtain seller del where kd: "kd = (seller, del)" by fastforce
  define settled where "settled = EntryForDeliver (st e) del"
  define e1 where "e1 = (case settled of None \<Rightarrow> e
     | Some en \<Rightarrow> stagePredictions o1 (EntryID en) (recordBuyerSettlement o1 (Sender msg) (EntryID en) e))"
  have u: "undisturbed e e1"
    by (auto simp: e1_def split: option.split intro: undisturbed_trans[OF undisturbed_recordBuyer undisturbed_predictions])
  have e1: "in_step o1 e1"
    by (rule in_step_plain[OF d]) (auto simp: e1_def split: option.split intro!: owing_stagePredictions owing_recordBuyer)
  have k: "seller \<noteq> ''''" using solvent_resolve[OF f Some[unfolded kd]] .
  note c = in_step_complete[OF d f u e1 k, of msg _ _ settled]
  have "snd (handleSettleComplete o1 msg e) = (case MatchForDeliver (st e) del of None \<Rightarrow> e
     | Some m \<Rightarrow> (case liveReservation e1 m of None \<Rightarrow> e1
        | Some rid \<Rightarrow> (case checkDeadlineMiss o1 msg m rid e1 of (True, e2) \<Rightarrow> e2
           | (False, e2) \<Rightarrow> snd (performScripSettlement o1 msg seller m rid settled e2))))"
    using Some kd by (simp add: handleSettleComplete_def Let_def settled_def[symmetric] e1_def[symmetric] split: option.split prod.split bool.split)
  then show ?thesis using d e1 c by (auto split: option.split)
qed

lemma solvent_undisturbed: "undisturbed e e' \<Longrightarrow> solvent o1 e \<Longrightarrow> solvent o1 e'"
  by (simp add: undisturbed_def solvent_def)

lemma in_step_handle:
  assumes d: "in_step o1 e" and f: "solvent o1 e" "priced o1 e" and b: "Sender msg \<noteq> ''''"
    and k: "settlePhaseFromTags (Tags msg) = ''small-content-dispute'' \<Longrightarrow> \<not> unlogged e (snd (handleSettle o1 msg e))"
  shows "in_step o1 (snd (handleSettle o1 msg e))"
proof -
  have 1: "in_step o1 (snd (handleSettleSmallContentDispute o1 msg e))"
    if u: "\<not> unlogged e (snd (handleSettleSmallContentDispute o1 msg e))"
    using dispute_shape[of o1 msg e]
  proof
    assume "\<exists>rid. snd (handleSettleSmallContentDispute o1 msg e) = snd (refundDispute o1 msg rid e)"
    then obtain rid where r: "snd (handleSettleSmallContentDispute o1 msg e) = snd (refundDispute o1 msg rid e)" by blast
    show ?thesis using in_step_dispute[OF d f(1) u[unfolded r]] by (simp only: r)
  qed (use d in simp)
  have 2: "in_step o1 (snd (emitConsumeSignal o1 msg e))" by (rule in_step_plain[OF d owing_emitConsume])
  have 3: "in_step o1 (snd (handleSettleComplete o1 msg (snd (emitConsumeSignal o1 msg e))))"
    by (rule in_step_handleComplete[OF 2 solvent_undisturbed[OF undisturbed_consume f(1)]])
  show ?thesis
    using 1 2 3 k in_step_plain[OF d owing_preview] in_step_plain[OF d owing_deliver]
      in_step_accept[OF d f(2) b] in_step_handleComplete[OF d f(1), of msg] d
    by (simp add: handleSettle_def Let_def)
qed

text \<open>What a restart of the operator makes of the log.\<close>

lemma restart_view:
  "\<exists>s. NewLocalScripStore (Some (localLog d)) (OperatorPublicKey env) = Some s \<and> view s = view (replayedLedger env d)"
  by (simp add: NewLocalScripStore_def scripReplay_def replayedLedger_def)

section \<open>Runs of the desk\<close>

text \<open>
  What changes the running ledger or the log: a settle message that is dispatched, an operator mint, a record of
  somebody else's that the intake appends, the fold of any message into the exchange state, and a restart.
\<close>

datatype desk_event = Handled message | Minted string i64 | Intake message | Folded message | Restarted gtime

text \<open>
  A new process on the same log: \<open>NewEngine\<close>, \<open>replayAllLocal\<close> (without \<open>SequencedIngest\<close>) and \<open>NewLocalScripStore\<close>. Reservations, the
  matches they belong to and the session windows live in memory only.
\<close>

definition restartEngine :: "engine_opts \<Rightarrow> gtime \<Rightarrow> engine \<Rightarrow> engine" where
  "restartEngine o1 now e = e\<lparr>
     book := (case NewLocalScripStore (Some (localLog e)) (OperatorPublicKey o1) of Some s \<Rightarrow> s | None \<Rightarrow> book e),
     matchToReservation := Map.empty, lastEmitNanos := 0, creditCapRefused := 0,
     st := Replay (penv o1) now (blobFetch o1) (NewState\<lparr>OperatorKey := OperatorPublicKey o1,
         encryptedRequired := operatorSigner (penv o1) \<noteq> None, onFoldDenialWired := True\<rparr>) (localLog e),
     buyerRecentEntries := Map.empty\<rparr>"

fun deskStep :: "engine_opts \<Rightarrow> engine \<Rightarrow> desk_event \<Rightarrow> engine" where
  "deskStep o1 e (Handled m) = snd (handleSettle o1 m e)"
| "deskStep o1 e (Minted k a) = snd (MintScrip o1 k a e)"
| "deskStep o1 e (Intake m) = e\<lparr>localLog := localLog e @ [m]\<rparr>"
| "deskStep o1 e (Folded m) = applyState o1 m e"
| "deskStep o1 e (Restarted now) = restartEngine o1 now e"

definition deskRun :: "engine_opts \<Rightarrow> engine \<Rightarrow> desk_event list \<Rightarrow> engine" where
  "deskRun o1 e evs = foldl (deskStep o1) e evs"

text \<open>
  The steps the agreement of ledger and log is proved for: a settle message with a sender, handled by an engine in
  range; a mint, a fold and a restart always; and the intake's record of somebody other than the operator, under an ID
  the operator does not draw.
\<close>

fun ranged :: "engine_opts \<Rightarrow> engine \<Rightarrow> desk_event \<Rightarrow> bool" where
  "ranged o1 e (Handled m) \<longleftrightarrow> solvent o1 e \<and> priced o1 e \<and> Sender m \<noteq> ''''"
| "ranged o1 e (Minted k a) \<longleftrightarrow> True"
| "ranged o1 e (Intake m) \<longleftrightarrow> Sender m \<noteq> OperatorPublicKey o1 \<and> OperatorPublicKey o1 \<noteq> '''' \<and> (\<forall>n. env_id o1 n \<noteq> ID m)"
| "ranged o1 e (Folded m) \<longleftrightarrow> True"
| "ranged o1 e (Restarted now) \<longleftrightarrow> True"

text \<open>A small-content dispute whose refund reached the buyer's balance and whose record did not reach the log.\<close>

definition lostRefund :: "engine_opts \<Rightarrow> engine \<Rightarrow> desk_event \<Rightarrow> bool" where
  "lostRefund o1 e v \<longleftrightarrow> (\<exists>m. v = Handled m \<and> settlePhaseFromTags (Tags m) = ''small-content-dispute'')
     \<and> unlogged e (deskStep o1 e v)"

fun rangedRun :: "engine_opts \<Rightarrow> engine \<Rightarrow> desk_event list \<Rightarrow> bool" where
  "rangedRun o1 e [] \<longleftrightarrow> True"
| "rangedRun o1 e (v # vs) \<longleftrightarrow> ranged o1 e v \<and> rangedRun o1 (deskStep o1 e v) vs"

fun refundsLogged :: "engine_opts \<Rightarrow> engine \<Rightarrow> desk_event list \<Rightarrow> bool" where
  "refundsLogged o1 e [] \<longleftrightarrow> True"
| "refundsLogged o1 e (v # vs) \<longleftrightarrow> \<not> lostRefund o1 e v \<and> refundsLogged o1 (deskStep o1 e v) vs"

lemma restart_frame: "localLog (restartEngine o1 now e) = localLog e" "draws (restartEngine o1 now e) = draws e"
  by (simp_all add: restartEngine_def)

lemma in_step_restart:
  assumes "in_step o1 e"
  shows "in_step o1 (restartEngine o1 now e)"
proof -
  obtain s where s: "NewLocalScripStore (Some (localLog e)) (OperatorPublicKey o1) = Some s" "view s = view (replayedLedger o1 e)"
    using restart_view by blast
  have r: "s = replayedLedger o1 e\<lparr>scripReplaying := False\<rparr>" and ok: "ledger_ok s"
    using s(1) scripReplay_ok[of "emptyLedger (OperatorPublicKey o1)" "Some (localLog e)" s]
    by (auto simp: NewLocalScripStore_def scripReplay_def replayedLedger_def split: prod.splits if_splits)
  have "book_ok o1 s (localLog e)" using ok by (simp add: book_ok_def r)
  moreover have "book (restartEngine o1 now e) = s" using s(1) by (simp add: restartEngine_def)
  ultimately show ?thesis
    using assms s(2) replayed_cong[OF restart_frame(1)[of o1 now e], of o1] fresh_later[of o1 e "restartEngine o1 now e"]
    by (simp add: in_step_def restart_frame)
qed

lemma in_step_step: "in_step o1 e \<Longrightarrow> ranged o1 e v \<Longrightarrow> \<not> lostRefund o1 e v \<Longrightarrow> in_step o1 (deskStep o1 e v)"
  by (cases v) (auto simp: lostRefund_def intro: in_step_handle in_step_MintScrip in_step_plain[OF _ owing_intake]
      in_step_plain[OF _ owing_applyState] in_step_restart)

lemma in_step_run: "in_step o1 e \<Longrightarrow> rangedRun o1 e evs \<Longrightarrow> refundsLogged o1 e evs \<Longrightarrow> in_step o1 (deskRun o1 e evs)"
  unfolding deskRun_def by (induction evs arbitrary: e) (simp_all add: in_step_step)

section \<open>A small engine\<close>

definition tinyEntry :: InventoryEntry where
  "tinyEntry = \<lparr>EntryID = ''e'', PutMsgID = ''p'', SellerKey = ''s'', Description = ''d'', ContentHash = ''h'',
     ContentType = ''code'', Domains = [], TokenCost = 0, ContentSize = 4, PutPrice = 0, ExpiresAt = 0,
     PutTimestamp = 1, AcceptedProvenanceLevel = 0, NeedsRevalidation = False, CompressedFrom = '''',
     CompressionTier = '''', Content = ''text'', BlobPointer = ''blob'', WrappedCEKOperator = '''', CiphertextHash = '''',
     Teaser = '''', LegacyPlaintext = False, HighReuseCoherent = False\<rparr>"

definition tinyOpts :: engine_opts where
  "tinyOpts = \<lparr>OperatorPublicKey = ''op'', LocalStoreSet = True, ScripStoreSet = True, FederationGuardEnabled = False,
     AutoDeliverOnBuyerAccept = True, env_id = (\<lambda>n. replicate n CHR ''r'' @ ''i''), env_now = (\<lambda>_. 1000000000),
     env_marshal = (\<lambda>_. True), env_append = (\<lambda>_. True),
     penv = \<lparr>operatorSigner = None, nip44Lib = demoLib, aeadOpen = (\<lambda>_ _ _. None), blobPut = None, similar = (\<lambda>_ _. False)\<rparr>,
     blobFetch = None, DensityMarkupFactor = 0, BrokeredMatchReward = 0, mapOrder = (\<lambda>x. x), env_nonce = (\<lambda>_. ''n''),
     prose = (\<lambda>x. x)\<rparr>"

definition tinyEngine :: engine where
  "tinyEngine = \<lparr>book = emptyLedger ''op'', localLog = [], matchToReservation = Map.empty, lastEmitNanos = 0,
     creditCapRefused = 0, draws = 0,
     st = NewState\<lparr>OperatorKey := ''op'', inventory := [(''e'', tinyEntry)], matchToBuyer := [''m'' \<mapsto> ''b''],
        matchToEntry := [''m'' \<mapsto> ''e''], previewToMatch := [''q'' \<mapsto> ''m'']\<rparr>,
     buyerRecentEntries = Map.empty\<rparr>"

definition tinyAccept :: message where
  "tinyAccept = \<lparr>ID = ''a'', Sender = ''b'', Payload = Some (JObj []), Tags = phaseTags ''buyer-accept'',
     Antecedents = [''q''], Timestamp = 1, Instance = ''''\<rparr>"

lemma tiny_in_step: "in_step tinyOpts tinyEngine"
proof -
  have "inj (\<lambda>n. replicate n CHR ''r'' @ ''i'')" by (rule injI) (auto dest: arg_cong[where f=length])
  then show ?thesis
    by (simp add: in_step_def book_ok_def tinyOpts_def tinyEngine_def emptyLedger_def ledger_ok_def fresh_draws_def
        replayedLedger_def resetLedger_def view_def Balance_def fun_eq_iff int64_def LoansByBorrower_def map_ok_def)
qed

lemma tiny_solvent: "solvent tinyOpts tinyEngine" "priced tinyOpts tinyEngine"
  by (simp_all add: solvent_def priced_def tinyOpts_def tinyEngine_def emptyLedger_def Balance_def NewState_def
      tinyEntry_def computePrice_def priceBase_def)

text \<open>The same engine with the match delivered and a live reservation, its log closed, and a dispute of the delivery.\<close>

definition disputeOpts :: engine_opts where
  "disputeOpts = tinyOpts\<lparr>env_append := (\<lambda>_. False)\<rparr>"

definition disputeEngine :: engine where
  "disputeEngine = tinyEngine\<lparr>book := (emptyLedger ''op'')\<lparr>reservations := [''r'' \<mapsto> \<lparr>r_ID = ''r'', r_AgentKey = ''b'',
       r_RK = '''', r_ETag = '''', r_Amount = 5, r_CreatedAt = 0\<rparr>]\<rparr>,
     st := (st tinyEngine)\<lparr>deliverToMatch := [''d'' \<mapsto> ''m'']\<rparr>\<rparr>"

definition tinyDispute :: message where
  "tinyDispute = \<lparr>ID = ''x'', Sender = ''b'', Payload = Some (JObj [(''reservation_id'', JStr ''r''), (''buyer_key'', JStr ''b'')]),
     Tags = phaseTags ''small-content-dispute'', Antecedents = [''d''], Timestamp = 1, Instance = ''''\<rparr>"

lemma dispute_in_step: "in_step disputeOpts disputeEngine"
proof -
  have "inj (\<lambda>n. replicate n CHR ''r'' @ ''i'')" by (rule injI) (auto dest: arg_cong[where f=length])
  then show ?thesis
    by (simp add: in_step_def book_ok_def disputeOpts_def disputeEngine_def tinyOpts_def tinyEngine_def emptyLedger_def
        ledger_ok_def fresh_draws_def replayedLedger_def resetLedger_def view_def Balance_def fun_eq_iff int64_def
        LoansByBorrower_def map_ok_def)
qed

lemma dispute_lost: "lostRefund disputeOpts disputeEngine (Handled tinyDispute)"
proof -
  have "Balance (book (deskStep disputeOpts disputeEngine (Handled tinyDispute))) ''b'' = 5"
    "Balance (book disputeEngine) ''b'' = 0" by code_simp+
  then have "Balance (book (deskStep disputeOpts disputeEngine (Handled tinyDispute))) \<noteq> Balance (book disputeEngine)" by auto
  moreover have "localLog (deskStep disputeOpts disputeEngine (Handled tinyDispute)) = localLog disputeEngine"
    "settlePhaseFromTags (Tags tinyDispute) = ''small-content-dispute''" by code_simp+
  ultimately show ?thesis by (simp add: lostRefund_def unlogged_def del: deskStep.simps)
qed

section \<open>Properties\<close>

text \<open>The ledger a restart would build from the log has the balances and the loan book of the running one.\<close>

definition agrees :: "engine_opts \<Rightarrow> engine \<Rightarrow> bool" where
  "agrees o1 e \<longleftrightarrow> (\<exists>s. NewLocalScripStore (Some (localLog e)) (OperatorPublicKey o1) = Some s
     \<and> Balance s = Balance (book e) \<and> loans s = loans (book e))"

lemma in_step_agrees: "in_step o1 e \<Longrightarrow> agrees o1 e"
  using restart_view[of e o1] by (auto simp: agrees_def in_step_def view_eq)

lemma unlogged_disagrees: "agrees o1 e \<Longrightarrow> unlogged e e' \<Longrightarrow> \<not> agrees o1 e'"
  by (auto simp: agrees_def unlogged_def)

text \<open>
  C34: what the operator pays out live is what a restart rebuilds. Take a run of settle messages, mints, intake, folds
  and restarts that starts in step and stays in range: the engine holds the operator's key, every balance is between
  0 and 2^62, every reservation is filed under its ID with a named owner and an amount between 1 and a tenth of
  the range, guarantees fit int64, stocked entries name their sellers, and prices leave room for the fee. As long as no
  small-content dispute has refunded a buyer without its record reaching the log, the ledger built from the log by
  NewLocalScripStore has the balance of every key and the loan book of the running ledger, whichever other
  emissions failed. The proviso is needed: the dispute's refund is credited before its record is emitted and the
  emission's failure is ignored, and the step that loses a record makes the two ledgers differ.
\<close>

theorem live_matches_replay:
  assumes "in_step o1 e" "rangedRun o1 e evs" "refundsLogged o1 e evs"
  shows "agrees o1 (deskRun o1 e evs)
    \<and> (\<forall>v. lostRefund o1 (deskRun o1 e evs) v \<longrightarrow> \<not> agrees o1 (deskRun o1 e (evs @ [v])))"
proof -
  have a: "agrees o1 (deskRun o1 e evs)" by (rule in_step_agrees[OF in_step_run[OF assms]])
  show ?thesis using a unlogged_disagrees[OF a] by (auto simp: lostRefund_def deskRun_def)
qed

text \<open>A buyer without scrip accepts: a loan is minted, the hold taken, the content delivered, all of it logged; and a lost refund.\<close>

lemma live_matches_replay_witness:
  "agrees tinyOpts (deskRun tinyOpts tinyEngine [Handled tinyAccept])
   \<and> agrees disputeOpts disputeEngine \<and> \<not> agrees disputeOpts (deskRun disputeOpts disputeEngine [Handled tinyDispute])"
proof -
  have "rangedRun tinyOpts tinyEngine [Handled tinyAccept]"
    by (simp add: tiny_solvent) (simp add: tinyAccept_def)
  moreover have "refundsLogged tinyOpts tinyEngine [Handled tinyAccept]"
    by (simp add: lostRefund_def) (simp add: tinyAccept_def phaseTags_def)
  ultimately have "agrees tinyOpts (deskRun tinyOpts tinyEngine [Handled tinyAccept])"
    by (rule live_matches_replay[OF tiny_in_step, THEN conjunct1])
  moreover have "agrees disputeOpts (deskRun disputeOpts disputeEngine [])
      \<and> (\<forall>v. lostRefund disputeOpts (deskRun disputeOpts disputeEngine []) v
           \<longrightarrow> \<not> agrees disputeOpts (deskRun disputeOpts disputeEngine ([] @ [v])))"
    by (rule live_matches_replay[OF dispute_in_step]) simp_all
  then have "agrees disputeOpts disputeEngine" "\<not> agrees disputeOpts (deskRun disputeOpts disputeEngine [Handled tinyDispute])"
    using dispute_lost unfolding append_Nil deskRun_def foldl_Nil by blast+
  ultimately show ?thesis by blast
qed

text \<open>
  C37: the settlement of a hold, to the unit. For a price p below the range of the product, the hold is p and a
  tenth of it, and settling it burns exactly that tenth and splits p between seller and operator when ten divides
  p; otherwise it splits p - 1, so one unit of the hold reaches nobody.
\<close>

theorem settle_split_exact:
  assumes "1 \<le> p" "p \<le> 838488366986797800" "den \<in> {ResidualRate, HighReuseResidualDenominator}"
    and "settleSplit (wrap64 (p + goquot p MatchingFeeRate)) den = (price, fee, residual, revenue)"
  shows "fee = p div 10 \<and> price = (if p mod 10 = 0 then p else p - 1) \<and> residual = price div den
    \<and> residual + revenue = price \<and> 0 \<le> residual \<and> 0 \<le> revenue
    \<and> wrap64 (p + goquot p MatchingFeeRate) = residual + revenue + fee + (if p mod 10 = 0 then 0 else 1)"
proof -
  define q where "q = p div 10"
  define r where "r = p mod 10"
  have qr: "p = 10 * q + r" "0 \<le> r" "r < 10" "q = p div 10" "r = p mod 10" by (simp_all add: q_def r_def)
  have h: "wrap64 (p + goquot p MatchingFeeRate) = 11 * q + r"
  proof -
    have "goquot p MatchingFeeRate = q" using assms(1) by (simp add: goquot_pos MatchingFeeRate_def q_def)
    moreover have "int64 (p + q)" using assms(1,2) qr(1-3) by (simp add: int64_def)
    ultimately show ?thesis using qr(1) by (simp add: wrap64_id)
  qed
  have a: "0 < 11 * q + r" "11 * q + r \<le> 922337203685477580" using assms(1,2) qr(1-3) by linarith+
  have d: "0 < den" using assms(3) by (auto simp: ResidualRate_def HighReuseResidualDenominator_def)
  note rg = settleSplit_range[OF a d assms(4)[unfolded h]]
  have split: "price = a * 10 div 11 \<and> fee = price div 10 \<and> residual = price div den"
    if "settleSplit a den = (price, fee, residual, revenue)" "0 < a" "a \<le> 922337203685477580" "0 \<le> fee" for a
  proof -
    have "wrap64 (a * 10) = a * 10" using that by (intro wrap64_id) (simp add: int64_def)
    then show ?thesis using that d by (auto simp: settleSplit_def MatchingFeeRate_def goquot_pos Let_def)
  qed
  have pr: "price = (11 * q + r) * 10 div 11" "fee = price div 10" "residual = price div den"
    using split[OF assms(4)[unfolded h] a rg(3)] by auto
  have "r * 10 div 11 = (if r = 0 then 0 else r - 1)"
  proof -
    have "r = 0 \<or> r = 1 \<or> r = 2 \<or> r = 3 \<or> r = 4 \<or> r = 5 \<or> r = 6 \<or> r = 7 \<or> r = 8 \<or> r = 9"
      using qr(2,3) by arith
    then show ?thesis by (elim disjE) simp_all
  qed
  moreover have "price = 10 * q + r * 10 div 11"
    using pr(1) div_mult_self1[of 11 "r * 10" "10 * q"] by (simp add: algebra_simps)
  ultimately have pr2: "price = 10 * q + (if r = 0 then 0 else r - 1)" by simp
  have fee: "fee = q" unfolding pr(2) pr2 using qr(2,3) by (cases "r = 0") simp_all
  have "price = (if r = 0 then p else p - 1)" using pr2 qr(1) by simp
  moreover have "11 * q + r = residual + revenue + fee + (if r = 0 then 0 else 1)" using rg(4) pr2 fee by simp
  ultimately show ?thesis unfolding h qr(4,5)[symmetric] fee using rg(1,2,4) pr(3) by simp
qed

lemma settle_split_exact_witness:
  "settleSplit 20 10 = (18, 1, 1, 17)
    \<and> wrap64 (19 + goquot 19 MatchingFeeRate) = (1::int) + 17 + 1 + (if (19::int) mod 10 = 0 then 0 else 1)"
proof -
  have s: "settleSplit (wrap64 (19 + goquot 19 MatchingFeeRate)) 10 = (18, 1, 1, 17)" by code_simp
  show ?thesis using settle_split_exact[of 19 10 18 1 1 17] s
    by (simp add: ResidualRate_def)
qed

end
