(* ===== verification/Engine_Settle_Safety.thy ===== *)
theory Engine_Settle_Safety
  imports Engine_Settle_Laws
begin

text \<open>
  Safety of the settlement engine: what each handler adds to the log, that content leaves only against a held
  payment, and that a match is paid out once, across restarts too.
\<close>

section \<open>The settled matches only grow\<close>

abbreviation paid :: "exchange_state \<Rightarrow> string set" where "paid \<equiv> settledMatches"

named_theorems paid_frames \<open>handlers that settle no match\<close>

lemma paid_basic [paid_frames]: "paid (recordFoldDenial r s m) = paid s" "paid (sellerStats k f s) = paid s"
  "paid (setAssign a x s) = paid s" "paid (bindClaim a x k c s) = paid s" "paid (applyPut env s m b) = paid s"
  "paid (applyDemandOnly s m) = paid s" 
  by (simp_all add: recordFoldDenial_def sellerStats_def setAssign_def bindClaim_def applyPut_def applyDemandOnly_def Let_def
      split: prod.split option.split)

lemma paid_orders [paid_frames]: "paid (applyBuy now s m) = paid s" "paid (applyMatch s m) = paid s"
  by (simp_all add: paid_frames applyBuy_def applyMatch_def recordResults_def recordBuyer_def Let_def split: prod.split option.split list.split)

lemma paid_assigns [paid_frames]: "paid (applyAssign s m) = paid s" "paid (applyAuctionBid a r p s m) = paid s"
  by (simp_all add: paid_frames applyAssign_def applyAuctionBid_def Let_def split: prod.split)

lemma paid_assign_steps [paid_frames]: "paid (applyAssignClaim s m) = paid s" "paid (applyAssignAuctionClose s m) = paid s"
  "paid (applyAssignComplete s m) = paid s" "paid (applyAssignAccept s m) = paid s"
  "paid (applyAssignReject s m) = paid s" "paid (applyAssignExpire s m) = paid s"
  by (simp_all add: paid_frames applyAssignClaim_def applyAssignAuctionClose_def applyAssignComplete_def
      applyAssignAccept_def applyAssignReject_def applyAssignExpire_def Let_def split: prod.split option.split list.split)

lemma paid_stock [paid_frames]: "paid (applySettlePutAccept s m) = paid s" "paid (applySettlePutReject s m) = paid s"
  by (simp_all add: paid_frames applySettlePutAccept_def applySettlePutReject_def Let_def
      split: prod.split option.split list.split)

lemma paid_ledger [paid_frames]: "paid (applyScripBuyHold s m) = paid s" "paid (applyConsume s m) = paid s"
  "paid (applyReprice s m) = paid s" "paid (incrementFederationTransactionCount k s) = paid s"
  "paid (applySettleSmallContentDispute s m) = paid s" "paid (trackSenderHopDepth s m) = paid s"
  by (simp_all add: paid_frames applyScripBuyHold_def applyConsume_def applyReprice_def applySettleSmallContentDispute_def
      incrementFederationTransactionCount_def trackSenderHopDepth_def addHopDepth_def Let_def split: prod.split option.split list.split)

lemma paid_accept [paid_frames]: "paid (applySettleBuyerAccept s m) = paid s" "paid (applySettleBuyerReject s m) = paid s"
  by (simp_all add: paid_frames applySettleBuyerAccept_def applySettleBuyerReject_def Let_def
      split: prod.split option.split list.split)

lemma paid_preview [paid_frames]: "paid (applySettlePreviewRequest s m) = paid s" "paid (applySettlePreview s m) = paid s"
  by (simp_all add: paid_frames applySettlePreviewRequest_def applySettlePreview_def Let_def
      split: prod.split option.split list.split)

lemma paid_deliver [paid_frames]: "paid (countDelivery e b s) = paid s" "paid (applySettleDeliver s m) = paid s"
  by (simp_all add: paid_frames applySettleDeliver_def countDelivery_def Let_def
      split: prod.split option.split list.split)

lemma paid_sale [paid_frames]: "paid (recordCompletion d k e m s) = paid s" "paid (recordSale e p m s) = paid s"
  by (simp_all add: paid_frames recordCompletion_def recordSale_def Let_def split: prod.split option.split list.split)

lemma paid_complete [paid_frames]: "paid (applySettleComplete s m) = paid s"
  by (simp add: paid_frames applySettleComplete_def Let_def split: prod.split option.split list.split)

lemma paid_scripSettle: "paid s \<subseteq> paid (applyScripSettle s m)"
  by (auto simp: paid_frames applyScripSettle_def markMatchSettled_def split: prod.split)

lemma paid_settle [paid_frames]: "paid (applySettle s m) = paid s"
  by (rule settle_rule) (simp_all add: paid_frames)

lemma paid_dispatch: "paid s \<subseteq> paid (dispatch env now s m b)"
  by (rule dispatch_rule) (simp_all add: paid_frames paid_scripSettle)

lemma paid_Apply: "paid s \<subseteq> paid (Apply env now store s m)"
  using paid_dispatch[of "trackSenderHopDepth s (canonMsg s m)" env now "canonMsg s m" "prefetchPutBlobs store [m]"]
    paid_dispatch[of s env now "canonMsg s m" "prefetchPutBlobs store [m]"]
  by (simp add: Apply_def applyLocked_def Let_def paid_frames)

section \<open>What a handler adds to the log\<close>

text \<open>
  \<open>grows Q e e'\<close>: the log of \<open>e'\<close> is that of \<open>e\<close> with new records, each of them \<open>Q\<close>, the match of no
  and nothing settled becomes unsettled.
\<close>

definition grows :: "(message \<Rightarrow> bool) \<Rightarrow> engine \<Rightarrow> engine \<Rightarrow> bool" where
  "grows Q e e' \<longleftrightarrow> (\<exists>ms. localLog e' = localLog e @ ms \<and> list_all Q ms) \<and> paid (st e) \<subseteq> paid (st e')"

lemma grows_refl [simp]: "grows Q e e"
  by (simp add: grows_def)

lemma grows_trans: "grows Q e e1 \<Longrightarrow> grows Q e1 e2 \<Longrightarrow> grows Q e e2"
  unfolding grows_def by (metis append.assoc list_all_append order_trans)

lemma grows_mono: "grows Q e e' \<Longrightarrow> (\<And>m. Q m \<Longrightarrow> R m) \<Longrightarrow> grows R e e'"
  by (auto simp: grows_def list_all_iff)

lemma grows_idle: "localLog e' = localLog e \<Longrightarrow> paid (st e) \<subseteq> paid (st e') \<Longrightarrow> grows Q e e'"
  by (simp add: grows_def)

lemma grows_after: "grows Q e e1 \<Longrightarrow> localLog e' = localLog e1 \<Longrightarrow> st e' = st e1 \<Longrightarrow> grows Q e e'"
  by (simp add: grows_def)

lemma grows_send: "sendOperatorMessage o1 p tags ants e = (r, e') \<Longrightarrow>
    (\<And>m. Tags m = tags \<Longrightarrow> Payload m = p \<Longrightarrow> Sender m = OperatorPublicKey o1 \<Longrightarrow> Q m) \<Longrightarrow> grows Q e e'"
  using send_Some[of o1 p tags ants e _ e'] send_None[of o1 p tags ants e e'] more_st[of e' e]
  by (cases r) (auto simp: grows_def)

lemma grows_emit: "emit o1 j tags ants e = (r, e') \<Longrightarrow>
    (\<And>m. Tags m = tags \<Longrightarrow> Payload m = Some j \<Longrightarrow> Sender m = OperatorPublicKey o1 \<Longrightarrow> Q m) \<Longrightarrow> grows Q e e'"
  using emit_Inr[of o1 j tags ants e _ e'] emit_Inl[of o1 j tags ants e _ e'] more_st[of e' e]
  by (cases r) (auto simp: grows_def)

lemma grows_applyState: "grows Q e (applyState o1 m e)"
  by (rule grows_idle) (simp_all add: applyState_def paid_Apply)

lemma grows_fold: "grows Q e (foldScrip m e)"
  by (rule grows_idle) (simp_all add: foldScrip_def)

text \<open>An ordinary record is neither a delivery nor a settlement.\<close>

definition ordinary :: "message \<Rightarrow> bool" where
  "ordinary m \<longleftrightarrow> Tags m \<noteq> phaseTags ''deliver'' \<and> Tags m \<noteq> [TagScripSettle]"

lemma ordinary_tags: "Tags m = [TagConsume] \<or> Tags m = [TagAssign] \<or> Tags m = [TagScripBurn] \<or> Tags m = [TagScripLoanMint]
    \<or> Tags m = [TagScripLoanRepay] \<or> Tags m = [TagScripBuyHold] \<or> Tags m = [TagScripDisputeRefund] \<or> Tags m = [TagScripMint]
    \<or> Tags m = phaseTags ''preview'' \<or> Tags m = phaseTags ''buyer-accept-reject'' @ [''exchange:verdict:rejected''] \<Longrightarrow> ordinary m"
  by (auto simp: ordinary_def phaseTags_def)

lemma grows_emitApply: "emitApply o1 j tags ants e = (r, e') \<Longrightarrow>
    (\<And>m. Tags m = tags \<Longrightarrow> Payload m = Some j \<Longrightarrow> Sender m = OperatorPublicKey o1 \<Longrightarrow> Q m) \<Longrightarrow> grows Q e e'"
  by (auto simp: emitApply_def split: prod.splits sum.splits intro: grows_emit grows_trans[OF grows_emit grows_applyState])

lemma grows_consume: "grows ordinary e (snd (emitConsumeSignal o1 msg e))"
  by (auto simp: emitConsumeSignal_def split: list.split option.split
      intro: grows_emitApply[OF surjective_pairing ordinary_tags])

lemma paid_coUpdates: "paid (foldl (\<lambda>s (p, t :: gtime). UpdateCoOccurrence ord p b s) s xs) = paid s"
  by (induction xs arbitrary: s) (simp_all add: UpdateCoOccurrence_def split: prod.split)

lemma grows_recordBuyer: "grows Q e (recordBuyerSettlement o1 b i e)"
  by (rule grows_idle) (simp_all add: recordBuyerSettlement_def timeNow_def Let_def paid_coUpdates)

lemma grows_drawn: "grows Q e (drawn e)"
  by (rule grows_idle) simp_all

lemma grows_stageLoop: "grows ordinary e (stageLoop o1 dl settled ps n e)"
proof (induction ps arbitrary: n e)
  case (Cons p ps)
  let ?r = "emitApply o1 (predictionPayload p (brokeredMatchReward (BrokeredMatchReward o1)) dl settled) [TagAssign] [] (drawn e)"
  have "grows ordinary e (snd ?r)"
    by (rule grows_trans[OF grows_drawn grows_emitApply[OF surjective_pairing ordinary_tags]]) simp
  then show ?case using Cons.IH grows_trans[OF grows_drawn Cons.IH]
    by (cases ?r) (auto split: option.split intro: grows_trans)
qed simp

lemma grows_predictions: "grows ordinary e (stagePredictions o1 i e)"
  by (simp add: stagePredictions_def timeNow_def Let_def grows_trans[OF grows_drawn grows_stageLoop])

lemma grows_credit: "grows Q e (credit k a e)" "grows Q e (restore r e)" "grows Q e (e\<lparr>book := b\<rparr>)"
  "grows Q e (setReservation i j e)" "grows Q e (deleteReservation i e)"
  by (rule grows_idle; simp add: credit_def restore_def setReservation_def deleteReservation_def)+

lemma grows_repayLoop: "grows ordinary e (repayLoop o1 c ls r e)"
proof (induction ls arbitrary: r e)
  case (Cons l ls)
  have 1: "grows ordinary e (repayLoop o1 c ls r' e1)" "grows ordinary e (repayLoop o1 c ls r' (foldScrip m e1))"
    if "emit o1 j [TagScripLoanRepay] ants e = (x, e1)" for j ants x e1 r' m
  proof -
    have "grows ordinary e e1" by (rule grows_emit[OF that ordinary_tags]) simp
    then show "grows ordinary e (repayLoop o1 c ls r' e1)" "grows ordinary e (repayLoop o1 c ls r' (foldScrip m e1))"
      using Cons.IH grows_fold by (blast intro: grows_trans)+
  qed
  show ?case using Cons.IH 1 by (simp add: Let_def split: option.split prod.split sum.split)
qed simp

lemma grows_repay: "grows ordinary e (applyRepayment o1 b a c e)"
  by (simp add: applyRepayment_def grows_repayLoop)

lemma grows_sendBurn: "grows ordinary e (sendBurn o1 msg bp e)"
  by (auto simp: sendBurn_def split: option.split intro: grows_send[OF surjective_pairing ordinary_tags])

lemma grows_clear: "grows Q e (e\<lparr>book := b, st := ClearMatchGuarantee mi (st e)\<rparr>)"
  by (rule grows_idle) (simp_all add: ClearMatchGuarantee_def)

lemma grows_deadline: "grows ordinary e (snd (handleDeadlineMissRefund o1 msg mi rid ins e))"
proof -
  have "grows ordinary e e1" if "emit o1 j [TagScripDisputeRefund] ants (e\<lparr>book := b\<rparr>) = (x, e1)" for j ants b x e1
    by (rule grows_trans[OF grows_credit(3) grows_emit[OF that ordinary_tags]]) simp
  moreover from this have "grows ordinary e (e1\<lparr>book := c, st := ClearMatchGuarantee mi (st e1)\<rparr>)"
    if "emit o1 j [TagScripDisputeRefund] ants (e\<lparr>book := b\<rparr>) = (x, e1)" for j ants b c x e1
    using that by (blast intro: grows_trans[OF _ grows_clear])
  moreover from calculation(1) have "grows ordinary e (restore r e1)"
    if "emit o1 j [TagScripDisputeRefund] ants (e\<lparr>book := b\<rparr>) = (x, e1)" for j ants b r x e1
    using that by (blast intro: grows_trans[OF _ grows_credit(2)])
  ultimately show ?thesis
    by (simp add: handleDeadlineMissRefund_def Let_def split: prod.split sum.split)
qed

lemma grows_checkDeadline: "checkDeadlineMiss o1 msg mi rid e = (r, e') \<Longrightarrow> grows ordinary e e'"
  using grows_deadline[of e o1 msg mi rid]
  by (auto simp: checkDeadlineMiss_def split: option.splits prod.splits if_splits) (metis snd_conv)+

lemma grows_preview: "grows ordinary e (snd (handleSettlePreviewRequest o1 msg e))"
  by (auto simp: handleSettlePreviewRequest_def sendPreviewResponse_def split: list.split prod.split option.split
      intro: grows_emitApply[OF surjective_pairing ordinary_tags])

lemma grows_refund: "grows ordinary e (snd (refundDispute o1 msg rid e))"
proof -
  have m: "grows ordinary e e1" if "marshal o1 j (e\<lparr>book := b\<rparr>) = (x, e1)" for j b x e1
    by (rule grows_idle) (use that in \<open>auto simp: marshal_def\<close>)
  have s: "grows ordinary e (snd (sendOperatorMessage o1 p [TagScripDisputeRefund] ants (e1\<lparr>book := c\<rparr>)))"
    if "marshal o1 j (e\<lparr>book := b\<rparr>) = (x, e1)" for j b x e1 p ants c
    by (rule grows_trans[OF grows_trans[OF m[OF that] grows_credit(3)] grows_send[OF surjective_pairing ordinary_tags]]) simp
  show ?thesis using s grows_trans[OF m grows_credit(2)]
    by (simp add: refundDispute_def Let_def split: prod.split sum.split option.split)
qed

lemma grows_dispute: "grows ordinary e (snd (handleSettleSmallContentDispute o1 msg e))"
  by (simp add: handleSettleSmallContentDispute_def grows_refund split: prod.split list.split option.split)

lemma grows_reject: "grows ordinary e (snd (emitBuyerAcceptReject o1 i r e))"
  unfolding reject_snd by (rule grows_emit[OF surjective_pairing ordinary_tags]) simp

lemma grows_ensureCredit: "grows ordinary e (snd (ensureCreditForShortfall o1 b h i j e))"
proof -
  have m: "grows ordinary e e1" if "emit o1 p [TagScripLoanMint] ants (drawn e) = (x, e1)" for p ants x e1
    by (rule grows_trans[OF grows_drawn grows_emit[OF that ordinary_tags]]) simp
  have "grows ordinary e (e\<lparr>creditCapRefused := n\<rparr>)" for n by (rule grows_idle) simp_all
  then show ?thesis using m grows_trans[OF m grows_fold]
    by (simp add: ensureCreditForShortfall_def draw_frame newReservationID_def Let_def split: prod.split sum.split)
qed

lemma grows_decAndSave:
  assumes "decAndSaveHold o1 b i mi h p f e = (r, e')"
  shows "grows ordinary e e' \<and> st e' = st e"
proof -
  have m: "grows ordinary e e1 \<and> st e1 = st e" if "emit o1 j [TagScripBuyHold] ants (drawn (drawn e)) = (x, e1)" for j ants x e1
    using grows_trans[OF grows_trans[OF grows_drawn grows_drawn] grows_emit[OF that ordinary_tags]]
      more_st[of e1 "drawn (drawn e)"] emit_Inr(12)[of o1 j "[TagScripBuyHold]" ants "drawn (drawn e)" _ e1]
      emit_Inl(6)[of o1 j "[TagScripBuyHold]" ants "drawn (drawn e)" _ e1] that
    by (cases x) auto
  show ?thesis
  proof (cases "GetBudget (book e) b")
    case (Pair bal tag)
    show ?thesis using assms Pair
      by (auto simp: decAndSaveHold_def newReservationID_def timeNow_def setReservation_def
          split: if_splits prod.splits sum.splits dest!: m[simplified] elim!: grows_after)
  qed
qed


section \<open>Delivery\<close>

text \<open>Whom a deliver record is for: the buyer field of the plain forms, the recipient of the wrapped key.\<close>

definition deliveredTo :: "message \<Rightarrow> string option" where
  "deliveredTo m = (case Payload m of Some (JObj fs) \<Rightarrow>
       (case map_of fs ''buyer'' of Some (JStr b) \<Rightarrow> Some b
        | None \<Rightarrow> (case map_of fs ''key_wrap'' of Some (JObj kw) \<Rightarrow>
            (case map_of kw ''recipient'' of Some (JStr b) \<Rightarrow> Some b | _ \<Rightarrow> None) | _ \<Rightarrow> None)
        | _ \<Rightarrow> None)
     | _ \<Rightarrow> None)"

text \<open>And which entry it delivers.\<close>

definition deliveredEntry :: "message \<Rightarrow> string option" where
  "deliveredEntry m = (case Payload m of Some (JObj fs) \<Rightarrow> (case map_of fs ''entry_id'' of Some (JStr i) \<Rightarrow> Some i | _ \<Rightarrow> None)
     | _ \<Rightarrow> None)"

definition delivers :: "string \<Rightarrow> InventoryEntry \<Rightarrow> message \<Rightarrow> bool" where
  "delivers b en m \<longleftrightarrow> Tags m = phaseTags ''deliver'' \<and> deliveredTo m = Some b \<and> deliveredEntry m = Some (EntryID en)"

lemma grows_deliverTo:
  assumes "emitDeliverContent o1 msg en b e = (r, e')"
  shows "grows (delivers b en) e e' \<and> matchToReservation e' = matchToReservation e \<and> book e' = book e \<and> st e' = st e"
proof -
  let ?Q = "delivers b en"
  have s: "grows ?Q e e1 \<and> matchToReservation e1 = matchToReservation e \<and> book e1 = book e \<and> st e1 = st e"
    if x: "sendDeliverMessage o1 msg j d = (y, e1)" and d: "d = e \<or> d = drawn e"
      and q: "\<And>m. Payload m = Some j \<Longrightarrow> deliveredTo m = Some b \<and> deliveredEntry m = Some (EntryID en)"
    for j d y e1
  proof -
    obtain z where z: "emit o1 j (phaseTags ''deliver'') [ID msg] d = (z, e1)"
      using x by (auto simp: sendDeliverMessage_def split: prod.splits sum.splits)
    have "grows ?Q d e1" by (rule grows_emit[OF z]) (simp_all add: q delivers_def)
    moreover have "matchToReservation e1 = matchToReservation d \<and> book e1 = book d \<and> st e1 = st d"
      using emit_Inl(2,3,6)[of o1 j _ _ d _ e1] emit_Inr(8,9,12)[of o1 j _ _ d _ e1] z more_st[of e1 d] by (cases z) auto
    ultimately show ?thesis using d grows_trans[OF grows_drawn] by auto
  qed
  have i: "grows ?Q e (drawn e)" by (rule grows_drawn)
  show ?thesis
    using assms i
    by (auto simp: emitDeliverContent_def emitDeliverPointer_def emitDeliverEnvelope_def
        split: if_splits option.splits dest!: s simp: deliveredTo_def deliveredEntry_def)
qed

lemma live_frame: "matchToReservation e' = matchToReservation e \<Longrightarrow> liveReservation e' = liveReservation e"
  by (simp add: liveReservation_def reservationFor_def fun_eq_iff)

lemma buyer_frame: "st e' = st e \<Longrightarrow> st (applyState o1 m e') = Apply (penv o1) (env_now o1 (draws e')) (blobFetch o1) (st e) m"
  by (simp add: applyState_def)

text \<open>
  Deliveries of the entry of a match to its buyer while the match is held, and ordinary records. \<open>req\<close> is the
  match the handled message asks for.
\<close>

definition dueDelivery :: "(string \<Rightarrow> bool) \<Rightarrow> exchange_state \<Rightarrow> string option \<Rightarrow> message \<Rightarrow> bool" where
  "dueDelivery isHeld s req m \<longleftrightarrow> ordinary m \<or>
     (\<exists>mi en. req = Some mi \<and> isHeld mi \<and> GetInventoryEntry s (MatchEntryID s mi) = Some en
        \<and> MatchBuyerKey s mi \<noteq> '''' \<and> delivers (MatchBuyerKey s mi) en m)"

definition mapped :: "engine \<Rightarrow> string \<Rightarrow> bool" where
  "mapped e mi \<longleftrightarrow> (\<exists>rid. matchToReservation e mi = Some rid \<and> rid \<noteq> '''')"

definition heldBy :: "string \<Rightarrow> engine \<Rightarrow> string \<Rightarrow> bool" where
  "heldBy k e mi \<longleftrightarrow> (\<exists>rid r. matchToReservation e mi = Some rid \<and> rid \<noteq> '''' \<and> reservations (book e) rid = Some r
     \<and> r_AgentKey r = k)"

definition requestedMatch :: "exchange_state \<Rightarrow> message \<Rightarrow> string option" where
  "requestedMatch s msg = (if settlePhaseFromTags (Tags msg) = ''deliver'' then MatchForDeliver s (ID msg)
     else case Antecedents msg of [] \<Rightarrow> None
       | a # _ \<Rightarrow> (case ResolveMatchFromAntecedent s a of (mi, b, found) \<Rightarrow> if found \<and> Sender msg = b then Some mi else None))"

lemma dueI: "delivers (MatchBuyerKey s mi) en m \<Longrightarrow> isHeld mi \<Longrightarrow> GetInventoryEntry s (MatchEntryID s mi) = Some en \<Longrightarrow>
    MatchBuyerKey s mi \<noteq> '''' \<Longrightarrow> dueDelivery isHeld s (Some mi) m"
  by (auto simp: dueDelivery_def)

lemma live_mapped: "liveReservation e mi \<noteq> None \<longleftrightarrow> mapped e mi"
  by (auto simp: liveReservation_def reservationFor_def mapped_def split: option.splits if_splits)

lemma entryFor_match: "EntryForDeliver s d = Some en \<Longrightarrow> MatchForDeliver s d = Some mi \<Longrightarrow>
    GetInventoryEntry s (MatchEntryID s mi) = Some en"
  by (auto simp: EntryForDeliver_def GetInventoryEntry_def MatchEntryID_def Let_def split: if_splits)

lemma due_deliver:
  assumes "ScripStoreSet o1"
  shows "grows (dueDelivery (mapped e) (st e) (MatchForDeliver (st e) (ID msg))) e (snd (handleSettleDeliverContent o1 msg e))
    \<and> matchToReservation (snd (handleSettleDeliverContent o1 msg e)) = matchToReservation e"
proof -
  have "grows (dueDelivery (mapped e) (st e) (Some mi)) e e1 \<and> matchToReservation e1 = matchToReservation e"
    if "emitDeliverContent o1 msg en (MatchBuyerKey (st e) mi) e = (r, e1)" "liveReservation e mi \<noteq> None"
      "MatchBuyerKey (st e) mi \<noteq> ''''" "GetInventoryEntry (st e) (MatchEntryID (st e) mi) = Some en" for en mi r e1
    using grows_deliverTo[OF that(1)] that(2,3,4) live_mapped[of e mi]
    by (auto intro: dueI elim!: grows_mono)
  then show ?thesis using assms entryFor_match[of "st e" "ID msg"]
    by (auto simp: handleSettleDeliverContent_def split: option.split sum.split prod.split)
qed

lemma due_auto:
  assumes "isHeld mi"
  shows "grows (dueDelivery isHeld (st e) (Some mi)) e (autoDeliverOnBuyerAccept o1 msg mi e)
    \<and> matchToReservation (autoDeliverOnBuyerAccept o1 msg mi e) = matchToReservation e
    \<and> book (autoDeliverOnBuyerAccept o1 msg mi e) = book e"
proof -
  have "grows (dueDelivery isHeld (st e) (Some mi)) e e1 \<and> matchToReservation e1 = matchToReservation e \<and> book e1 = book e"
    if "emitDeliverContent o1 msg en (MatchBuyerKey (st e) mi) e = (r, e1)" "MatchBuyerKey (st e) mi \<noteq> ''''"
      "GetInventoryEntry (st e) (MatchEntryID (st e) mi) = Some en" for en r e1
    using grows_deliverTo[OF that(1)] that(2,3) assms by (auto intro: dueI elim!: grows_mono)
  moreover have "matchToReservation (applyState o1 m e1) = matchToReservation e1" "book (applyState o1 m e1) = book e1" for m e1
    by (simp_all add: applyState_def)
  ultimately show ?thesis
    by (auto simp: autoDeliverOnBuyerAccept_def split: option.split sum.split prod.split intro: grows_trans[OF _ grows_applyState])
qed

lemma grows_due: "grows ordinary e e' \<Longrightarrow> grows (dueDelivery isHeld s req) e e'"
  by (erule grows_mono) (simp add: dueDelivery_def)

lemma ensureCredit_frame: "st (snd (ensureCreditForShortfall o1 b h i j (e :: engine))) = st e"
proof -
  have "st e1 = st e" if "emit o1 p tags ants (drawn e) = (x, e1)" for p tags ants x e1
    using emit_Inl(6)[of o1 p tags ants "drawn e" _ e1] emit_Inr(12)[of o1 p tags ants "drawn e" _ e1] more_st[of e1 "drawn e"] that
    by (cases x) auto
  then show ?thesis
    by (simp add: ensureCreditForShortfall_def newReservationID_def foldScrip_def Let_def split: prod.split sum.split)
qed

text \<open>A hold that was taken is in the ledger, in the buyer's name.\<close>

lemma hold_taken:
  assumes "decAndSaveHold o1 b i mi h p f e = (None, e')"
  shows "\<exists>rid r. matchToReservation e' mi = Some rid \<and> reservations (book e') rid = Some r \<and> r_AgentKey r = b"
  using assms
  by (auto simp: decAndSaveHold_def newReservationID_def timeNow_def setReservation_def SaveReservation_def
      split: if_splits prod.splits sum.splits)

text \<open>After a dispatch: what was delivered on the way has its reservation now.\<close>

lemma due_freshHold:
  shows "grows (dueDelivery (heldBy (Sender msg) (snd (freshHold o1 msg mi en e))) (st e) (Some mi)) e (snd (freshHold o1 msg mi en e))"
proof -
  define price where "price = computePrice (penv o1) (DensityMarkupFactor o1) (env_now o1 (draws e)) (st e) en"
  define hold where "hold = wrap64 (price + goquot price MatchingFeeRate)"
  define e2 where "e2 = snd (ensureCreditForShortfall o1 (Sender msg) hold (ID msg) mi (drawn e))"
  have e2: "grows ordinary e e2" "st e2 = st e"
    using grows_trans[OF grows_drawn grows_ensureCredit] ensureCredit_frame[of o1 _ _ _ _ "drawn e"] by (simp_all add: e2_def)
  obtain r e3 where r: "decAndSaveHold o1 (Sender msg) (ID msg) mi hold price (goquot price MatchingFeeRate) e2 = (r, e3)" by fastforce
  have e3: "grows ordinary e e3" "st e3 = st e"
    using grows_decAndSave[OF r] e2 grows_trans by auto
  have a: "grows (dueDelivery (heldBy (Sender msg) (autoDeliverOnBuyerAccept o1 msg mi e3)) (st e) (Some mi)) e (autoDeliverOnBuyerAccept o1 msg mi e3)"
    if "r = None"
  proof (cases "liveReservation e3 mi")
    case None
    then show ?thesis using grows_due[OF e3(1)] by (simp add: autoDeliverOnBuyerAccept_def)
  next
    case (Some rid)
    then have h: "heldBy (Sender msg) e3 mi"
      using hold_taken[OF r[unfolded that]] by (auto simp: heldBy_def liveReservation_def reservationFor_def split: option.splits if_splits)
    have "heldBy (Sender msg) (autoDeliverOnBuyerAccept o1 msg mi e3) = heldBy (Sender msg) e3"
      using due_auto[of "heldBy (Sender msg) e3" mi e3 o1 msg, OF h] by (simp add: heldBy_def fun_eq_iff)
    then show ?thesis
      using due_auto[of "heldBy (Sender msg) e3" mi e3 o1 msg, OF h] grows_trans[OF grows_due[OF e3(1)]] e3(2) by simp
  qed
  have "snd (freshHold o1 msg mi en e) \<in> {e3, snd (emitBuyerAcceptReject o1 (ID msg) ''insufficient_scrip'' e3)}
      \<or> (r = None \<and> snd (freshHold o1 msg mi en e) = autoDeliverOnBuyerAccept o1 msg mi e3)"
    using r by (simp add: freshHold_def entryPrice_def timeNow_def Let_def price_def[symmetric] hold_def[symmetric]
        e2_def[symmetric] split: option.split)
  then show ?thesis using a grows_due[OF e3(1)] grows_due[OF grows_trans[OF e3(1) grows_reject]] by auto
qed

lemma grows_accept:
  assumes "settlePhaseFromTags (Tags msg) \<noteq> ''deliver''"
  shows "grows (dueDelivery (heldBy (Sender msg) (snd (handleSettleBuyerAcceptScrip o1 msg e))) (st e) (requestedMatch (st e) msg)) e
     (snd (handleSettleBuyerAcceptScrip o1 msg e))"
proof -
  have "grows Q e (snd (restoreExistingHold o1 msg mi rid e))" for Q mi rid
    using restoreHold_shape[of o1 msg mi rid e]
    by (auto simp: setReservation_def restore_def intro: grows_after[OF grows_refl])
  then show ?thesis using due_freshHold assms
    by (simp add: handleSettleBuyerAcceptScrip_def requestedMatch_def split: list.split prod.split option.split)
qed


section \<open>Settlement records\<close>

text \<open>The match an operator's settlement record pays, read as the fold reads it.\<close>

definition settles :: "engine_opts \<Rightarrow> message \<Rightarrow> string option" where
  "settles o1 m = (if Tags m = [TagScripSettle] \<and> Sender m = OperatorPublicKey o1
     then case unmarshal scripSettleFields (Payload m) scripSettleZero of (p, ok) \<Rightarrow>
       if \<not> ok \<or> ss_MatchMsg p = '''' then None else Some (ss_MatchMsg p)
     else None)"

definition paidOut :: "engine_opts \<Rightarrow> engine \<Rightarrow> string list" where
  "paidOut o1 e = List.map_filter (settles o1) (localLog e)"

definition once :: "engine_opts \<Rightarrow> engine \<Rightarrow> bool" where
  "once o1 e \<longleftrightarrow> distinct (paidOut o1 e) \<and> set (paidOut o1 e) \<subseteq> paid (st e)"

lemma settles_other: "Tags m \<noteq> [TagScripSettle] \<Longrightarrow> settles o1 m = None"
  by (simp add: settles_def)

lemma filter_none: "list_all (\<lambda>m. f m = None) ms \<Longrightarrow> List.map_filter f ms = []"
  by (induction ms) (simp_all add: map_filter_simps)

lemma filter_append: "List.map_filter f (xs @ ys) = List.map_filter f xs @ List.map_filter f ys"
  by (induction xs) (simp_all add: map_filter_simps split: option.split)

lemma once_grows: "once o1 e \<Longrightarrow> grows (\<lambda>m. settles o1 m = None) e e' \<Longrightarrow> once o1 e'"
  by (auto simp: once_def grows_def paidOut_def filter_append filter_none)

lemma once_ordinary: "once o1 e \<Longrightarrow> grows ordinary e e' \<Longrightarrow> once o1 e'"
  by (erule once_grows, erule grows_mono) (simp add: ordinary_def settles_other)

lemma once_due: "once o1 e \<Longrightarrow> grows (dueDelivery isHeld s req) e e' \<Longrightarrow> once o1 e'"
  by (erule once_grows, erule grows_mono) (auto simp: dueDelivery_def delivers_def ordinary_def settles_other phaseTags_def)

lemma settles_sent: "Payload m = Some (settlePayload rid k a f v mi) \<Longrightarrow> settles o1 m = None \<or> settles o1 m = Some mi"
  by (auto simp: settles_def settlePayload_def scripSettleFields_def scripSettleZero_def lower_char_def unmarshal_def
      find_field_def on_field_def Let_def split: prod.splits if_splits)

lemma grows_marshalSettle: "marshalSettlePayloads o1 msg mi k rid a f v e = (p, e') \<Longrightarrow> grows Q e e'
    \<and> (\<forall>sp bp. p = Some (sp, bp) \<longrightarrow> sp = settlePayload rid k a f v mi)"
  by (auto simp: marshalSettlePayloads_def marshal_def split: prod.splits option.splits if_splits intro: grows_idle)

text \<open>Settling a match either adds ordinary records, or exactly one settlement of a match that had none.\<close>

lemma perform_shape:
  "grows ordinary e (snd (performScripSettlement o1 msg seller mi rid en e)) \<or>
   (\<exists>e4 y a f v. mi \<notin> paid (st e) \<and> localLog e4 = localLog e @ [y] \<and> Tags y = [TagScripSettle]
      \<and> Payload y = Some (settlePayload rid seller a f v mi) \<and> paid (st e4) = paid (markMatchSettled mi (st e))
      \<and> grows ordinary e4 (snd (performScripSettlement o1 msg seller mi rid en e)))"
proof (cases "IsMatchSettled (st e) mi")
  case True
  then show ?thesis by (simp add: performScripSettlement_def)
next
  case False
  obtain b cr where c: "ConsumeReservation (book e) rid = (b, cr)" by fastforce
  show ?thesis
  proof (cases cr)
    case (Inl er)
    then show ?thesis using c False by (simp add: performScripSettlement_def)
  next
    case (Inr r)
    obtain price fee residual revenue where sp:
      "settleSplit (r_Amount r) (residualDenominatorFor (penv o1) en) = (price, fee, residual, revenue)"
      by (metis prod_cases4)
    obtain p e2 where m: "marshalSettlePayloads o1 msg mi seller rid residual fee revenue (e\<lparr>book := b\<rparr>) = (p, e2)" by fastforce
    have g2: "grows Q e e2" for Q using grows_trans[OF grows_credit(3)] grows_marshalSettle[OF m] by blast
    have l2: "localLog e2 = localLog e" "st e2 = st e"
      using m by (auto simp: marshalSettlePayloads_def marshal_def split: prod.splits option.splits if_splits)
    show ?thesis
    proof (cases p)
      case None
      then show ?thesis using False c Inr sp m grows_trans[OF g2 grows_credit(2)]
        by (simp add: performScripSettlement_def Let_def)
    next
      case (Some q)
      obtain bp where q: "p = Some (settlePayload rid seller residual fee revenue mi, bp)"
        using Some grows_marshalSettle[OF m] by (cases q) auto
      obtain x e3 where s: "sendOperatorMessage o1 (Some (settlePayload rid seller residual fee revenue mi)) [TagScripSettle] [ID msg] e2 = (x, e3)"
        by fastforce
      show ?thesis
      proof (cases x)
        case None
        have "grows ordinary e2 e3" using send_None(1,6)[OF s[unfolded None]] more_st[of e3 e2] by (simp add: grows_def)
        then show ?thesis using False c Inr sp m q s None grows_trans[OF grows_trans[OF g2] grows_credit(2)]
          by (simp add: performScripSettlement_def Let_def)
      next
        case (Some y)
        note sh = send_Some[OF s[unfolded Some]]
        define e4 where "e4 = (deleteReservation mi e3)\<lparr>st := markMatchSettled mi (st (deleteReservation mi e3))\<rparr>"
        define w where "w = repaymentAmount b seller residual"
        define e6 where "e6 = credit seller residual (sendBurn o1 msg bp e4)"
        define e7 where "e7 = (if w > 0 then applyRepayment o1 seller w (ID msg) e6 else e6)"
        have "localLog e4 = localLog e @ [y]" "paid (st e4) = paid (markMatchSettled mi (st e))"
          using sh(7) l2 more_st[OF sh(13)] by (simp_all add: e4_def deleteReservation_def)
        moreover have "grows ordinary e4 e6" unfolding e6_def by (rule grows_trans[OF grows_sendBurn grows_credit(1)])
        moreover have "grows ordinary e6 e7" by (simp add: e7_def grows_repay)
        moreover have "snd (performScripSettlement o1 msg seller mi rid en e) = credit (OperatorKey (st e7)) revenue e7"
          using False c Inr sp m q s Some
          by (simp add: performScripSettlement_def Let_def e4_def[symmetric] e6_def e7_def w_def)
        moreover have "mi \<notin> paid (st e)" using False by (simp add: IsMatchSettled_def)
        ultimately show ?thesis using sh(1,2) grows_trans grows_credit(1) by metis
      qed
    qed
  qed
qed

lemma once_perform:
  assumes o: "once o1 e" and mi: "mi \<noteq> ''''"
  shows "once o1 (snd (performScripSettlement o1 msg seller mi rid en e))"
  using perform_shape[of e o1 msg seller mi rid en]
proof (elim disjE exE conjE)
  assume "grows ordinary e (snd (performScripSettlement o1 msg seller mi rid en e))"
  with o show ?thesis by (rule once_ordinary)
next
  fix e4 y a f v
  assume n: "mi \<notin> paid (st e)" and l: "localLog e4 = localLog e @ [y]" and p: "Payload y = Some (settlePayload rid seller a f v mi)"
    and s: "paid (st e4) = paid (markMatchSettled mi (st e))"
    and g: "grows ordinary e4 (snd (performScripSettlement o1 msg seller mi rid en e))"
  have "once o1 e4"
    using o n l s mi settles_sent[OF p, of o1]
    by (auto simp: once_def paidOut_def filter_append map_filter_simps markMatchSettled_def)
  then show ?thesis using g by (rule once_ordinary)
qed

definition undelivered :: "message \<Rightarrow> bool" where
  "undelivered m \<longleftrightarrow> Tags m \<noteq> phaseTags ''deliver''"

lemma grows_undelivered: "grows ordinary e e' \<Longrightarrow> grows undelivered e e'"
  by (erule grows_mono) (simp add: ordinary_def undelivered_def)

lemma undelivered_perform: "grows undelivered e (snd (performScripSettlement o1 msg seller mi rid en e))"
  using perform_shape[of e o1 msg seller mi rid en]
proof (elim disjE exE conjE)
  fix e4 y
  assume l: "localLog e4 = localLog e @ [y]" and t: "Tags y = [TagScripSettle]" and s: "paid (st e4) = paid (markMatchSettled mi (st e))"
    and g: "grows ordinary e4 (snd (performScripSettlement o1 msg seller mi rid en e))"
  have "grows undelivered e e4" using l t s by (auto simp: grows_def undelivered_def phaseTags_def markMatchSettled_def)
  then show ?thesis using grows_undelivered[OF g] by (rule grows_trans)
qed (rule grows_undelivered)

text \<open>The handler of a completion, by what it goes through.\<close>

lemma complete_rule:
  assumes "P e" "\<And>e1. grows ordinary e e1 \<Longrightarrow> P e1"
    and "\<And>e1 seller m rid en. grows ordinary e e1 \<Longrightarrow> m \<noteq> '''' \<Longrightarrow> P (snd (performScripSettlement o1 msg seller m rid en e1))"
  shows "P (snd (handleSettleComplete o1 msg e))"
proof (cases "resolveSellerFromComplete msg e")
  case (Some kd)
  obtain seller del where kd: "kd = (seller, del)" by fastforce
  define settled where "settled = EntryForDeliver (st e) del"
  define e1 where "e1 = (case settled of None \<Rightarrow> e
     | Some en \<Rightarrow> stagePredictions o1 (EntryID en) (recordBuyerSettlement o1 (Sender msg) (EntryID en) e))"
  have e1: "grows ordinary e e1"
    by (auto simp: e1_def split: option.split intro: grows_trans[OF grows_recordBuyer grows_predictions])
  have m: "MatchForDeliver (st e) del = Some m \<Longrightarrow> m \<noteq> ''''" for m
    by (auto simp: MatchForDeliver_def Let_def split: if_splits)
  have c: "grows ordinary e e2" if "checkDeadlineMiss o1 msg m rid e1 = (r, e2)" for m rid r e2
    using grows_trans[OF e1 grows_checkDeadline[OF that]] .
  have "snd (handleSettleComplete o1 msg e) = (case MatchForDeliver (st e) del of None \<Rightarrow> e
     | Some m \<Rightarrow> (case liveReservation e1 m of None \<Rightarrow> e1
        | Some rid \<Rightarrow> (case checkDeadlineMiss o1 msg m rid e1 of (True, e2) \<Rightarrow> e2
           | (False, e2) \<Rightarrow> snd (performScripSettlement o1 msg seller m rid settled e2))))"
    using Some kd by (simp add: handleSettleComplete_def Let_def settled_def[symmetric] e1_def[symmetric] split: option.split prod.split bool.split)
  then show ?thesis using assms e1 c m by (auto split: option.split prod.split bool.split)
qed (simp add: handleSettleComplete_def assms(1))

lemma once_complete: "once o1 e \<Longrightarrow> once o1 (snd (handleSettleComplete o1 msg e))"
  by (rule complete_rule) (auto intro: once_ordinary once_perform)

lemma undelivered_complete: "grows undelivered e (snd (handleSettleComplete o1 msg e))"
  by (rule complete_rule) (auto intro: grows_undelivered grows_trans[OF grows_undelivered undelivered_perform])

lemma once_delivered: "emitDeliverContent o1 msg en b e = (r, e') \<Longrightarrow> once o1 e \<Longrightarrow> once o1 e'"
  by (drule grows_deliverTo, erule once_grows, erule conjunct1[THEN grows_mono]) (auto simp: delivers_def settles_other phaseTags_def)

lemma once_handle: "once o1 e \<Longrightarrow> once o1 (snd (handleSettle o1 msg e))"
proof -
  assume o: "once o1 e"
  have d: "once o1 (snd (handleSettleDeliverContent o1 msg e))"
    using o by (auto simp: handleSettleDeliverContent_def split: option.split sum.split prod.split dest!: once_delivered)
  have a: "once o1 (snd (handleSettleBuyerAcceptScrip o1 msg e))" if "settlePhaseFromTags (Tags msg) = ''buyer-accept''"
    by (rule once_due[OF o grows_accept]) (simp add: that)
  show ?thesis
    using once_ordinary[OF o grows_preview] once_ordinary[OF o grows_dispute] d a
      once_complete[OF once_ordinary[OF o grows_consume]] once_complete[OF o] once_ordinary[OF o grows_consume] o
    by (simp add: handleSettle_def Let_def)
qed


section \<open>A restart finds every settlement again\<close>

lemma op_settle: "exchangeOp [TagScripSettle] = TagScripSettle"
  by code_simp

lemma paid_marks:
  assumes "settles o1 m = Some mi" "OperatorKey s = OperatorPublicKey o1" "wireToStore s = Map.empty"
  shows "mi \<in> paid (applyLocked env now s m b)"
proof -
  have t: "Tags m = [TagScripSettle]" "Sender m = OperatorPublicKey o1"
    using assms(1) by (auto simp: settles_def split: if_splits)
  have c: "canonMsg s m = m" using assms(3) by (simp add: canonMsg_def resolveAlias_def)
  let ?s = "if Sender m \<noteq> '''' then trackSenderHopDepth s m else s"
  have "OperatorKey ?s = OperatorPublicKey o1" using assms(2) hop_frame(1)[of s m] by (simp add: cfg_def)
  then have "mi \<in> paid (applyScripSettle ?s m)"
    using assms(1) t by (auto simp: settles_def applyScripSettle_def notOperator_def markMatchSettled_def split: prod.splits if_splits)
  moreover have "applyLocked env now s m b = applyScripSettle ?s m"
    using t(1) op_settle by (simp add: applyLocked_def c Let_def dispatch_def)
  ultimately show ?thesis by simp
qed

lemma paid_applyLocked: "paid s \<subseteq> paid (applyLocked env now s m b)"
  using paid_dispatch[of "trackSenderHopDepth s (canonMsg s m)" env now "canonMsg s m" b] paid_dispatch[of s env now "canonMsg s m" b]
  by (simp add: applyLocked_def Let_def paid_frames)

lemma paid_fold:
  assumes "OperatorKey s = OperatorPublicKey o1" "wireToStore s = Map.empty"
  shows "paid s \<union> set (List.map_filter (settles o1) ms) \<subseteq> paid (foldl (\<lambda>st m. applyLocked env now st m b) s ms)"
  using assms
proof (induction ms arbitrary: s)
  case (Cons m ms)
  have c: "OperatorKey (applyLocked env now s m b) = OperatorPublicKey o1" "wireToStore (applyLocked env now s m b) = Map.empty"
    using applyLocked_cfg[of env now s m b] Cons.prems by (simp_all add: cfg_def)
  show ?case using Cons.IH[OF c] paid_applyLocked[of s env now m b] paid_marks[of o1 m _ s env now b, OF _ Cons.prems]
    by (cases "settles o1 m") (auto simp: map_filter_simps)
qed (simp add: map_filter_simps)

lemma paid_restart: "set (paidOut o1 e) \<subseteq> paid (st (restartEngine o1 now e))"
proof -
  let ?s = "beginReplay (localLog e) (NewState\<lparr>OperatorKey := OperatorPublicKey o1,
      encryptedRequired := operatorSigner (penv o1) \<noteq> None, onFoldDenialWired := True\<rparr>)"
  have "OperatorKey ?s = OperatorPublicKey o1" "wireToStore ?s = Map.empty" by (simp_all add: beginReplay_def NewState_def)
  from paid_fold[OF this, of "localLog e" "penv o1" now "storeMap (blobFetch o1)"] show ?thesis
    by (simp add: restartEngine_def replay_fold endReplay_def paidOut_def)
qed

definition strangers :: "engine_opts \<Rightarrow> desk_event list \<Rightarrow> bool" where
  "strangers o1 evs \<longleftrightarrow> list_all (\<lambda>v. case v of Intake m \<Rightarrow> Sender m \<noteq> OperatorPublicKey o1 | _ \<Rightarrow> True) evs"

lemma grows_mint: "grows ordinary e (snd (MintScrip o1 k a e))"
proof -
  have m: "grows ordinary e e1" if "emit o1 p [TagScripMint] ants (drawn e) = (x, e1)" for p ants x e1
    by (rule grows_trans[OF grows_drawn grows_emit[OF that ordinary_tags]]) simp
  then show ?thesis using grows_trans[OF m grows_fold]
    by (simp add: MintScrip_def timeNow_def split: prod.split sum.split)
qed

lemma once_step: "once o1 e \<Longrightarrow> strangers o1 [v] \<Longrightarrow> once o1 (deskStep o1 e v)"
proof (cases v)
  case (Intake m)
  assume "once o1 e" "strangers o1 [v]"
  then show ?thesis using Intake by (auto simp: strangers_def settles_def grows_def intro: once_grows)
next
  case (Restarted now)
  assume "once o1 e"
  then show ?thesis using Restarted paid_restart[of o1 e now] by (simp add: once_def paidOut_def restart_frame)
qed (auto intro: once_handle once_ordinary[OF _ grows_mint] once_grows[OF _ grows_applyState])

lemma once_run: "once o1 e \<Longrightarrow> strangers o1 evs \<Longrightarrow> once o1 (deskRun o1 e evs)"
  unfolding deskRun_def by (induction evs arbitrary: e) (simp_all add: strangers_def once_step)

section \<open>Properties\<close>

text \<open>
  C36: with a scrip ledger configured, content leaves only against a held payment. Every deliver record that handling a
  settle message appends delivers the entry of the very match the message is about (the match of the delivery for
  a deliver, the match a buyer's own acceptance resolves to otherwise), to the buyer of that match, who is known, and
  the match has a reservation ID in the session's map when the handler is done. A delivery sent on the buyer's
  acceptance moreover has that reservation in the ledger, in the buyer's name. Without a scrip ledger (the individual
  tier) delivery is unconditional. The map is what the code tests: an entry whose reservation a dispute has refunded
  stays in it, so a later deliver of such a match still goes out (\<open>refunded_still_delivers\<close>).
\<close>

theorem delivery_held:
  assumes "ScripStoreSet o1" "m \<in> set (drop (length (localLog e)) (localLog (snd (handleSettle o1 msg e))))"
    and "Tags m = phaseTags ''deliver''"
  shows "\<exists>mi en rid. requestedMatch (st e) msg = Some mi \<and> GetInventoryEntry (st e) (MatchEntryID (st e) mi) = Some en
    \<and> deliveredEntry m = Some (EntryID en)
    \<and> MatchBuyerKey (st e) mi \<noteq> '''' \<and> deliveredTo m = Some (MatchBuyerKey (st e) mi)
    \<and> matchToReservation (snd (handleSettle o1 msg e)) mi = Some rid \<and> rid \<noteq> ''''
    \<and> (settlePhaseFromTags (Tags msg) = ''deliver''
       \<or> (\<exists>r. reservations (book (snd (handleSettle o1 msg e))) rid = Some r \<and> r_AgentKey r = Sender msg))"
proof -
  let ?e = "snd (handleSettle o1 msg e)"
  consider (deliver) "settlePhaseFromTags (Tags msg) = ''deliver''"
      "grows (dueDelivery (mapped ?e) (st e) (requestedMatch (st e) msg)) e ?e"
    | (accept) "grows (dueDelivery (heldBy (Sender msg) ?e) (st e) (requestedMatch (st e) msg)) e ?e"
    | (none) "grows undelivered e ?e"
  proof (cases "settlePhaseFromTags (Tags msg) = ''deliver''")
    case True
    then have "?e = snd (handleSettleDeliverContent o1 msg e)" by (simp add: handleSettle_def)
    moreover have "mapped (snd (handleSettleDeliverContent o1 msg e)) = mapped e"
      using due_deliver[OF assms(1), of e msg] by (simp add: mapped_def fun_eq_iff)
    ultimately show thesis using deliver True due_deliver[OF assms(1), of e msg] by (simp add: requestedMatch_def)
  next
    case False
    show thesis
    proof (cases "settlePhaseFromTags (Tags msg) = ''buyer-accept''")
      case True
      then have "?e = snd (handleSettleBuyerAcceptScrip o1 msg e)" using assms(1) by (simp add: handleSettle_def Let_def)
      then show thesis using accept grows_accept[OF False, of o1 e] by simp
    next
      case b: False
      show thesis
        by (rule none) (use False b grows_undelivered[OF grows_preview[of e o1 msg]] grows_undelivered[OF grows_dispute[of e o1 msg]]
            undelivered_complete[of e o1 msg] grows_undelivered[OF grows_consume[of e o1 msg]]
            grows_trans[OF grows_undelivered[OF grows_consume[of e o1 msg]] undelivered_complete[of _ o1 msg]]
          in \<open>simp add: handleSettle_def Let_def\<close>)
    qed
  qed
  then show ?thesis
    by cases (use assms(2,3) in \<open>auto simp: grows_def list_all_iff dueDelivery_def delivers_def ordinary_def undelivered_def
      mapped_def heldBy_def\<close>)
qed

text \<open>A deliver of the exchange core against a held match is answered with the blob's pointer, for the buyer.\<close>

definition tinyHeld :: engine where
  "tinyHeld = disputeEngine\<lparr>matchToReservation := [''m'' \<mapsto> ''r'']\<rparr>"

definition tinyDeliver :: message where
  "tinyDeliver = \<lparr>ID = ''d'', Sender = ''op'', Payload = Some (JObj []), Tags = phaseTags ''deliver'',
     Antecedents = [''a''], Timestamp = 1, Instance = ''''\<rparr>"

lemma tiny_delivered: "map Tags (localLog (snd (handleSettle tinyOpts tinyDeliver tinyHeld))) = [phaseTags ''deliver'']"
  by code_simp

lemma refunded_still_delivers:
  "reservations (book (snd (handleSettle tinyOpts tinyDispute tinyHeld))) ''r'' = None
   \<and> map Tags (localLog (snd (handleSettle tinyOpts tinyDeliver (snd (handleSettle tinyOpts tinyDispute tinyHeld)))))
     = [[TagScripDisputeRefund], phaseTags ''deliver'']"
  by (rule conjI; code_simp)

lemma delivery_held_witness:
  "\<exists>m. m \<in> set (localLog (snd (handleSettle tinyOpts tinyDeliver tinyHeld))) \<and> deliveredEntry m = Some ''e''
    \<and> deliveredTo m = Some ''b''
    \<and> (\<exists>rid. matchToReservation (snd (handleSettle tinyOpts tinyDeliver tinyHeld)) ''m'' = Some rid \<and> rid \<noteq> '''')"
proof -
  obtain m where m: "localLog (snd (handleSettle tinyOpts tinyDeliver tinyHeld)) = [m]" "Tags m = phaseTags ''deliver''"
    using tiny_delivered by auto
  have h: "ScripStoreSet tinyOpts" "localLog tinyHeld = []"
    by (simp_all add: tinyOpts_def tinyHeld_def disputeEngine_def tinyEngine_def)
  have r: "requestedMatch (st tinyHeld) tinyDeliver = Some ''m''" "MatchEntryID (st tinyHeld) ''m'' = ''e''"
    "MatchBuyerKey (st tinyHeld) ''m'' = ''b''" by code_simp+
  have g: "GetInventoryEntry (st tinyHeld) ''e'' = Some tinyEntry"
    by (simp add: GetInventoryEntry_def tinyHeld_def disputeEngine_def tinyEngine_def)
  have "EntryID tinyEntry = ''e''" by (simp add: tinyEntry_def)
  then show ?thesis using delivery_held[of tinyOpts m tinyHeld tinyDeliver] m h r g by auto
qed

text \<open>
  C35: no match is paid out twice. Whatever settle messages are dispatched, in whatever order and however often, with
  restarts of the operator in between, the log holds at most one settlement of the operator for a match, and every
  match so settled is known as settled.
\<close>

theorem settled_once:
  assumes "localLog e = []" "strangers o1 evs"
  shows "distinct (paidOut o1 (deskRun o1 e evs)) \<and> set (paidOut o1 (deskRun o1 e evs)) \<subseteq> settledMatches (st (deskRun o1 e evs))"
proof -
  have "once o1 e" using assms(1) by (simp add: once_def paidOut_def map_filter_simps)
  from once_run[OF this assms(2)] show ?thesis by (simp add: once_def)
qed

text \<open>Completed twice: one settlement.\<close>

definition tinyComplete :: message where
  "tinyComplete = \<lparr>ID = ''k'', Sender = ''b'', Payload = Some (JObj []), Tags = phaseTags ''complete'',
     Antecedents = [''d''], Timestamp = 1, Instance = ''''\<rparr>"

lemma tiny_paid: "paidOut tinyOpts (deskRun tinyOpts tinyHeld [Handled tinyComplete, Handled tinyComplete]) = [''m'']"
  by code_simp

lemma settled_once_witness:
  "''m'' \<in> settledMatches (st (deskRun tinyOpts tinyHeld [Handled tinyComplete, Handled tinyComplete]))"
  using settled_once[of tinyHeld tinyOpts "[Handled tinyComplete, Handled tinyComplete]"]
  by (simp add: tiny_paid) (simp add: tinyHeld_def disputeEngine_def tinyEngine_def strangers_def)

end
