(* ===== verification/Spec2Isabelle.thy ===== *)
theory Spec2Isabelle
  imports Nip44 Exchange_Redelivery Sequencer Trust Engine_Poll Engine_Credit_Laws Engine_Settle_Safety
begin

text \<open>
  A verification library for the DontGuess exchange (Go, \<open>src/pkg\<close>).

  The program. Agents sell cached work to each other through one operator. Everything that happens is a
  message in a log: a put offers content, a buy asks, the operator's match answers, settle messages take a sale through
  preview, acceptance, delivery and completion, assign messages hand out side tasks, scrip messages move money.
  The operator's engine reads the log, folds every message into a state, and answers some of them with messages
  of its own; after a restart it rebuilds all of it from the log. So most of what has to be right is about folds: what
  a message may change, who may send it, what holds after any log, and whether the rebuilt state is the one
  that was lost.

  The parts, and the theories that model them. Every operation is one definition with the source's name, composed as
  in the code; a handler returns the new state, and an error or early return is a branch of it.

  \<^item> \<open>Prelude\<close>: int64 with its wrap-around (\<open>wrap64\<close>, \<open>int64\<close>), Go maps, the insertion-sort loop, decimal
    formatting, and the locales \<open>event_fold\<close> and \<open>monotone_fold\<close>, which lift a law of one step to every log; the
    ledger, the work queue and the exchange interpret them. \<open>Go_Text\<close>, \<open>Go_Time\<close>, \<open>Go_Float\<close>, \<open>Go_Json\<close>: the
    standard library as the code uses it (hex, base64, SHA-256, HMAC, RFC 3339, rounded doubles,
    \<open>json.Unmarshal\<close> into structs). \<open>Message\<close>: \<open>pkg/proto\<close> and the tag vocabulary.
  \<^item> \<open>Scrip_Ledger\<close>: \<open>LocalScripStore\<close> of \<open>pkg/scrip/relay_store.go\<close>, the money: balances with ETags, loans,
    reservations, total supply; \<open>applyMessage\<close> folds a scrip message, \<open>scripReplay\<close> rebuilds the ledger, and the
    \<open>SpendingStore\<close> calls are a locale (\<open>spending_store\<close>) interpreted on the ledger. Shown: supply conservation over
    whole logs, balances that stay non-negative, single use of ETags, the loan book, idempotence per ID,
    the operator's gate.
  \<^item> \<open>Exchange_State\<close>, \<open>State_Assign\<close>, \<open>State_Inventory\<close>, \<open>State_Orders\<close>, \<open>State_Settle\<close>, \<open>State_Behavioral\<close>: \<open>State\<close> of
    \<open>pkg/exchange/state_*.go\<close>, a chain of records, one per file of handlers: the work queue with its auctions; puts
    with their gates, blobs and decryption; orders, matches, demand signals and standing offers; the settle phases,
    sellers, reprices, federation profiles and scrip indexes; co-occurrence, predictions and price adjustments.
    \<open>Exchange\<close> is \<open>state_core.go\<close>: dispatch, \<open>Apply\<close> and the windowed \<open>Replay\<close>. \<open>Engine_Derivative\<close> is the entry the
    engine inserts for an accepted compression task.
  \<^item> \<open>Exchange_Laws\<close>, \<open>Exchange_Redelivery\<close>: frames of every handler (collected in \<open>frames\<close>), the states the exchange
    reaches (\<open>exchange_reach\<close>: messages, replays, and every method of \<open>State\<close> that writes), the stock and settlement
    invariants, the operator's gate, silence of a replay, and that a redelivered message changes nothing.
  \<^item> \<open>Sequencer\<close>: \<open>sequencer.go\<close>, which puts events of any arrival order into a causal order; the heap loop is
    refined to a canonical linear extension, and success is characterised by an inductive predicate.
  \<^item> \<open>Identity_Allowlist\<close>, \<open>Trust\<close>: \<open>pkg/identity\<close>'s allowlist, and the trust gate with admission on demand and revocation
    (\<open>trust.go\<close>, \<open>engine_admission.go\<close>, the head of \<open>Engine.dispatch\<close>); runs of the gate are lists of events.
  \<^item> \<open>Nip44\<close>: \<open>pkg/nip44\<close>, envelope encryption, with its round trip.
  \<^item> \<open>Engine_Poll\<close>: the poll loop, rebuilds and client ingests of \<open>engine_core.go\<close> as interleaved callers with stale
    snapshots over two cursors, as an inductive step relation; every interleaving is covered.
  \<^item> \<open>Engine_Credit\<close>, \<open>Engine_Pricing\<close>, \<open>Engine_Settle\<close>: the engine's own actions: emitting, minting, loans on demand,
    holds, prices, and every settle handler (\<open>engine_settle.go\<close>, \<open>engine_credit.go\<close>, \<open>engine_pricing.go\<close>,
    \<open>engine_mint.go\<close>). \<open>Engine_Credit_Laws\<close>, \<open>Engine_Settle_Laws\<close>, \<open>Engine_Settle_Safety\<close>: the credit cap, the
    refinement of the running ledger to the one a replay would build, the split of a hold, delivery against
    holds, and one settlement per match.

  How the parts meet. \<open>Engine_Settle\<close>'s engine holds a \<open>Scrip_Ledger\<close> (\<open>book\<close>), the log it appends to (\<open>localLog\<close>), an exchange
  state (\<open>st\<close>) and the session's maps; its handlers read \<open>st\<close> through the accessors of the state theories, move scrip
  in \<open>book\<close>, append to the log and apply what they append. \<open>restartEngine\<close> rebuilds \<open>book\<close> and \<open>st\<close> from the log.
  A message reaches a handler through \<open>Trust\<close>'s gate and \<open>Engine_Poll\<close>'s cursors, after the \<open>Sequencer\<close> has ordered it.

  Conventions. A Go string and a \<open>[]byte\<close> are byte lists. An int64 is an \<open>int\<close> with \<open>wrap64\<close> at each operation that
  may overflow. A payload is the JSON value of the raw body, \<open>None\<close> where it is no JSON. A Go map is a partial
  function where the code looks keys up and an association list where it ranges over it; the order of a range, where
  it shows, is a parameter. The clock, random IDs, file and marshalling failures, the blob store, AEAD, HKDF, ChaCha20,
  ECDH, bech32, the curve check and the embedding similarity are parameters; what is asked of them stands in the
  theorems that need it. The only loops that are not structural (the sequencer's heap, \<open>show_nat\<close>, the sort
  loop) have termination proofs; there is no fuel.

  What is not modelled. Locks: a call is one step, except in \<open>Engine_Poll\<close>, whose steps are the critical sections.
  The buyer's side (\<open>pkg/relayclient\<close>), the relay connection, outbox and watchdog, the pricing loops that produce price
  adjustments, ranking and embeddings (\<open>pkg/matching\<close>, \<open>pkg/nativebert\<close>), the handlers of buy, put and assign messages in
  the engine apart from what is listed above, key files and NIP-42, and the commands. Log lines and the
  prose of guides are left out or a parameter.
\<close>

end
